(* ===== verification/Prelude.thy ===== *)
theory Prelude
  imports Main "HOL-Library.Word" "HOL-Library.Multiset"
begin

text \<open>
  What every component theory shares: the outcome of running a piece of the code
  (it returns, it fails an \<open>assert\<close>, it calls \<open>exit\<close>, it is killed, or it runs into
  undefined behaviour), the sequencing of such pieces over an explicit state, and the
  collections of facts the component proofs pass to the simplifier.
\<close>

section \<open>Collections of facts\<close>

named_theorems prog_defs \<open>definitions of the sequencing combinators\<close>
named_theorems api_defs \<open>definitions of the operations of a component\<close>

section \<open>Outcomes\<close>

text \<open>
  \<open>Aborted\<close> stands for a failed \<open>assert\<close> or an exception nobody catches: both end the
  process by \<open>SIGABRT\<close>. \<open>Undefined\<close> stands for an operation the C++ standard gives no
  meaning to; nothing is claimed about what the process does after it.
\<close>

datatype 'a outcome =
    Returned 'a
  | Aborted
  | Exited int
  | Killed
  | Undefined

text \<open>A piece of code over a state \<open>'w\<close> yields an outcome and the state it leaves.\<close>

type_synonym ('w, 'a) prog = "'w \<Rightarrow> 'a outcome \<times> 'w"

definition ret :: "'a \<Rightarrow> ('w, 'a) prog" where
  "ret x w = (Returned x, w)"

definition stop_with :: "'a outcome \<Rightarrow> ('w, 'a) prog" where
  "stop_with r w = (r, w)"

fun carry :: "'a outcome \<Rightarrow> 'b outcome" where
  "carry (Returned _) = Undefined"
| "carry Aborted = Aborted"
| "carry (Exited n) = Exited n"
| "carry Killed = Killed"
| "carry Undefined = Undefined"

text \<open>Sequencing: the continuation runs only when the first part returned.\<close>

definition bindP :: "('w, 'a) prog \<Rightarrow> ('a \<Rightarrow> ('w, 'b) prog) \<Rightarrow> ('w, 'b) prog" where
  "bindP m k w =
     (case m w of
        (r, w') \<Rightarrow> (case r of Returned x \<Rightarrow> k x w' | _ \<Rightarrow> (carry r, w')))"

definition getP :: "('w \<Rightarrow> 'a) \<Rightarrow> ('w, 'a) prog" where
  "getP f w = (Returned (f w), w)"

definition modP :: "('w \<Rightarrow> 'w) \<Rightarrow> ('w, unit) prog" where
  "modP f w = (Returned (), f w)"

text \<open>A C \<open>for\<close> loop over the elements of a vector.\<close>

fun forP :: "('a \<Rightarrow> ('w, unit) prog) \<Rightarrow> 'a list \<Rightarrow> ('w, unit) prog" where
  "forP f [] w = (Returned (), w)"
| "forP f (x # xs) w = bindP (f x) (\<lambda>_. forP f xs) w"

definition returns :: "'a outcome \<times> 'w \<Rightarrow> bool" where
  "returns r \<longleftrightarrow> (case fst r of Returned _ \<Rightarrow> True | _ \<Rightarrow> False)"

lemmas prog_steps [prog_defs] = ret_def stop_with_def getP_def modP_def

lemma bindP_ret [simp]: "bindP (ret x) k = k x"
  by (rule ext) (simp add: bindP_def ret_def)

lemma bindP_getP [simp]: "bindP (getP f) k w = k (f w) w"
  by (simp add: bindP_def getP_def)

lemma bindP_modP [simp]: "bindP (modP f) k w = k () (f w)"
  by (simp add: bindP_def modP_def)

lemma bindP_stop [simp]: "bindP (stop_with Aborted) k w = (Aborted, w)"
  "bindP (stop_with Undefined) k w = (Undefined, w)"
  "bindP (stop_with (Exited n)) k w = (Exited n, w)"
  "bindP (stop_with Killed) k w = (Killed, w)"
  by (simp_all add: bindP_def stop_with_def)

lemma bindP_Returned: "m w = (Returned x, w') \<Longrightarrow> bindP m k w = k x w'"
  by (simp add: bindP_def)

lemma bindP_assoc: "bindP (bindP m k) h = bindP m (\<lambda>x. bindP (k x) h)"
  by (rule ext) (auto simp: bindP_def split: outcome.splits prod.splits)

lemma bindP_eq_Returned:
  "bindP m k w = (Returned y, w') \<longleftrightarrow> (\<exists>x v. m w = (Returned x, v) \<and> k x v = (Returned y, w'))"
  by (auto simp: bindP_def split: outcome.splits prod.splits)

text \<open>
  The frame rule of the combinators: what both parts of a sequence keep of the state,
  the sequence keeps, whatever the outcome.
\<close>

definition keeps :: "('w \<Rightarrow> 'w \<Rightarrow> bool) \<Rightarrow> ('w, 'a) prog \<Rightarrow> bool" where
  "keeps R m \<longleftrightarrow> (\<forall>w. R w (snd (m w)))"

lemma keepsD: "keeps R m \<Longrightarrow> m w = (r, w') \<Longrightarrow> R w w'"
  unfolding keeps_def by (metis snd_conv)

lemma keeps_bindP:
  assumes "keeps R m" and "\<And>x. keeps R (k x)" and "transp R"
  shows "keeps R (bindP m k)"
  unfolding keeps_def
proof
  fix w
  obtain r w' where m: "m w = (r, w')" by (cases "m w")
  with assms(1) have R1: "R w w'" by (rule keepsD)
  show "R w (snd (bindP m k w))"
  proof (cases r)
    case (Returned x)
    have "R w' (snd (k x w'))" using assms(2) by (simp add: keeps_def)
    with R1 have "R w (snd (k x w'))" using assms(3) by (rule transpD[rotated])
    with m Returned show ?thesis by (simp add: bindP_def)
  qed (use m R1 in \<open>simp_all add: bindP_def\<close>)
qed

lemma keeps_if: "(b \<Longrightarrow> keeps R m) \<Longrightarrow> (\<not> b \<Longrightarrow> keeps R n) \<Longrightarrow> keeps R (if b then m else n)"
  by simp

lemma keeps_forP:
  assumes "\<And>x. keeps R (f x)" and "transp R" and "reflp R"
  shows "keeps R (forP f xs)"
proof (induction xs)
  case Nil
  then show ?case using assms(3) by (simp add: keeps_def reflp_def)
next
  case (Cons x xs)
  have "keeps R (bindP (f x) (\<lambda>_. forP f xs))"
    using assms(1) Cons assms(2) by (rule keeps_bindP)
  then show ?case by (simp add: keeps_def)
qed

text \<open>A property of the state that a piece of code hands on whenever it returns.\<close>

definition carries :: "('w \<Rightarrow> bool) \<Rightarrow> ('w, 'a) prog \<Rightarrow> ('w \<Rightarrow> bool) \<Rightarrow> bool" where
  "carries P m Q \<longleftrightarrow> (\<forall>w x w'. P w \<longrightarrow> m w = (Returned x, w') \<longrightarrow> Q w')"

lemma carriesD: "carries P m Q \<Longrightarrow> m w = (Returned x, w') \<Longrightarrow> P w \<Longrightarrow> Q w'"
  by (auto simp: carries_def)

lemma carries_bindP: "carries P m Q \<Longrightarrow> (\<And>x. carries Q (k x) R) \<Longrightarrow> carries P (bindP m k) R"
  unfolding carries_def by (auto simp: bindP_eq_Returned)

lemma carries_basic:
  "carries P (ret x) P" "carries P (getP f) P" "carries P (stop_with Undefined) Q"
  "(\<And>w. P w \<Longrightarrow> Q (g w)) \<Longrightarrow> carries P (modP g) Q"
  by (auto simp: carries_def ret_def getP_def stop_with_def modP_def)

lemma carries_if: "(b \<Longrightarrow> carries P m Q) \<Longrightarrow> (\<not> b \<Longrightarrow> carries P n Q) \<Longrightarrow> carries P (if b then m else n) Q"
  by simp

text \<open>The same with the promise that the code returns.\<close>

definition yields :: "('w \<Rightarrow> bool) \<Rightarrow> ('w, 'a) prog \<Rightarrow> ('w \<Rightarrow> bool) \<Rightarrow> bool" where
  "yields P m Q \<longleftrightarrow> (\<forall>w. P w \<longrightarrow> (\<exists>x w'. m w = (Returned x, w') \<and> Q w'))"

lemma yieldsE:
  assumes "yields P m Q" "P w"
  obtains x w' where "m w = (Returned x, w')" "Q w'"
  using assms unfolding yields_def by blast

lemma yields_bindP: "yields P m Q \<Longrightarrow> (\<And>x. yields Q (k x) R) \<Longrightarrow> yields P (bindP m k) R"
  unfolding yields_def by (metis bindP_Returned)

text \<open>\<open>R\<close> is what the continuation may rely on of the value that is read.\<close>

lemma yields_bindP_getP:
  assumes "\<And>w. P w \<Longrightarrow> R (f w)" "\<And>x. R x \<Longrightarrow> yields P (k x) Q"
  shows "yields P (bindP (getP f) k) Q"
  using assms by (simp add: yields_def)

lemma yields_basic:
  "yields P (ret x) P" "yields P (getP f) P" "(\<And>w. P w \<Longrightarrow> Q (g w)) \<Longrightarrow> yields P (modP g) Q"
  by (auto simp: yields_def ret_def getP_def modP_def)

lemma yields_if: "(b \<Longrightarrow> yields P m Q) \<Longrightarrow> (\<not> b \<Longrightarrow> yields P n Q) \<Longrightarrow> yields P (if b then m else n) Q"
  by simp

section \<open>Systems of steps and their invariants\<close>

text \<open>
  Several parts of the program are state machines driven from outside: the worker pool,
  the log file writer, the watchdog. Each is a start condition and a step relation; a
  property every step keeps holds in every state such a system reaches.
\<close>

inductive reach :: "('s \<Rightarrow> bool) \<Rightarrow> ('s \<Rightarrow> 's \<Rightarrow> bool) \<Rightarrow> 's \<Rightarrow> bool"
  for start step where
  reach_start: "start s \<Longrightarrow> reach start step s"
| reach_step: "reach start step s \<Longrightarrow> step s t \<Longrightarrow> reach start step t"

locale guarded_system =
  fixes start :: "'s \<Rightarrow> bool"
    and step :: "'s \<Rightarrow> 's \<Rightarrow> bool"
    and inv :: "'s \<Rightarrow> bool"
  assumes start_inv: "start s \<Longrightarrow> inv s"
    and step_inv: "inv s \<Longrightarrow> step s t \<Longrightarrow> inv t"
begin

lemma reach_inv: "reach start step s \<Longrightarrow> inv s"
  by (induction rule: reach.induct) (auto intro: start_inv step_inv)

lemma rtrancl_inv: "step\<^sup>*\<^sup>* s t \<Longrightarrow> inv s \<Longrightarrow> inv t"
  by (induction rule: rtranclp_induct) (auto intro: step_inv)

end

text \<open>A system whose every step is a step of an abstract one, or none: its runs are runs of the abstract one.\<close>

locale refined_system = guarded_system start step inv
  for start :: "'s \<Rightarrow> bool" and step :: "'s \<Rightarrow> 's \<Rightarrow> bool" and inv :: "'s \<Rightarrow> bool" +
  fixes astep :: "'a \<Rightarrow> 'a \<Rightarrow> bool"
    and view :: "'s \<Rightarrow> 'a"
  assumes step_sim: "inv s \<Longrightarrow> step s t \<Longrightarrow> astep\<^sup>=\<^sup>= (view s) (view t)"
begin

lemma run_sim: "step\<^sup>*\<^sup>* s t \<Longrightarrow> inv s \<Longrightarrow> astep\<^sup>*\<^sup>* (view s) (view t)"
proof (induction rule: rtranclp_induct)
  case (step t u)
  then have "astep\<^sup>=\<^sup>= (view t) (view u)" using rtrancl_inv step_sim by blast
  with step show ?case by (auto intro: rtranclp.rtrancl_into_rtrancl)
qed simp

lemma reach_view: "reach start step s \<Longrightarrow> (\<And>s. start s \<Longrightarrow> astart (view s)) \<Longrightarrow> reach astart astep (view s)"
proof (induction rule: reach.induct)
  case (reach_step s t)
  then have "astep\<^sup>=\<^sup>= (view s) (view t)" using reach_inv step_sim by blast
  with reach_step show ?case by (auto intro: reach.reach_step)
qed (blast intro: reach.reach_start)

end

lemma reach_rtranclp: "step\<^sup>*\<^sup>* s t \<Longrightarrow> reach start step s \<Longrightarrow> reach start step t"
  by (induction rule: rtranclp_induct) (auto intro: reach_step)

section \<open>Lists\<close>

lemma takeWhile_id_iff: "takeWhile P xs = xs \<longleftrightarrow> (\<forall>x\<in>set xs. P x)"
  by (metis takeWhile_eq_all_conv)

lemma length_takeWhile_less:
  "x \<in> set xs \<Longrightarrow> \<not> P x \<Longrightarrow> length (takeWhile P xs) < length xs"
  by (induction xs) auto

end
