(* ===== verification/CLib.thy ===== *)
theory CLib
  imports Prelude
begin

text \<open>
  The parts of the C and C++ standard libraries the program's own string code is written
  with: NUL-terminated strings and fixed-size character buffers, \<open>strncpy\<close>, \<open>strchr\<close>,
  \<open>snprintf\<close>, \<open>fgets\<close>, \<open>atoi\<close> and \<open>%d\<close>, and the three \<open>std::string\<close> operations the
  configuration reader uses. A character is a byte. A read or write outside a buffer, and
  an integer conversion outside the range of \<open>int\<close>, is \<open>None\<close>: the standard leaves it
  undefined.
\<close>

section \<open>NUL-terminated strings\<close>

definition NUL :: char where
  "NUL = CHR 0x00"

text \<open>The C string a byte sequence holds: the bytes before the first NUL.\<close>

definition c_str :: "string \<Rightarrow> string" where
  "c_str s = takeWhile (\<lambda>c. c \<noteq> NUL) s"

lemma c_str_no_nul: "NUL \<notin> set (c_str s)"
  by (auto simp: c_str_def dest: set_takeWhileD)

lemma c_str_id: "NUL \<notin> set s \<Longrightarrow> c_str s = s"
  by (auto simp: c_str_def takeWhile_id_iff)

lemma c_str_idem [simp]: "c_str (c_str s) = c_str s"
  by (rule c_str_id) (rule c_str_no_nul)

lemma c_str_Nil [simp]: "c_str [] = []"
  by (simp add: c_str_def)

lemma c_str_append_nul: "NUL \<notin> set s \<Longrightarrow> c_str (s @ NUL # t) = s"
  by (induction s) (auto simp: c_str_def)

lemma c_str_padded: "NUL \<notin> set s \<Longrightarrow> c_str (s @ replicate k NUL @ NUL # t) = s"
  by (cases k) (simp_all add: c_str_append_nul)

lemma length_c_str: "length (c_str s) \<le> length s"
  by (simp add: c_str_def length_takeWhile_le)

lemma c_str_take: "NUL \<notin> set s \<Longrightarrow> c_str (take n s) = take n s"
  by (meson c_str_id in_set_takeD)

section \<open>Buffers\<close>

text \<open>
  A \<open>char[n]\<close> is a list of length \<open>n\<close>. \<open>buf_str\<close> reads the string it holds; with no NUL in
  the buffer the read runs past its end.
\<close>

definition buf_str :: "char list \<Rightarrow> string option" where
  "buf_str b = (if NUL \<in> set b then Some (c_str b) else None)"

definition zero_buf :: "nat \<Rightarrow> char list" where
  "zero_buf n = replicate n NUL"

text \<open>
  \<open>strncpy(dest, src, n)\<close> writes exactly \<open>n\<close> bytes, the string padded by NULs or cut
  without a terminator.
\<close>

definition strncpy :: "char list \<Rightarrow> string \<Rightarrow> nat \<Rightarrow> char list option" where
  "strncpy dest src n =
     (if n \<le> length dest
      then Some (take n (c_str src @ replicate n NUL) @ drop n dest)
      else None)"

text \<open>\<open>dest[i] = c\<close>.\<close>

definition buf_set :: "char list \<Rightarrow> int \<Rightarrow> char \<Rightarrow> char list option" where
  "buf_set b i c = (if 0 \<le> i \<and> i < int (length b) then Some (b[nat i := c]) else None)"

text \<open>
  \<open>snprintf(buf, n, "%s...", ...)\<close> with the formatted text given: the string it leaves, and
  the value it returns, the length the whole text has.
\<close>

definition snprintf :: "nat \<Rightarrow> string \<Rightarrow> string" where
  "snprintf n s = take (n - 1) s"

definition snprintf_ret :: "string \<Rightarrow> int" where
  "snprintf_ret s = int (length s)"

lemma length_strncpy: "strncpy d s n = Some b \<Longrightarrow> length b = length d"
  by (auto simp: strncpy_def split: if_splits)

lemma length_zero_buf [simp]: "length (zero_buf n) = n"
  by (simp add: zero_buf_def)

lemma length_snprintf: "0 < n \<Longrightarrow> length (snprintf n s) < n"
  by (auto simp: snprintf_def)

lemma snprintf_id: "length s < n \<Longrightarrow> snprintf n s = s"
  by (auto simp: snprintf_def)

section \<open>Decimal numbers\<close>

definition is_digit :: "char \<Rightarrow> bool" where
  "is_digit c \<longleftrightarrow> 48 \<le> (of_char c :: nat) \<and> (of_char c :: nat) \<le> 57"

definition digit_val :: "char \<Rightarrow> int" where
  "digit_val c = int (of_char c) - 48"

definition digit_char :: "nat \<Rightarrow> char" where
  "digit_char n = char_of (48 + n)"

definition is_space :: "char \<Rightarrow> bool" where
  "is_space c \<longleftrightarrow> (of_char c :: nat) = 32 \<or> (9 \<le> (of_char c :: nat) \<and> (of_char c :: nat) \<le> 13)"

definition INT_MAX :: int where "INT_MAX = 2147483647"
definition INT_MIN :: int where "INT_MIN = - 2147483648"

definition int_range :: "int \<Rightarrow> bool" where
  "int_range i \<longleftrightarrow> INT_MIN \<le> i \<and> i \<le> INT_MAX"

fun dec_acc :: "int \<Rightarrow> string \<Rightarrow> int" where
  "dec_acc v [] = v"
| "dec_acc v (c # cs) = (if is_digit c then dec_acc (v * 10 + digit_val c) cs else v)"

definition atoi_value :: "string \<Rightarrow> int" where
  "atoi_value s =
     (case dropWhile is_space s of
        [] \<Rightarrow> 0
      | c # cs \<Rightarrow>
          if c = CHR ''-'' then - dec_acc 0 cs
          else if c = CHR ''+'' then dec_acc 0 cs
          else dec_acc 0 (c # cs))"

definition atoi :: "string \<Rightarrow> int option" where
  "atoi s = (if int_range (atoi_value s) then Some (atoi_value s) else None)"

fun nat_dec :: "nat \<Rightarrow> string" where
  "nat_dec n = (if n < 10 then [digit_char n] else nat_dec (n div 10) @ [digit_char (n mod 10)])"

declare nat_dec.simps [simp del]

text \<open>The text \<open>%d\<close> produces.\<close>

definition int_dec :: "int \<Rightarrow> string" where
  "int_dec i = (if i < 0 then CHR ''-'' # nat_dec (nat (- i)) else nat_dec (nat i))"

lemma of_char_digit_char: "n < 10 \<Longrightarrow> of_char (digit_char n) = (48 + n :: nat)"
  by (simp add: digit_char_def of_char_of)

lemma is_digit_digit_char: "n < 10 \<Longrightarrow> is_digit (digit_char n)"
  by (simp add: is_digit_def of_char_digit_char)

lemma digit_val_digit_char: "n < 10 \<Longrightarrow> digit_val (digit_char n) = int n"
proof -
  assume "n < 10"
  then have "(of_char (digit_char n) :: nat) = 48 + n" by (rule of_char_digit_char)
  then have "int (of_char (digit_char n)) = 48 + int n" by simp
  then show ?thesis by (simp add: digit_val_def)
qed

lemma nat_dec_digits: "c \<in> set (nat_dec n) \<Longrightarrow> is_digit c"
proof (induction n arbitrary: c rule: nat_dec.induct)
  case (1 n)
  show ?case
  proof (cases "n < 10")
    case True
    with 1 show ?thesis by (auto simp: nat_dec.simps [of n] is_digit_digit_char)
  next
    case False
    with 1 show ?thesis by (auto simp: nat_dec.simps [of n] is_digit_digit_char)
  qed
qed

lemma dec_acc_append:
  "(\<And>c. c \<in> set xs \<Longrightarrow> is_digit c) \<Longrightarrow> dec_acc v (xs @ ys) = dec_acc (dec_acc v xs) ys"
  by (induction xs arbitrary: v) auto

lemma dec_acc_nat_dec: "dec_acc 0 (nat_dec n) = int n"
proof (induction n rule: nat_dec.induct)
  case (1 n)
  show ?case
  proof (cases "n < 10")
    case True
    then show ?thesis by (simp add: nat_dec.simps [of n] is_digit_digit_char digit_val_digit_char)
  next
    case False
    have d: "n mod 10 < 10" by simp
    have "dec_acc 0 (nat_dec n) = dec_acc (int (n div 10)) [digit_char (n mod 10)]"
      using False 1 by (simp add: nat_dec.simps [of n] dec_acc_append nat_dec_digits)
    also have "\<dots> = int (n div 10) * 10 + int (n mod 10)"
      using d by (simp add: is_digit_digit_char digit_val_digit_char)
    also have "\<dots> = int n" by (metis div_mult_mod_eq of_nat_add of_nat_mult of_nat_numeral)
    finally show ?thesis .
  qed
qed

lemma dec_acc_stop: "\<not> is_digit c \<Longrightarrow> dec_acc v (c # cs) = v"
  by simp

lemma nat_dec_not_Nil: "nat_dec n \<noteq> []"
  by (subst nat_dec.simps) simp

lemma digit_not_special:
  "is_digit c \<Longrightarrow> c \<noteq> CHR ''-'' \<and> c \<noteq> CHR ''+'' \<and> \<not> is_space c \<and> c \<noteq> NUL"
  by (auto simp: is_digit_def is_space_def NUL_def)

text \<open>Reading back a printed number, whatever non-digit text follows it.\<close>

lemma atoi_value_int_dec:
  assumes "rest = [] \<or> \<not> is_digit (hd rest)"
  shows "atoi_value (int_dec i @ rest) = i"
proof -
  have acc: "dec_acc 0 (nat_dec n @ rest) = int n" for n
    using assms by (cases rest) (simp_all add: dec_acc_append nat_dec_digits dec_acc_nat_dec)
  show ?thesis
  proof (cases "i < 0")
    case True
    then have "dropWhile is_space (int_dec i @ rest) = CHR ''-'' # nat_dec (nat (- i)) @ rest"
      by (simp add: int_dec_def is_space_def)
    with True show ?thesis by (simp add: atoi_value_def acc)
  next
    case False
    obtain c cs where n: "nat_dec (nat i) = c # cs"
      using nat_dec_not_Nil by (cases "nat_dec (nat i)") auto
    then have "is_digit c" using nat_dec_digits[of c "nat i"] by simp
    with digit_not_special have s: "c \<noteq> CHR ''-''" "c \<noteq> CHR ''+''" "\<not> is_space c" by blast+
    from False n have "int_dec i @ rest = c # cs @ rest" by (simp add: int_dec_def)
    with s have "atoi_value (int_dec i @ rest) = dec_acc 0 (nat_dec (nat i) @ rest)"
      using n by (simp add: atoi_value_def)
    with acc[of "nat i"] False show ?thesis by simp
  qed
qed

lemma int_dec_no_nul: "NUL \<notin> set (int_dec i)"
  using nat_dec_digits digit_not_special by (auto simp: int_dec_def NUL_def)

lemma length_nat_dec_le:
  "n < 10 ^ k \<Longrightarrow> 0 < k \<Longrightarrow> length (nat_dec n) \<le> k"
proof (induction n arbitrary: k rule: nat_dec.induct)
  case (1 n)
  show ?case
  proof (cases "n < 10")
    case True
    with "1.prems" show ?thesis by (simp add: nat_dec.simps [of n])
  next
    case False
    with "1.prems" have "k \<noteq> 0" "k \<noteq> 1" by auto
    then obtain j where k: "k = Suc j" and "0 < j"
      by (metis gr0_conv_Suc neq0_conv One_nat_def)
    with "1.prems" have "n div 10 < 10 ^ j" by (simp add: less_mult_imp_div_less mult.commute)
    with "1.IH" False \<open>0 < j\<close> have "length (nat_dec (n div 10)) \<le> j" by blast
    with False k show ?thesis by (simp add: nat_dec.simps [of n])
  qed
qed

lemma length_int_dec:
  assumes "int_range i"
  shows "length (int_dec i) \<le> 11"
proof -
  have "nat (- i) < 10 ^ 10" "nat i < 10 ^ 10"
    using assms by (auto simp: int_range_def INT_MIN_def INT_MAX_def)
  then have "length (nat_dec (nat (- i))) \<le> 10" "length (nat_dec (nat i)) \<le> 10"
    by (auto intro: length_nat_dec_le)
  then show ?thesis by (simp add: int_dec_def)
qed

section \<open>Searching\<close>

text \<open>The offset of the first \<open>c\<close> in \<open>s\<close>, as \<open>std::string::find\<close> or \<open>strchr\<close> gives it.\<close>

fun find_char :: "char \<Rightarrow> string \<Rightarrow> nat option" where
  "find_char c [] = None"
| "find_char c (x # xs) = (if x = c then Some 0 else map_option Suc (find_char c xs))"

lemma find_char_None [simp]: "find_char c s = None \<longleftrightarrow> c \<notin> set s"
  by (induction s) auto

lemma find_char_mem: "find_char c s = Some n \<Longrightarrow> c \<in> set s"
  by (metis find_char_None option.distinct(1))

lemma find_char_bound: "find_char c s = Some n \<Longrightarrow> n < length s"
  by (induction s arbitrary: n) (auto split: if_splits)

lemma find_char_Some:
  "find_char c s = Some n \<longleftrightarrow> n < length s \<and> s ! n = c \<and> c \<notin> set (take n s)"
proof (induction s arbitrary: n)
  case Nil
  then show ?case by simp
next
  case (Cons x xs)
  show ?case by (cases n) (auto simp: Cons.IH)
qed

lemma find_char_append:
  "c \<notin> set s \<Longrightarrow> find_char c (s @ c # t) = Some (length s)"
  by (induction s) auto

section \<open>The standard string class\<close>

text \<open>
  \<open>erase(pos, 1)\<close> throws \<open>std::out_of_range\<close> when \<open>pos\<close> is past the end; a negative \<open>int\<close>
  converted to \<open>size_t\<close> always is.
\<close>

definition string_erase1 :: "int \<Rightarrow> string \<Rightarrow> string option" where
  "string_erase1 pos s =
     (if 0 \<le> pos \<and> pos \<le> int (length s)
      then Some (take (nat pos) s @ drop (Suc (nat pos)) s) else None)"

lemma string_erase1_find:
  "find_char c s = Some n \<Longrightarrow> string_erase1 (int n) s = Some (take n s @ drop (Suc n) s)"
  by (auto simp: string_erase1_def dest: find_char_bound)

section \<open>Reading lines\<close>

text \<open>
  \<open>fgets(buf, n, fp)\<close>: at most \<open>n - 1\<close> bytes, up to and including a newline. \<open>take_line k\<close>
  gives the bytes read and those left for the next call.
\<close>

fun take_line :: "nat \<Rightarrow> string \<Rightarrow> string \<times> string" where
  "take_line 0 s = ([], s)"
| "take_line (Suc k) [] = ([], [])"
| "take_line (Suc k) (c # cs) =
     (if c = CHR 0x0A then ([c], cs)
      else (let (l, r) = take_line k cs in (c # l, r)))"

lemma take_line_length: "take_line k s = (l, r) \<Longrightarrow> length l \<le> k \<and> length l + length r = length s"
  by (induction k s arbitrary: l r rule: take_line.induct)
     (fastforce split: if_splits prod.splits)+

lemma take_line_append: "take_line k s = (l, r) \<Longrightarrow> s = l @ r"
  by (induction k s arbitrary: l r rule: take_line.induct)
     (auto split: if_splits prod.splits)

lemma take_line_whole:
  "CHR 0x0A \<notin> set s \<Longrightarrow> length s < k \<Longrightarrow> take_line k (s @ CHR 0x0A # t) = (s @ [CHR 0x0A], t)"
proof (induction s arbitrary: k)
  case Nil
  then show ?case by (cases k) auto
next
  case (Cons c s)
  then show ?case by (cases k) auto
qed

end
