(* ===== verification/PString.thy ===== *)
theory PString
  imports CLib "HOL-Library.Sublist"
begin

text \<open>
  \<open>injectService/pulld/src/string/p_string.cpp\<close>: the bounded string copies and the integer
  reader of the watchdog. A buffer argument is the list of its bytes; \<open>None\<close> is a write
  past the buffer, a signed overflow, or a read past the bytes the caller owns.
\<close>

section \<open>The contract of a bounded string writer\<close>

text \<open>
  \<open>snprintf\<close>, \<open>rc_strncpy\<close> and \<open>rn_snprintf\<close> are used for one purpose: to put a text into a
  buffer of \<open>n\<close> bytes. What their callers rely on is that the string left there fits with
  its terminator and is the text, cut at the end if it has to be.
\<close>

locale bounded_writer =
  fixes wr :: "nat \<Rightarrow> string \<Rightarrow> string"
  assumes wr_fits: "0 < n \<Longrightarrow> length (wr n s) < n"
    and wr_prefix: "prefix (wr n s) s"
    and wr_whole: "NUL \<notin> set s \<Longrightarrow> length s < n \<Longrightarrow> wr n s = s"
begin

lemma wr_length_le: "length (wr n s) \<le> length s"
  using wr_prefix by (rule prefix_length_le)

lemma wr_take: "wr n s = take (length (wr n s)) s"
  using wr_prefix[of n s] by (metis append_eq_conv_conj prefix_def)

lemma wr_no_nul: "NUL \<notin> set s \<Longrightarrow> NUL \<notin> set (wr n s)"
  using wr_prefix set_mono_prefix by blast

lemma wr_idem: "NUL \<notin> set s \<Longrightarrow> 0 < n \<Longrightarrow> wr n (wr n s) = wr n s"
  by (rule wr_whole) (simp_all add: wr_no_nul wr_fits)

text \<open>A text that went through a buffer of \<open>n\<close> bytes fits every larger one unchanged.\<close>

lemma wr_copy_through: "NUL \<notin> set s \<Longrightarrow> 0 < n \<Longrightarrow> n \<le> m \<Longrightarrow> wr m (wr n s) = wr n s"
  by (rule wr_whole) (simp_all add: wr_no_nul order_less_le_trans[OF wr_fits])

end

interpretation snp: bounded_writer snprintf
  by unfold_locales (auto simp: snprintf_def take_is_prefix)

section \<open>Operations\<close>

definition strncpy_i :: "char list \<Rightarrow> string \<Rightarrow> int \<Rightarrow> char list option" where
  "strncpy_i dest src n = (if n < 0 then None else strncpy dest src (nat n))"

definition rc_strncpy :: "char list \<Rightarrow> int \<Rightarrow> string \<Rightarrow> int \<Rightarrow> char list option" where
  "rc_strncpy dest d_l src s_l =
     (if s_l < d_l - 1
      then (case strncpy_i dest src s_l of
              None \<Rightarrow> None
            | Some dest' \<Rightarrow> buf_set dest' s_l NUL)
      else (case strncpy_i dest src (d_l - 1) of
              None \<Rightarrow> None
            | Some dest' \<Rightarrow> buf_set dest' (d_l - 1) NUL))"

definition rn_strncpy :: "char list \<Rightarrow> int \<Rightarrow> string \<Rightarrow> int \<Rightarrow> (char list \<times> int) option" where
  "rn_strncpy dest d_l src s_l =
     (if s_l < d_l - 1
      then (case strncpy_i dest src (s_l - 1) of
              None \<Rightarrow> None
            | Some dest' \<Rightarrow> map_option (\<lambda>d. (d, s_l - 1)) (buf_set dest' (s_l - 1) NUL))
      else (case strncpy_i dest src (d_l - 1) of
              None \<Rightarrow> None
            | Some dest' \<Rightarrow> map_option (\<lambda>d. (d, d_l - 1)) (buf_set dest' (d_l - 1) NUL)))"

text \<open>
  \<open>rn_snprintf\<close>: the formatted text is \<open>None\<close> when \<open>vsnprintf\<close> reports an encoding error by
  a negative count; the text left in the buffer is then not relied on.
\<close>

definition rn_snprintf :: "nat \<Rightarrow> string option \<Rightarrow> string option \<times> int" where
  "rn_snprintf n txt =
     (case txt of
        None \<Rightarrow> (None, - 1)
      | Some s \<Rightarrow>
          (let cnt = snprintf_ret s in
           (Some (snprintf n s), if cnt < int n then cnt else int n)))"

text \<open>The loop of \<open>p_atoof\<close>: \<open>n\<close> bytes are left to read from \<open>line\<close>.\<close>

fun p_atoof_loop :: "int \<Rightarrow> string \<Rightarrow> nat \<Rightarrow> int option" where
  "p_atoof_loop value line 0 = Some (if value < 0 then - 1 else value)"
| "p_atoof_loop value [] (Suc n) = None"
| "p_atoof_loop value (c # line) (Suc n) =
     (if \<not> is_digit c then Some (- 1)
      else (let v = value * 10 + digit_val c in
            if int_range (value * 10) \<and> int_range v then p_atoof_loop v line n else None))"

definition p_atoof :: "string \<Rightarrow> nat \<Rightarrow> int option" where
  "p_atoof line n = (if n = 0 then Some (- 1) else p_atoof_loop 0 line n)"

section \<open>The copies\<close>

lemma strncpy_then_nul:
  assumes "n < length dest"
  shows "\<exists>d b. strncpy_i dest src (int n) = Some d \<and> buf_set d (int n) NUL = Some b \<and>
           length b = length dest \<and> buf_str b = Some (take n (c_str src))"
proof -
  let ?p = "take n (c_str src @ replicate n NUL)"
  have len: "length ?p = n" by simp
  have s: "strncpy_i dest src (int n) = Some (?p @ drop n dest)"
    using assms by (simp add: strncpy_i_def strncpy_def)
  have d: "drop n dest = dest ! n # drop (Suc n) dest" using assms by (simp add: Cons_nth_drop_Suc)
  have b: "buf_set (?p @ drop n dest) (int n) NUL = Some (?p @ NUL # drop (Suc n) dest)"
    using assms d len by (auto simp: buf_set_def list_update_append)
  have "c_str (?p @ NUL # drop (Suc n) dest) = take n (c_str src)"
  proof -
    have "?p = take n (c_str src) @ replicate (n - length (c_str src)) NUL"
      by (simp add: min_def)
    moreover have "NUL \<notin> set (take n (c_str src))" using c_str_no_nul in_set_takeD by fast
    ultimately show ?thesis by (simp add: c_str_padded)
  qed
  moreover have "length (?p @ NUL # drop (Suc n) dest) = length dest" using assms len by simp
  ultimately show ?thesis using s b by (simp add: buf_str_def)
qed

lemma rc_strncpy_eq:
  assumes "0 \<le> s_l" "0 < d_l" "d_l \<le> int (length dest)"
  shows "\<exists>b. rc_strncpy dest d_l src s_l = Some b \<and> length b = length dest \<and>
           buf_str b = Some (take (nat (min s_l (d_l - 1))) (c_str src))"
proof (cases "s_l < d_l - 1")
  case True
  then have "nat s_l < length dest" "min s_l (d_l - 1) = s_l" using assms by auto
  with strncpy_then_nul[of "nat s_l" dest src] assms(1) True show ?thesis
    by (auto simp: rc_strncpy_def)
next
  case False
  then have "nat (d_l - 1) < length dest" "min s_l (d_l - 1) = d_l - 1" using assms by auto
  with strncpy_then_nul[of "nat (d_l - 1)" dest src] assms(2) False show ?thesis
    by (auto simp: rc_strncpy_def)
qed

text \<open>
  C29 (safety of \<open>rc_strncpy\<close>). With a positive buffer size that the buffer really has and a
  non-negative length, the copy stays inside the buffer and leaves the first
  \<open>min s_l (d_l - 1)\<close> bytes of the source there, NUL-terminated; with a buffer size of zero
  or below, or a negative length, it writes outside the buffer whatever its contents are.
\<close>

theorem rc_strncpy_bounded:
  assumes "d_l \<le> int (length dest)"
  shows "(case rc_strncpy dest d_l src s_l of
            Some b \<Rightarrow> 0 < d_l \<and> 0 \<le> s_l \<and> length b = length dest \<and>
                      buf_str b = Some (take (nat (min s_l (d_l - 1))) (c_str src))
          | None \<Rightarrow> d_l \<le> 0 \<or> s_l < 0)"
proof (cases "0 < d_l \<and> 0 \<le> s_l")
  case True
  with rc_strncpy_eq[of s_l d_l dest src] assms show ?thesis by auto
next
  case False
  then have "rc_strncpy dest d_l src s_l = None"
    by (auto simp: rc_strncpy_def strncpy_i_def)
  with False show ?thesis by auto
qed

theorem rc_strncpy_bounded_witness:
  "(3::int) \<le> int (length ''xxxx'') \<and>
   rc_strncpy ''xxxx'' 3 ''abcd'' 4 = Some [CHR ''a'', CHR ''b'', NUL, CHR ''x'']"
  using rc_strncpy_bounded[where d_l = 3 and dest = "''xxxx''" and src = "''abcd''" and s_l = 4]
  by (simp add: rc_strncpy_def strncpy_i_def strncpy_def buf_set_def c_str_def NUL_def)

text \<open>
  What \<open>rn_strncpy\<close> does with its length: below the buffer's size it copies one byte less
  than it is told and returns that number, at the limit it copies \<open>d_l - 1\<close> bytes.
\<close>

lemma rn_strncpy_eq:
  assumes "0 < s_l" "0 < d_l" "d_l \<le> int (length dest)"
  shows "\<exists>b. rn_strncpy dest d_l src s_l =
               Some (b, if s_l < d_l - 1 then s_l - 1 else d_l - 1) \<and>
           length b = length dest \<and>
           buf_str b = Some (take (nat (if s_l < d_l - 1 then s_l - 1 else d_l - 1)) (c_str src))"
proof -
  let ?n = "nat (if s_l < d_l - 1 then s_l - 1 else d_l - 1)"
  have n: "?n < length dest" "int ?n = (if s_l < d_l - 1 then s_l - 1 else d_l - 1)"
    using assms by auto
  from strncpy_then_nul[OF n(1), of src] n(2) show ?thesis
    by (auto simp: rn_strncpy_def split: if_splits)
qed

definition rc_write :: "nat \<Rightarrow> string \<Rightarrow> string" where
  "rc_write n s =
     (case rc_strncpy (zero_buf n) (int n) s (int (length s)) of
        None \<Rightarrow> []
      | Some b \<Rightarrow> (case buf_str b of None \<Rightarrow> [] | Some t \<Rightarrow> t))"

lemma rc_write_eq: "0 < n \<Longrightarrow> rc_write n s = take (min (length s) (n - 1)) (c_str s)"
proof -
  assume "0 < n"
  then obtain b where "rc_strncpy (zero_buf n) (int n) s (int (length s)) = Some b"
    and "buf_str b = Some (take (nat (min (int (length s)) (int n - 1))) (c_str s))"
    using rc_strncpy_eq[of "int (length s)" "int n" "zero_buf n" s] by auto
  moreover have "nat (min (int (length s)) (int n - 1)) = min (length s) (n - 1)"
    using \<open>0 < n\<close> by linarith
  ultimately show ?thesis by (simp add: rc_write_def)
qed

interpretation rcw: bounded_writer rc_write
proof
  fix n :: nat and s :: string
  have z: "rc_write 0 s = []"
    by (simp add: rc_write_def rc_strncpy_def strncpy_i_def)
  have pre: "prefix (c_str s) s" by (simp add: c_str_def takeWhile_is_prefix)
  show "prefix (rc_write n s) s"
    using z pre rc_write_eq[of n s] by (cases n) (auto intro: prefix_order.trans take_is_prefix)
  show "0 < n \<Longrightarrow> length (rc_write n s) < n" by (auto simp: rc_write_eq)
  show "NUL \<notin> set s \<Longrightarrow> length s < n \<Longrightarrow> rc_write n s = s"
    by (simp add: rc_write_eq c_str_id min_def)
qed

section \<open>The integer reader\<close>

lemma digit_val_bounds: "is_digit c \<Longrightarrow> 0 \<le> digit_val c \<and> digit_val c \<le> 9"
  by (auto simp: is_digit_def digit_val_def)

lemma dec_acc_ge: "0 \<le> v \<Longrightarrow> (\<And>c. c \<in> set s \<Longrightarrow> is_digit c) \<Longrightarrow> v \<le> dec_acc v s"
proof (induction s arbitrary: v)
  case (Cons c s)
  have d: "is_digit c" using Cons.prems(2) by simp
  then have ge: "v \<le> v * 10 + digit_val c" "0 \<le> v * 10 + digit_val c"
    using Cons.prems(1) digit_val_bounds[of c] by auto
  have "v * 10 + digit_val c \<le> dec_acc (v * 10 + digit_val c) s"
    using ge(2) Cons.prems(2) by (intro Cons.IH) auto
  with ge(1) d show ?case by simp
qed simp

lemma p_atoof_loop_digits:
  assumes "0 \<le> v" "\<And>c. c \<in> set s \<Longrightarrow> is_digit c" "int_range v"
  shows "p_atoof_loop v (s @ t) (length s) =
           (if dec_acc v s \<le> INT_MAX then Some (dec_acc v s) else None)"
  using assms
proof (induction s arbitrary: v)
  case Nil
  then show ?case by (simp add: int_range_def)
next
  case (Cons c s)
  let ?v = "v * 10 + digit_val c"
  have d: "is_digit c" and ds: "\<And>x. x \<in> set s \<Longrightarrow> is_digit x" using Cons.prems(2) by auto
  with digit_val_bounds[of c] Cons.prems(1) have v: "0 \<le> ?v" "v * 10 \<le> ?v" "0 \<le> v * 10" by auto
  show ?case
  proof (cases "int_range ?v")
    case True
    then have "int_range (v * 10)" using v by (auto simp: int_range_def INT_MIN_def)
    with True d Cons.IH[OF v(1) ds] show ?thesis by (simp add: Let_def)
  next
    case False
    then have "INT_MAX < ?v" using v by (auto simp: int_range_def INT_MIN_def)
    moreover have "?v \<le> dec_acc ?v s" using v(1) ds by (rule dec_acc_ge)
    ultimately have "\<not> dec_acc v (c # s) \<le> INT_MAX" using d by simp
    with False d show ?thesis by (simp add: Let_def)
  qed
qed

lemma p_atoof_loop_nondigit:
  assumes "0 \<le> v" "\<And>c. c \<in> set s \<Longrightarrow> is_digit c" "int_range v" "dec_acc v s \<le> INT_MAX"
    and "\<not> is_digit x" "length s < n"
  shows "p_atoof_loop v (s @ x # t) n = Some (- 1)"
  using assms
proof (induction s arbitrary: v n)
  case Nil
  then obtain m where "n = Suc m" by (cases n) auto
  with Nil.prems show ?case by simp
next
  case (Cons c s)
  let ?v = "v * 10 + digit_val c"
  obtain m where n: "n = Suc m" "length s < m" using Cons.prems(6) by (cases n) auto
  have d: "is_digit c" and ds: "\<And>x. x \<in> set s \<Longrightarrow> is_digit x" using Cons.prems(2) by auto
  with digit_val_bounds[of c] Cons.prems(1) have v: "0 \<le> ?v" "v * 10 \<le> ?v" "0 \<le> v * 10" by auto
  have le: "dec_acc ?v s \<le> INT_MAX" using Cons.prems(4) d by simp
  moreover have "?v \<le> dec_acc ?v s" using v(1) ds by (rule dec_acc_ge)
  ultimately have "?v \<le> INT_MAX" by linarith
  with v have r: "int_range ?v" "int_range (v * 10)" by (auto simp: int_range_def INT_MIN_def)
  with Cons.IH[OF v(1) ds r(1) le Cons.prems(5) n(2)] d n(1) show ?case by (simp add: Let_def)
qed

lemma p_atoof_int_dec:
  assumes "0 \<le> i" "i \<le> INT_MAX"
  shows "p_atoof (int_dec i @ t) (length (int_dec i)) = Some i"
proof -
  have "int_dec i = nat_dec (nat i)" using assms by (simp add: int_dec_def)
  moreover have "list_all is_digit (nat_dec (nat i))"
    by (auto simp: list_all_iff nat_dec_digits)
  ultimately show ?thesis
    using assms p_atoof_loop_digits[of 0 "nat_dec (nat i)" t] nat_dec_not_Nil
    by (simp add: p_atoof_def list_all_iff dec_acc_nat_dec int_range_def INT_MIN_def INT_MAX_def)
qed

text \<open>
  Functional behaviour of \<open>p_atoof\<close>. Reading all the bytes of a digit string gives its
  value exactly when the value fits an \<open>int\<close>; beyond that the multiplication overflows,
  which the code does not check for. A byte that is not a digit, before the overflow, yields
  \<open>-1\<close>, and printing a non-negative \<open>int\<close> and reading it back is the identity.
\<close>

theorem p_atoof_digits:
  assumes "list_all is_digit s"
  shows "(s \<noteq> [] \<longrightarrow> p_atoof (s @ t) (length s) =
             (if dec_acc 0 s \<le> INT_MAX then Some (dec_acc 0 s) else None)) \<and>
         (dec_acc 0 s \<le> INT_MAX \<and> \<not> is_digit x \<and> length s < n \<longrightarrow> p_atoof (s @ x # t) n = Some (- 1)) \<and>
         (0 \<le> i \<and> i \<le> INT_MAX \<longrightarrow> p_atoof (int_dec i @ t) (length (int_dec i)) = Some i)"
  using assms p_atoof_loop_digits[of 0 s t] p_atoof_loop_nondigit[of 0 s x n t] p_atoof_int_dec[of i t]
  by (simp add: p_atoof_def list_all_iff int_range_def INT_MIN_def INT_MAX_def)

theorem p_atoof_digits_witness:
  "p_atoof ''427x'' 3 = Some 427 \<and> p_atoof ''427x'' 4 = Some (- 1) \<and> p_atoof ''2147483648'' 10 = None"
proof -
  have "list_all is_digit ''427''" "list_all is_digit ''2147483648''" by (simp_all add: is_digit_def)
  from p_atoof_digits[OF this(1), of "''x''" "CHR ''x''" 4] p_atoof_digits[OF this(1), of "[]" "CHR ''x''" 4]
    p_atoof_digits[OF this(2), of "[]"]
  show ?thesis by (simp add: is_digit_def digit_val_def INT_MAX_def eval_nat_numeral)
qed

end
