(* ===== verification/PullLog.thy ===== *)
theory PullLog
  imports PString
begin

text \<open>
  \<open>pull/src/log4cplus/log.cpp\<close>: the front end of the server to the logging library. What the
  library does with a message is its business; modelled is what it is given. \<open>enabled conf lvl\<close>
  is the library's answer to \<open>isEnabledFor\<close> for a logger set up from the file \<open>conf\<close>, \<open>None\<close>
  being the logger before \<open>Init\<close>.
\<close>

section \<open>Levels\<close>

datatype LogLevel = TRACE_LEVEL | DEBUG_LEVEL | INFO_LEVEL | WARN_LEVEL | ERROR_LEVEL | FATAL_LEVEL

fun level_rank :: "LogLevel \<Rightarrow> nat" where
  "level_rank TRACE_LEVEL = 0"
| "level_rank DEBUG_LEVEL = 1"
| "level_rank INFO_LEVEL = 2"
| "level_rank WARN_LEVEL = 3"
| "level_rank ERROR_LEVEL = 4"
| "level_rank FATAL_LEVEL = 5"

lemma level_rank_inject: "level_rank a = level_rank b \<longleftrightarrow> a = b"
  by (cases a; cases b) simp_all

instantiation LogLevel :: linorder
begin

definition less_eq_LogLevel :: "LogLevel \<Rightarrow> LogLevel \<Rightarrow> bool" where
  "less_eq_LogLevel a b \<longleftrightarrow> level_rank a \<le> level_rank b"

definition less_LogLevel :: "LogLevel \<Rightarrow> LogLevel \<Rightarrow> bool" where
  "less_LogLevel a b \<longleftrightarrow> level_rank a < level_rank b"

instance
  by standard (auto simp: less_eq_LogLevel_def less_LogLevel_def level_rank_inject)

end

section \<open>Operations\<close>

record logger =
  lg_conf :: "string option"
  lg_lines :: "(LogLevel \<times> string) list"

definition logger_new :: logger where
  "logger_new = \<lparr>lg_conf = None, lg_lines = []\<rparr>"

definition LOG_MAX_PARA_STR_LEN :: nat where "LOG_MAX_PARA_STR_LEN = 512"

definition Init :: "string \<Rightarrow> bool \<Rightarrow> (logger, unit) prog" where
  "Init config daemonized =
     (if daemonized then modP (\<lambda>l. l\<lparr>lg_conf := Some (c_str (config @ ''/log4cplus/log-d.conf''))\<rparr>)
      else modP (\<lambda>l. l\<lparr>lg_conf := Some (c_str (config @ ''/log4cplus/log.conf''))\<rparr>))"

text \<open>The macro \<open>LOG4CPLUS_x\<close>: the message is handed over if its level is enabled.\<close>

definition log_macro :: "(string option \<Rightarrow> LogLevel \<Rightarrow> bool) \<Rightarrow> LogLevel \<Rightarrow> string \<Rightarrow> (logger, unit) prog" where
  "log_macro enabled lvl parameters =
     modP (\<lambda>l. if enabled (lg_conf l) lvl then l\<lparr>lg_lines := lg_lines l @ [(lvl, c_str parameters)]\<rparr> else l)"

text \<open>\<open>text\<close> is what the format and the arguments of a call expand to.\<close>

definition Trace :: "(string option \<Rightarrow> LogLevel \<Rightarrow> bool) \<Rightarrow> string \<Rightarrow> (logger, unit) prog" where
  "Trace enabled msg =
     (let parameters = snprintf LOG_MAX_PARA_STR_LEN msg in log_macro enabled TRACE_LEVEL parameters)"

definition Debug :: "(string option \<Rightarrow> LogLevel \<Rightarrow> bool) \<Rightarrow> string \<Rightarrow> (logger, unit) prog" where
  "Debug enabled msg =
     (let parameters = snprintf LOG_MAX_PARA_STR_LEN msg in log_macro enabled DEBUG_LEVEL parameters)"

definition Info :: "(string option \<Rightarrow> LogLevel \<Rightarrow> bool) \<Rightarrow> string \<Rightarrow> (logger, unit) prog" where
  "Info enabled msg =
     (let parameters = snprintf LOG_MAX_PARA_STR_LEN msg in log_macro enabled INFO_LEVEL parameters)"

definition Warn :: "(string option \<Rightarrow> LogLevel \<Rightarrow> bool) \<Rightarrow> string \<Rightarrow> (logger, unit) prog" where
  "Warn enabled msg =
     (let parameters = snprintf LOG_MAX_PARA_STR_LEN msg in log_macro enabled WARN_LEVEL parameters)"

definition Error :: "(string option \<Rightarrow> LogLevel \<Rightarrow> bool) \<Rightarrow> string \<Rightarrow> (logger, unit) prog" where
  "Error enabled msg =
     (let parameters = snprintf LOG_MAX_PARA_STR_LEN msg in log_macro enabled ERROR_LEVEL parameters)"

definition Fatal :: "(string option \<Rightarrow> LogLevel \<Rightarrow> bool) \<Rightarrow> string \<Rightarrow> (logger, unit) prog" where
  "Fatal enabled msg =
     (let parameters = snprintf LOG_MAX_PARA_STR_LEN msg in log_macro enabled FATAL_LEVEL parameters)"

section \<open>What reaches the library\<close>

text \<open>The six calls as one, by level.\<close>

fun log_call :: "(string option \<Rightarrow> LogLevel \<Rightarrow> bool) \<Rightarrow> LogLevel \<times> string \<Rightarrow> (logger, unit) prog" where
  "log_call enabled (TRACE_LEVEL, msg) = Trace enabled msg"
| "log_call enabled (DEBUG_LEVEL, msg) = Debug enabled msg"
| "log_call enabled (INFO_LEVEL, msg) = Info enabled msg"
| "log_call enabled (WARN_LEVEL, msg) = Warn enabled msg"
| "log_call enabled (ERROR_LEVEL, msg) = Error enabled msg"
| "log_call enabled (FATAL_LEVEL, msg) = Fatal enabled msg"

lemma log_call_eq:
  "log_call enabled (lvl, msg) = log_macro enabled lvl (snprintf LOG_MAX_PARA_STR_LEN msg)"
  by (cases lvl) (simp_all add: Trace_def Debug_def Info_def Warn_def Error_def Fatal_def)

text \<open>
  C33 (what is logged). After \<open>Init\<close>, with a library that lets through what is at or above the
  threshold the configuration sets, a sequence of log calls hands over, in order, exactly the
  messages at or above the threshold, each cut to its first 511 bytes.
\<close>

theorem log_calls_filter:
  assumes "\<forall>c lvl. enabled (Some c) lvl \<longleftrightarrow> threshold c \<le> lvl"
    and "path = c_str (config @ (if daemonized then ''/log4cplus/log-d.conf'' else ''/log4cplus/log.conf''))"
    and "\<forall>(lvl, msg)\<in>set calls. NUL \<notin> set msg"
  shows "bindP (Init config daemonized) (\<lambda>_. forP (log_call enabled) calls) logger_new =
     (Returned (), \<lparr>lg_conf = Some path,
        lg_lines = map (\<lambda>(lvl, msg). (lvl, take 511 msg)) (filter (\<lambda>(lvl, msg). threshold path \<le> lvl) calls)\<rparr>)"
proof -
  have "forP (log_call enabled) calls \<lparr>lg_conf = Some path, lg_lines = ls\<rparr> =
     (Returned (), \<lparr>lg_conf = Some path,
        lg_lines = ls @ map (\<lambda>(lvl, msg). (lvl, take 511 msg)) (filter (\<lambda>(lvl, msg). threshold path \<le> lvl) calls)\<rparr>)"
    for ls
    using assms(3)
  proof (induction calls arbitrary: ls)
    case (Cons c cs)
    obtain lvl msg where c: "c = (lvl, msg)" by fastforce
    with Cons.prems have "c_str (snprintf LOG_MAX_PARA_STR_LEN msg) = take 511 msg"
      by (simp add: snprintf_def LOG_MAX_PARA_STR_LEN_def c_str_take)
    with Cons assms(1) c show ?case
      by (simp add: log_call_eq log_macro_def bindP_def modP_def del: log_call.simps)
  qed simp
  moreover have "Init config daemonized logger_new = (Returned (), \<lparr>lg_conf = Some path, lg_lines = []\<rparr>)"
    using assms(2) by (simp add: Init_def modP_def logger_new_def)
  ultimately show ?thesis by (simp add: bindP_def)
qed

theorem log_calls_filter_witness:
  "lg_lines (snd (bindP (Init ''etc'' True)
     (\<lambda>_. forP (log_call (\<lambda>c lvl. INFO_LEVEL \<le> lvl)) [(DEBUG_LEVEL, ''a''), (WARN_LEVEL, ''b''), (INFO_LEVEL, ''c'')])
     logger_new)) = [(WARN_LEVEL, ''b''), (INFO_LEVEL, ''c'')]"
proof -
  have "bindP (Init ''etc'' True)
     (\<lambda>_. forP (log_call (\<lambda>c lvl. INFO_LEVEL \<le> lvl)) [(DEBUG_LEVEL, ''a''), (WARN_LEVEL, ''b''), (INFO_LEVEL, ''c'')])
     logger_new =
     (Returned (), \<lparr>lg_conf = Some (c_str (''etc'' @ (if True then ''/log4cplus/log-d.conf'' else ''/log4cplus/log.conf''))),
        lg_lines = map (\<lambda>(lvl, msg). (lvl, take 511 msg))
          (filter (\<lambda>(lvl, msg). INFO_LEVEL \<le> lvl) [(DEBUG_LEVEL, ''a''), (WARN_LEVEL, ''b''), (INFO_LEVEL, ''c'')])\<rparr>)"
    by (rule log_calls_filter[where threshold = "\<lambda>c. INFO_LEVEL"]) (simp_all add: NUL_def)
  then show ?thesis by (simp add: less_eq_LogLevel_def)
qed

end
