(* ===== verification/Common.thy ===== *)
theory Common
  imports PString
begin

text \<open>
  \<open>pull/src/app/common.h\<close>: the data the parts of the server exchange. An \<open>int\<close> member the
  constructor of \<open>process_info\<close> does not set is \<open>None\<close> until the code assigns it; using it
  before is undefined behaviour.
\<close>

datatype event_t = EV_CREATE_PROCESS | EV_RELOAD_PROCESS | EV_REMOVE_PROCESS | EV_TERMINATE_PROCESS

definition TP_RTMP_2_RTMP :: int where "TP_RTMP_2_RTMP = 0"
definition TP_RTSP_2_RTMP :: int where "TP_RTSP_2_RTMP = 1"

record process_info =
  pi_sid :: string
  pi_pid :: "int option"
  pi_ppid :: "int option"
  pi_src_url :: string
  pi_dest_url :: string
  pi_type :: int
  pi_status :: string
  pi_host :: string

definition process_info_new :: process_info where
  "process_info_new =
     \<lparr>pi_sid = [], pi_pid = None, pi_ppid = None, pi_src_url = [], pi_dest_url = [],
      pi_type = TP_RTMP_2_RTMP, pi_status = [], pi_host = []\<rparr>"

record rec_event =
  ev_process :: process_info
  ev_type :: event_t

datatype error_code =
    ERROR_OK
  | ERROR_STREAM_EXIST
  | REC_ERROR_PORCESS_INFO_NONE
  | REC_ERROR_GET_COLLECTION_FAILED
  | REC_ERROR_FORK_FAILED
  | REC_ERROR_STREAM_NOT_EXIST
  | REC_ERROR_MONGODB
  | REC_ERROR_JSON_PARSER
  | REC_ERROR_INTERNAL
  | REC_ERROR_PORT_UNSPECIFIED
  | REC_ERROR_ROOT_PATH_UNSPECIFIED
  | REC_ERROR_M3U8_PATH_EXIST
  | REC_ERROR_JSON_PARSER_EXCEPTION
  | ERROR_OPEN_PID_FILE
  | ERROR_TRANSLATE_TYPE_UNEXCEPTED

text \<open>The functions of the program pass the codes as \<open>int\<close>.\<close>

fun err :: "error_code \<Rightarrow> int" where
  "err ERROR_OK = 0"
| "err ERROR_STREAM_EXIST = 1"
| "err REC_ERROR_PORCESS_INFO_NONE = 2"
| "err REC_ERROR_GET_COLLECTION_FAILED = 3"
| "err REC_ERROR_FORK_FAILED = 4"
| "err REC_ERROR_STREAM_NOT_EXIST = 5"
| "err REC_ERROR_MONGODB = 6"
| "err REC_ERROR_JSON_PARSER = 7"
| "err REC_ERROR_INTERNAL = 8"
| "err REC_ERROR_PORT_UNSPECIFIED = 9"
| "err REC_ERROR_ROOT_PATH_UNSPECIFIED = 10"
| "err REC_ERROR_M3U8_PATH_EXIST = 11"
| "err REC_ERROR_JSON_PARSER_EXCEPTION = 12"
| "err ERROR_OPEN_PID_FILE = 13"
| "err ERROR_TRANSLATE_TYPE_UNEXCEPTED = 14"

lemma err_zero_iff [simp]: "err e = 0 \<longleftrightarrow> e = ERROR_OK"
  by (cases e) simp_all

lemma err_inject [simp]: "err e = err f \<longleftrightarrow> e = f"
  by (cases e; cases f) simp_all

record app_data =
  ad_host :: string
  ad_port :: int

end
