(* ===== verification/Mongo.thy ===== *)
theory Mongo
  imports Common
begin

text \<open>
  \<open>pull/src/app/mongoCommonApi.cpp\<close> and the libraries below it. The MongoDB driver, the
  BSON encoder and the JSON reader are not part of the repository: they are the record
  \<open>lib\<close>, an argument of every definition that calls them. A BSON document is what the
  program appends to it, a list of keys and values; the database is an abstract state \<open>'db\<close>
  and a parsed JSON value an abstract \<open>'j\<close>. The laws a theorem needs of them are stated in
  \<open>MongoLaws\<close>.
\<close>

section \<open>Library calls\<close>

datatype bson_value = Utf8 string | Int32 int | Document "(string \<times> bson_value) list"

type_synonym bson = "(string \<times> bson_value) list"

text \<open>A collection handle: the address of the client, the database, the collection.\<close>

type_synonym coll = "string \<times> string \<times> string"

text \<open>
  \<open>l_asserts\<close> is whether \<open>assert\<close> is compiled in; no build rule of the repository defines
  \<open>NDEBUG\<close>. The driver's constructors say whether they return a handle or \<open>NULL\<close>; \<open>l_find\<close>
  lists the documents a fresh cursor yields until it is exhausted or fails; \<open>l_as_json\<close> is
  \<open>None\<close> where \<open>bson_as_json\<close> returns \<open>NULL\<close>. A C++ exception of the JSON library is the
  left alternative, with its \<open>what()\<close> text.
\<close>

record ('db, 'j) lib =
  l_asserts :: bool
  l_client_new :: "string \<Rightarrow> bool"
  l_get_collection :: "coll \<Rightarrow> bool"
  l_insert :: "coll \<Rightarrow> bson \<Rightarrow> 'db \<Rightarrow> bool \<times> 'db"
  l_update :: "coll \<Rightarrow> bson \<Rightarrow> bson \<Rightarrow> 'db \<Rightarrow> bool \<times> 'db"
  l_find :: "coll \<Rightarrow> bson \<Rightarrow> 'db \<Rightarrow> bson list"
  l_remove :: "coll \<Rightarrow> bson \<Rightarrow> 'db \<Rightarrow> bool \<times> 'db"
  l_as_json :: "bson \<Rightarrow> string option"
  l_parse :: "string \<Rightarrow> 'j option"
  l_member :: "'j \<Rightarrow> string \<Rightarrow> string + 'j"
  l_as_string :: "'j \<Rightarrow> string + string"
  l_as_int :: "'j \<Rightarrow> string + int"

text \<open>
  The part of a program's state the adaptor works on: the database, and how many clients,
  collection handles, cursors and BSON documents it holds and has not released.
\<close>

record 'db dbstate =
  w_db :: 'db
  w_clients :: int
  w_colls :: int
  w_cursors :: int
  w_bsons :: int

text \<open>\<open>assert(c)\<close> followed by the rest \<open>k\<close>.\<close>

definition assert_then :: "('db, 'j) lib \<Rightarrow> bool \<Rightarrow> ('w, 'a) prog \<Rightarrow> ('w, 'a) prog" where
  "assert_then L c k = (if \<not> c \<and> l_asserts L then stop_with Aborted else k)"

definition bson_new :: "(('db, 'x) dbstate_scheme, unit) prog" where
  "bson_new = modP (\<lambda>w. w\<lparr>w_bsons := w_bsons w + 1\<rparr>)"

definition bson_destroy :: "(('db, 'x) dbstate_scheme, unit) prog" where
  "bson_destroy = modP (\<lambda>w. w\<lparr>w_bsons := w_bsons w - 1\<rparr>)"

section \<open>The adaptor\<close>

definition connect :: "('db, 'j) lib \<Rightarrow> string \<Rightarrow> (('db, 'x) dbstate_scheme, string option) prog" where
  "connect L addr =
     (let ins = (if l_client_new L (c_str addr) then Some (c_str addr) else None) in
      bindP (modP (\<lambda>w. if ins \<noteq> None then w\<lparr>w_clients := w_clients w + 1\<rparr> else w)) (\<lambda>_.
      assert_then L (ins \<noteq> None) (ret ins)))"

definition connect_close :: "string option \<Rightarrow> (('db, 'x) dbstate_scheme, unit) prog" where
  "connect_close c = modP (\<lambda>w. if c \<noteq> None then w\<lparr>w_clients := w_clients w - 1\<rparr> else w)"

definition collection ::
  "('db, 'j) lib \<Rightarrow> string option \<Rightarrow> string \<Rightarrow> string \<Rightarrow> (('db, 'x) dbstate_scheme, coll option) prog" where
  "collection L conn db coll =
     assert_then L (conn \<noteq> None)
       (case conn of
          None \<Rightarrow> ret None
        | Some client \<Rightarrow>
            (let h = (client, c_str db, c_str coll);
                 ins = (if l_get_collection L h then Some h else None) in
             bindP (modP (\<lambda>w. if ins \<noteq> None then w\<lparr>w_colls := w_colls w + 1\<rparr> else w)) (\<lambda>_.
             assert_then L (ins \<noteq> None) (ret ins))))"

definition collection_release :: "coll option \<Rightarrow> (('db, 'x) dbstate_scheme, unit) prog" where
  "collection_release c = modP (\<lambda>w. if c \<noteq> None then w\<lparr>w_colls := w_colls w - 1\<rparr> else w)"

text \<open>A \<open>bool\<close> of the driver returned as \<open>int\<close>, and the database it leaves.\<close>

definition driver_call :: "('db \<Rightarrow> bool \<times> 'db) \<Rightarrow> (('db, 'x) dbstate_scheme, int) prog" where
  "driver_call f w = (case f (w_db w) of (ok, d) \<Rightarrow> (Returned (if ok then 1 else 0), w\<lparr>w_db := d\<rparr>))"

definition mongo_insert ::
  "('db, 'j) lib \<Rightarrow> coll option \<Rightarrow> bson \<Rightarrow> (('db, 'x) dbstate_scheme, int) prog" where
  "mongo_insert L collect query =
     assert_then L (collect \<noteq> None)
       (case collect of
          None \<Rightarrow> ret (err REC_ERROR_GET_COLLECTION_FAILED)
        | Some c \<Rightarrow> driver_call (l_insert L c query))"

definition mongo_update ::
  "('db, 'j) lib \<Rightarrow> coll option \<Rightarrow> bson \<Rightarrow> bson \<Rightarrow> (('db, 'x) dbstate_scheme, int) prog" where
  "mongo_update L collect query upd =
     assert_then L (collect \<noteq> None)
       (case collect of
          None \<Rightarrow> ret (err REC_ERROR_GET_COLLECTION_FAILED)
        | Some c \<Rightarrow> driver_call (l_update L c query upd))"

text \<open>The cursor \<open>mongoc_collection_find_with_opts\<close> returns, which nothing destroys.\<close>

definition open_cursor :: "('db, 'j) lib \<Rightarrow> coll \<Rightarrow> bson \<Rightarrow> (('db, 'x) dbstate_scheme, bson list) prog" where
  "open_cursor L c query w = (Returned (l_find L c query (w_db w)), w\<lparr>w_cursors := w_cursors w + 1\<rparr>)"

text \<open>A \<open>std::string\<close> made from a null pointer is undefined.\<close>

fun find_loop :: "('db, 'j) lib \<Rightarrow> string list \<Rightarrow> bson list \<Rightarrow> ('w, string list) prog" where
  "find_loop L lst [] = ret lst"
| "find_loop L lst (doc # docs) =
     (case l_as_json L doc of
        None \<Rightarrow> stop_with Undefined
      | Some str \<Rightarrow> find_loop L (lst @ [c_str str]) docs)"

definition mongo_find ::
  "('db, 'j) lib \<Rightarrow> coll option \<Rightarrow> bson \<Rightarrow> string list \<Rightarrow> (('db, 'x) dbstate_scheme, int \<times> string list) prog" where
  "mongo_find L collect query lst =
     assert_then L (collect \<noteq> None)
       (case collect of
          None \<Rightarrow> ret (err REC_ERROR_GET_COLLECTION_FAILED, lst)
        | Some c \<Rightarrow>
            bindP (open_cursor L c query) (\<lambda>docs.
            bindP (find_loop L lst docs) (\<lambda>lst'. ret (0, lst'))))"

definition mongo_findOne ::
  "('db, 'j) lib \<Rightarrow> coll option \<Rightarrow> bson \<Rightarrow> string \<Rightarrow> (('db, 'x) dbstate_scheme, int \<times> string) prog" where
  "mongo_findOne L collect query item =
     assert_then L (collect \<noteq> None)
       (case collect of
          None \<Rightarrow> ret (err REC_ERROR_GET_COLLECTION_FAILED, item)
        | Some c \<Rightarrow>
            bindP (open_cursor L c query) (\<lambda>docs.
            case docs of
              [] \<Rightarrow> ret (err REC_ERROR_PORCESS_INFO_NONE, item)
            | doc # _ \<Rightarrow>
                (case l_as_json L doc of
                   None \<Rightarrow> stop_with Undefined
                 | Some str \<Rightarrow> ret (err ERROR_OK, c_str str))))"

definition mongo_remove ::
  "('db, 'j) lib \<Rightarrow> coll option \<Rightarrow> bson \<Rightarrow> (('db, 'x) dbstate_scheme, int) prog" where
  "mongo_remove L collect query =
     assert_then L (collect \<noteq> None)
       (case collect of
          None \<Rightarrow> ret (err REC_ERROR_GET_COLLECTION_FAILED)
        | Some c \<Rightarrow> driver_call (l_remove L c query))"

lemmas adaptor_defs [api_defs] =
  connect_def connect_close_def collection_def collection_release_def
  mongo_insert_def mongo_update_def mongo_find_def mongo_findOne_def mongo_remove_def
  driver_call_def open_cursor_def bson_new_def bson_destroy_def assert_then_def

section \<open>The adaptor when the server answers\<close>

text \<open>
  \<open>db_up\<close>: the address parses as a connection string and the collection name is accepted.
  Both are decided by the strings alone, without any exchange with the server.
\<close>

definition db_up :: "('db, 'j) lib \<Rightarrow> string \<Rightarrow> string \<Rightarrow> string \<Rightarrow> bool" where
  "db_up L addr db coll \<longleftrightarrow>
     l_client_new L (c_str addr) \<and> l_get_collection L (c_str addr, c_str db, c_str coll)"

lemma connect_up:
  "db_up L addr db coll \<Longrightarrow>
   connect L addr w = (Returned (Some (c_str addr)), w\<lparr>w_clients := w_clients w + 1\<rparr>)"
  by (simp add: db_up_def connect_def assert_then_def ret_def)

lemma collection_up:
  "db_up L addr db coll \<Longrightarrow>
   collection L (Some (c_str addr)) db coll w =
     (Returned (Some (c_str addr, c_str db, c_str coll)), w\<lparr>w_colls := w_colls w + 1\<rparr>)"
  by (simp add: db_up_def collection_def assert_then_def ret_def)

text \<open>A bad address ends the process at the \<open>assert\<close> of \<open>connect\<close>.\<close>

lemma connect_bad_address:
  "l_asserts L \<Longrightarrow> \<not> l_client_new L (c_str addr) \<Longrightarrow> connect L addr w = (Aborted, w)"
  by (simp add: connect_def assert_then_def stop_with_def)

lemma find_loop_eq:
  "find_loop L lst docs w =
     (if \<forall>d\<in>set docs. l_as_json L d \<noteq> None
      then (Returned (lst @ map (\<lambda>d. c_str (the (l_as_json L d))) docs), w)
      else (Undefined, w))"
  by (induction docs arbitrary: lst)
     (auto simp: ret_def stop_with_def split: option.splits)

end
