(* ===== verification/World.thy ===== *)
theory World
  imports Mongo
begin

text \<open>
  The state of the running \<open>pull\<close> process: the library state, the operating system as far
  as the code looks at it (the processes it can signal, what the coming \<open>fork\<close> and
  \<open>pthread_create\<close> calls will answer), and the members of the \<open>ServerBiz\<close> singleton
  (\<open>serverBiz.h\<close>). Log output changes none of it and is left out of the definitions.
\<close>

section \<open>Processes\<close>

text \<open>
  What a process of the table is running: a shell given a command, a child of the server
  whose \<open>execl\<close> failed and which ran off the end of its function, some other program, or a
  dead child its parent has not waited for.
\<close>

datatype image = Shell string | FellThrough | Foreign | Zombie

record proc =
  pr_pid :: int
  pr_pgid :: int
  pr_image :: image

section \<open>The worker contexts\<close>

text \<open>The four function pointers of a \<open>WorkerContext\<close> point to functions of \<open>ProcessCtlModule\<close>.\<close>

datatype fn_ptr = FnUnset | SpawnProcess | RemoveProcess | ProcessReload | TerminateProcess

record WorkerContext =
  fn_spawn :: fn_ptr
  fn_remove :: fn_ptr
  fn_reload :: fn_ptr
  fn_terminate :: fn_ptr
  wc_queue :: "rec_event list"
  wc_running :: bool
  wc_tid :: int

definition WorkerContext_new :: WorkerContext where
  "WorkerContext_new =
     \<lparr>fn_spawn = FnUnset, fn_remove = FnUnset, fn_reload = FnUnset, fn_terminate = FnUnset,
      wc_queue = [], wc_running = True, wc_tid = 0\<rparr>"

text \<open>
  \<open>w_forks\<close> and \<open>w_threads\<close> are the answers of the coming calls: a fork that returns no
  positive pid fails, and when the list is used up every fork fails; a thread creation
  fails on a non-zero answer and succeeds once the list is used up.
\<close>

record 'db world = "'db dbstate" +
  w_procs :: "proc list"
  w_forks :: "int list"
  w_threads :: "int list"
  w_exec_ok :: bool
  w_self :: int
  w_pgid :: int
  w_chld_ignored :: bool
  w_instance :: bool
  w_db_address :: string
  w_host :: string
  w_port :: int
  w_workers :: "WorkerContext list"
  w_index :: int
  w_max :: int

section \<open>System calls\<close>

text \<open>
  \<open>fork\<close>, seen from the parent. The child is a new process of the parent's group; what it
  comes to run is decided by the code on its branch, given as \<open>img\<close>.
\<close>

definition sys_fork :: "('db world \<Rightarrow> image) \<Rightarrow> ('db world, int) prog" where
  "sys_fork img w =
     (case w_forks w of
        [] \<Rightarrow> (Returned (- 1), w)
      | r # rs \<Rightarrow>
          if 0 < r
          then (Returned r, w\<lparr>w_forks := rs, w_procs := w_procs w @
                               [\<lparr>pr_pid = r, pr_pgid = w_pgid w, pr_image = img w\<rparr>]\<rparr>)
          else (Returned (- 1), w\<lparr>w_forks := rs\<rparr>))"

definition SIGKILL :: int where "SIGKILL = 9"

text \<open>The processes \<open>kill\<close> addresses by a pid, and whether the caller is among them.\<close>

definition kill_targets :: "'db world \<Rightarrow> int \<Rightarrow> proc \<Rightarrow> bool" where
  "kill_targets w pid p =
     (if 0 < pid then pr_pid p = pid
      else if pid = 0 then pr_pgid p = w_pgid w
      else if pid = - 1 then True
      else pr_pgid p = - pid)"

definition kill_self :: "'db world \<Rightarrow> int \<Rightarrow> bool" where
  "kill_self w pid \<longleftrightarrow> pid = w_self w \<or> pid = 0 \<or> (pid < - 1 \<and> - pid = w_pgid w)"

text \<open>
  A child that dies is gone at once when \<open>SIGCHLD\<close> is ignored and a zombie otherwise (the
  server never waits); a process of somebody else is reaped by its own parent.
\<close>

definition after_death :: "'db world \<Rightarrow> proc \<Rightarrow> proc list" where
  "after_death w p =
     (case pr_image p of
        Foreign \<Rightarrow> []
      | Zombie \<Rightarrow> [p]
      | _ \<Rightarrow> if w_chld_ignored w then [] else [p\<lparr>pr_image := Zombie\<rparr>])"

definition sys_kill :: "int \<Rightarrow> int \<Rightarrow> ('db world, int) prog" where
  "sys_kill pid sig w =
     (if \<not> kill_self w pid \<and> \<not> list_ex (kill_targets w pid) (w_procs w)
      then (Returned (- 1), w)
      else if sig = 0 then (Returned 0, w)
      else (let w' = w\<lparr>w_procs := concat (map (\<lambda>p. if kill_targets w pid p then after_death w p else [p])
                                        (w_procs w))\<rparr>
            in if kill_self w pid then (Killed, w') else (Returned 0, w')))"

text \<open>\<open>getpid\<close>.\<close>

definition sys_getpid :: "('db world, int) prog" where
  "sys_getpid = getP w_self"

text \<open>A child exits by itself.\<close>

definition child_exits :: "int \<Rightarrow> 'db world \<Rightarrow> 'db world" where
  "child_exits pid w =
     w\<lparr>w_procs := concat (map (\<lambda>p. if pr_pid p = pid then after_death w p else [p]) (w_procs w))\<rparr>"

text \<open>The pids a signal can be sent to.\<close>

definition pids :: "'db world \<Rightarrow> int list" where
  "pids w = map pr_pid (w_procs w)"

lemma kill0_alive:
  "0 < pid \<Longrightarrow> sys_kill pid 0 w = (Returned (if pid = w_self w \<or> pid \<in> set (pids w) then 0 else - 1), w)"
  by (auto simp: sys_kill_def kill_self_def kill_targets_def pids_def list_ex_iff)

lemma kill_child:
  assumes "0 < pid" "pid \<noteq> w_self w" "sig \<noteq> 0"
  shows "\<exists>r. sys_kill pid sig w = (Returned r, child_exits pid w)"
proof -
  have t: "kill_targets w pid = (\<lambda>p. pr_pid p = pid)"
    using assms by (intro ext) (simp add: kill_targets_def)
  have s: "\<not> kill_self w pid" using assms by (simp add: kill_self_def)
  show ?thesis
  proof (cases "list_ex (\<lambda>p. pr_pid p = pid) (w_procs w)")
    case True
    then show ?thesis using assms(3) s by (simp add: sys_kill_def t child_exits_def)
  next
    case False
    then have "concat (map (\<lambda>p. if pr_pid p = pid then after_death w p else [p]) (w_procs w)) =
        concat (map (\<lambda>p. [p]) (w_procs w))"
      by (intro arg_cong[of _ _ concat] map_cong) (auto simp: list_ex_iff)
    with False show ?thesis using assms(3) s by (simp add: sys_kill_def t child_exits_def)
  qed
qed

text \<open>
  Why \<open>init\<close> ignores \<open>SIGCHLD\<close>: only then does a child that exited disappear from the table,
  so that \<open>kill(pid, 0)\<close> can tell that it is gone.
\<close>

lemma pids_child_exits:
  assumes "w_chld_ignored w" "\<forall>p\<in>set (w_procs w). pr_image p \<noteq> Zombie"
  shows "set (pids (child_exits pid w)) = set (pids w) - {pid}"
  using assms by (auto simp: pids_def child_exits_def after_death_def split: if_splits image.splits)

lemma zombie_keeps_pid:
  assumes "\<not> w_chld_ignored w" "p \<in> set (w_procs w)" "pr_pid p = pid" "pr_image p \<noteq> Foreign"
  shows "pid \<in> set (pids (child_exits pid w))"
proof -
  obtain q where "q \<in> set (after_death w p)" "pr_pid q = pid"
    using assms(1,3,4) by (cases "pr_image p") (auto simp: after_death_def)
  then have "q \<in> set (w_procs (child_exits pid w))"
    using assms(2,3) by (auto simp: child_exits_def)
  with \<open>pr_pid q = pid\<close> show ?thesis by (auto simp: pids_def)
qed

end
