(* ===== verification/ServerBiz.thy ===== *)
theory ServerBiz
  imports World "HOL-Library.Signed_Division"
begin

text \<open>
  \<open>pull/src/app/serverBiz.cpp\<close>: the operations on the stream cache in MongoDB and on the
  host registry, the pool of worker queues and the round-robin \<open>put_data\<close>. The process
  operations the workers run are in \<open>ProcessCtl\<close>, the loops in \<open>Workers\<close>.
\<close>

section \<open>Handles\<close>

definition MONGODB_DATABASE :: string where "MONGODB_DATABASE = ''pull_stream''"
definition MONGODB_COLLECTION_PROCESS :: string where "MONGODB_COLLECTION_PROCESS = ''process''"
definition MONGODB_COLLECTION_HOSTINFO :: string where "MONGODB_COLLECTION_HOSTINFO = ''host''"

text \<open>
  Every cache operation opens a client and a collection, does its work and releases both;
  \<open>with_collection\<close> is that frame, the work a function of the collection handle.
\<close>

definition with_collection ::
  "('db, 'j) lib \<Rightarrow> string \<Rightarrow> string \<Rightarrow> (coll option \<Rightarrow> ('db world, 'a) prog) \<Rightarrow> ('db world, 'a) prog" where
  "with_collection L db tb body =
     bindP (getP w_db_address) (\<lambda>addr.
     bindP (connect L addr) (\<lambda>conn.
     bindP (collection L conn db tb) (\<lambda>coll.
     bindP (body coll) (\<lambda>ret_val.
     bindP (collection_release coll) (\<lambda>_.
     bindP (connect_close conn) (\<lambda>_.
     ret ret_val))))))"

text \<open>An \<open>int\<close> member that may not have been assigned.\<close>

definition read_int :: "int option \<Rightarrow> ('w, int) prog" where
  "read_int i = (case i of None \<Rightarrow> stop_with Undefined | Some n \<Rightarrow> ret n)"

section \<open>Decoding a cached document\<close>

definition json_string :: "('db, 'j) lib \<Rightarrow> 'j \<Rightarrow> string \<Rightarrow> string + string" where
  "json_string L root k = (case l_member L root k of Inl e \<Rightarrow> Inl e | Inr v \<Rightarrow> l_as_string L v)"

definition json_int :: "('db, 'j) lib \<Rightarrow> 'j \<Rightarrow> string \<Rightarrow> string + int" where
  "json_int L root k = (case l_member L root k of Inl e \<Rightarrow> Inl e | Inr v \<Rightarrow> l_as_int L v)"

text \<open>
  The eight assignments of \<open>parser\<close>, in order; an exception leaves the members assigned so
  far, which is what the left alternative carries.
\<close>

definition set_str :: "('db, 'j) lib \<Rightarrow> 'j \<Rightarrow> string \<Rightarrow> (string \<Rightarrow> process_info \<Rightarrow> process_info)
    \<Rightarrow> process_info + process_info \<Rightarrow> process_info + process_info" where
  "set_str L root k f s =
     (case s of
        Inl i \<Rightarrow> Inl i
      | Inr i \<Rightarrow> (case json_string L root k of Inl _ \<Rightarrow> Inl i | Inr v \<Rightarrow> Inr (f v i)))"

definition set_int :: "('db, 'j) lib \<Rightarrow> 'j \<Rightarrow> string \<Rightarrow> (int \<Rightarrow> process_info \<Rightarrow> process_info)
    \<Rightarrow> process_info + process_info \<Rightarrow> process_info + process_info" where
  "set_int L root k f s =
     (case s of
        Inl i \<Rightarrow> Inl i
      | Inr i \<Rightarrow> (case json_int L root k of Inl _ \<Rightarrow> Inl i | Inr v \<Rightarrow> Inr (f v i)))"

definition parser_fields :: "('db, 'j) lib \<Rightarrow> 'j \<Rightarrow> process_info \<Rightarrow> process_info + process_info" where
  "parser_fields L root info =
     set_int L root ''ppid'' (\<lambda>v i. i\<lparr>pi_ppid := Some v\<rparr>)
     (set_int L root ''pid'' (\<lambda>v i. i\<lparr>pi_pid := Some v\<rparr>)
     (set_str L root ''host'' (\<lambda>v i. i\<lparr>pi_host := v\<rparr>)
     (set_str L root ''status'' (\<lambda>v i. i\<lparr>pi_status := v\<rparr>)
     (set_int L root ''type'' (\<lambda>v i. i\<lparr>pi_type := v\<rparr>)
     (set_str L root ''sid'' (\<lambda>v i. i\<lparr>pi_sid := v\<rparr>)
     (set_str L root ''dest_url'' (\<lambda>v i. i\<lparr>pi_dest_url := v\<rparr>)
     (set_str L root ''src_url'' (\<lambda>v i. i\<lparr>pi_src_url := v\<rparr>) (Inr info))))))))"

definition parser :: "('db, 'j) lib \<Rightarrow> string \<Rightarrow> process_info \<Rightarrow> int \<times> process_info" where
  "parser L item info =
     (case l_parse L (c_str item) of
        None \<Rightarrow> (err REC_ERROR_JSON_PARSER, info)
      | Some root \<Rightarrow>
          (case parser_fields L root info of
             Inl i \<Rightarrow> (err REC_ERROR_JSON_PARSER_EXCEPTION, i)
           | Inr i \<Rightarrow> (err ERROR_OK, i)))"

section \<open>The stream cache\<close>

definition update_process_info :: "('db, 'j) lib \<Rightarrow> process_info \<Rightarrow> ('db world, int) prog" where
  "update_process_info L param =
     with_collection L MONGODB_DATABASE MONGODB_COLLECTION_PROCESS (\<lambda>coll.
       bindP bson_new (\<lambda>_.
       bindP bson_new (\<lambda>_.
       bindP bson_new (\<lambda>_.
       bindP (read_int (pi_pid param)) (\<lambda>pid.
       bindP (mongo_update L coll [(''sid'', Utf8 (c_str (pi_sid param)))]
                [(''$set'', Document [(''pid'', Int32 pid)])]) (\<lambda>ok.
       bindP bson_destroy (\<lambda>_.
       bindP bson_destroy (\<lambda>_.
       ret (if ok = 0 then err REC_ERROR_MONGODB else err ERROR_OK)))))))))"

definition add_process_to_cache :: "('db, 'j) lib \<Rightarrow> process_info \<Rightarrow> ('db world, int) prog" where
  "add_process_to_cache L info =
     with_collection L MONGODB_DATABASE MONGODB_COLLECTION_PROCESS (\<lambda>coll.
       bindP bson_new (\<lambda>_.
       bindP (read_int (pi_pid info)) (\<lambda>pid.
       bindP sys_getpid (\<lambda>self.
       bindP (mongo_insert L coll
                [(''sid'', Utf8 (c_str (pi_sid info))),
                 (''pid'', Int32 pid),
                 (''ppid'', Int32 self),
                 (''src_url'', Utf8 (c_str (pi_src_url info))),
                 (''dest_url'', Utf8 (c_str (pi_dest_url info))),
                 (''type'', Int32 (pi_type info)),
                 (''status'', Utf8 ''active''),
                 (''host'', Utf8 (c_str (pi_host info)))]) (\<lambda>ok.
       bindP bson_destroy (\<lambda>_.
       ret (if ok = 0 then err REC_ERROR_MONGODB else err ERROR_OK)))))))"

text \<open>The loop over the decoded documents: one \<open>item\<close> is reused for all of them.\<close>

fun parse_all :: "('db, 'j) lib \<Rightarrow> string list \<Rightarrow> process_info \<Rightarrow> process_info list" where
  "parse_all L [] item = []"
| "parse_all L (s # ss) item = (let item' = snd (parser L s item) in item' # parse_all L ss item')"

definition find_all_process ::
  "('db, 'j) lib \<Rightarrow> process_info list \<Rightarrow> ('db world, int \<times> process_info list) prog" where
  "find_all_process L processes =
     with_collection L MONGODB_DATABASE MONGODB_COLLECTION_PROCESS (\<lambda>coll.
       bindP bson_new (\<lambda>_.
       bindP (mongo_find L coll [] []) (\<lambda>(rv, vec).
       bindP bson_destroy (\<lambda>_.
       ret (rv, processes @ parse_all L vec process_info_new)))))"

fun orphans :: "('db, 'j) lib \<Rightarrow> int \<Rightarrow> string list \<Rightarrow> process_info \<Rightarrow> process_info list option" where
  "orphans L pid [] item = Some []"
| "orphans L pid (s # ss) item =
     (let item' = snd (parser L s item) in
      case pi_ppid item' of
        None \<Rightarrow> None
      | Some ppid \<Rightarrow>
          map_option (\<lambda>r. if ppid \<noteq> pid then item' # r else r) (orphans L pid ss item'))"

definition find_orphan_process ::
  "('db, 'j) lib \<Rightarrow> process_info list \<Rightarrow> ('db world, int \<times> process_info list) prog" where
  "find_orphan_process L process_vec =
     with_collection L MONGODB_DATABASE MONGODB_COLLECTION_PROCESS (\<lambda>coll.
       bindP bson_new (\<lambda>_.
       bindP bson_new (\<lambda>_.
       bindP sys_getpid (\<lambda>pid.
       bindP (mongo_find L coll [(''ppid'', Document [(''$ne'', Int32 pid)])] []) (\<lambda>(rv, vec).
       case orphans L pid vec process_info_new of
         None \<Rightarrow> stop_with Undefined
       | Some items \<Rightarrow>
           bindP bson_destroy (\<lambda>_.
           bindP bson_destroy (\<lambda>_.
           ret (rv, process_vec @ items))))))))"

text \<open>
  The four functions that look one document up; the two overloads of \<open>is_process_exist\<close> fill
  the \<open>info\<close> they are given and ignore what \<open>parser\<close> reports.
\<close>

definition lookup_one ::
  "('db, 'j) lib \<Rightarrow> string \<Rightarrow> bson \<Rightarrow> ('db world, int \<times> string) prog" where
  "lookup_one L tb query =
     with_collection L MONGODB_DATABASE tb (\<lambda>coll.
       bindP bson_new (\<lambda>_.
       bindP (mongo_findOne L coll query []) (\<lambda>(rv, item).
       bindP bson_destroy (\<lambda>_.
       ret (rv, item)))))"

definition is_process_exist_pid ::
  "('db, 'j) lib \<Rightarrow> int \<Rightarrow> process_info \<Rightarrow> ('db world, bool \<times> process_info) prog" where
  "is_process_exist_pid L pid info =
     bindP (lookup_one L MONGODB_COLLECTION_PROCESS [(''pid'', Int32 pid)]) (\<lambda>(rv, item).
       if rv = err ERROR_OK then ret (True, snd (parser L item info)) else ret (False, info))"

definition is_process_exist_sid ::
  "('db, 'j) lib \<Rightarrow> string \<Rightarrow> process_info \<Rightarrow> ('db world, bool \<times> process_info) prog" where
  "is_process_exist_sid L sid info =
     bindP (lookup_one L MONGODB_COLLECTION_PROCESS [(''sid'', Utf8 (c_str sid))]) (\<lambda>(rv, item).
       if rv = err ERROR_OK then ret (True, snd (parser L item info)) else ret (False, info))"

definition is_host_exist :: "('db, 'j) lib \<Rightarrow> string \<Rightarrow> ('db world, bool) prog" where
  "is_host_exist L host =
     bindP (lookup_one L MONGODB_COLLECTION_HOSTINFO [(''host'', Utf8 (c_str host))]) (\<lambda>(rv, item).
       ret (rv = err ERROR_OK))"

text \<open>\<open>get_process_info\<close> returns a new object, or \<open>NULL\<close>.\<close>

definition get_process_info :: "('db, 'j) lib \<Rightarrow> string \<Rightarrow> ('db world, process_info option) prog" where
  "get_process_info L sid =
     bindP (lookup_one L MONGODB_COLLECTION_PROCESS [(''sid'', Utf8 (c_str sid))]) (\<lambda>(rv, item).
       if rv = err ERROR_OK then ret (Some (snd (parser L item process_info_new))) else ret None)"

definition remove_one :: "('db, 'j) lib \<Rightarrow> string \<Rightarrow> string \<Rightarrow> bson \<Rightarrow> ('db world, int) prog" where
  "remove_one L db tb query =
     with_collection L db tb (\<lambda>coll.
       bindP bson_new (\<lambda>_.
       bindP (mongo_remove L coll query) (\<lambda>ok.
       bindP bson_destroy (\<lambda>_.
       ret (if ok = 0 then err REC_ERROR_MONGODB else err ERROR_OK)))))"

definition remove_process_by_stream :: "('db, 'j) lib \<Rightarrow> string \<Rightarrow> ('db world, int) prog" where
  "remove_process_by_stream L sid =
     remove_one L MONGODB_DATABASE MONGODB_COLLECTION_PROCESS [(''sid'', Utf8 (c_str sid))]"

definition remove_process_by_id :: "('db, 'j) lib \<Rightarrow> int \<Rightarrow> ('db world, int) prog" where
  "remove_process_by_id L pid =
     (let db = ''rec_distribute''; tb = ''process_info'' in
      remove_one L db tb [(''pid'', Int32 pid)])"

section \<open>The host registry\<close>

definition register_host_to_cache :: "('db, 'j) lib \<Rightarrow> string \<Rightarrow> int \<Rightarrow> ('db world, int) prog" where
  "register_host_to_cache L host port =
     bindP (modP (\<lambda>w. w\<lparr>w_host := host, w_port := port\<rparr>)) (\<lambda>_.
     bindP (getP w_db_address) (\<lambda>addr.
     bindP (connect L addr) (\<lambda>conn.
     if conn = None then ret (err REC_ERROR_MONGODB)
     else
     bindP (collection L conn MONGODB_DATABASE MONGODB_COLLECTION_HOSTINFO) (\<lambda>coll.
     if coll = None then ret (err REC_ERROR_MONGODB)
     else
     bindP bson_new (\<lambda>_.
     bindP (mongo_insert L coll [(''host'', Utf8 (c_str host)), (''port'', Int32 port)]) (\<lambda>ok.
     bindP bson_destroy (\<lambda>_.
     bindP (collection_release coll) (\<lambda>_.
     bindP (connect_close conn) (\<lambda>_.
     ret (if ok = 0 then err REC_ERROR_MONGODB else err ERROR_OK))))))))))"

definition host_register :: "('db, 'j) lib \<Rightarrow> string \<Rightarrow> int \<Rightarrow> ('db world, bool) prog" where
  "host_register L host port =
     bindP (is_host_exist L host) (\<lambda>ex.
     if \<not> ex
     then bindP (register_host_to_cache L host port) (\<lambda>_. ret True)
     else ret False)"

definition set_mongodb :: "string \<Rightarrow> ('db world, unit) prog" where
  "set_mongodb db = modP (\<lambda>w. w\<lparr>w_db_address := c_str db\<rparr>)"

definition remove_host :: "('db, 'j) lib \<Rightarrow> ('db world, int) prog" where
  "remove_host L =
     bindP (getP w_host) (\<lambda>host.
     remove_one L MONGODB_DATABASE MONGODB_COLLECTION_HOSTINFO [(''host'', Utf8 (c_str host))])"

section \<open>The worker pool\<close>

text \<open>\<open>Instance\<close> and \<open>Destroy\<close> of the singleton.\<close>

definition Instance :: "('db world, unit) prog" where
  "Instance = modP (\<lambda>w. if w_instance w then w else w\<lparr>w_instance := True\<rparr>)"

definition Destroy :: "('db world, unit) prog" where
  "Destroy = modP (\<lambda>w. if w_instance w then w\<lparr>w_instance := False\<rparr> else w)"

text \<open>\<open>pthread_create\<close>: the next answer of the system.\<close>

definition pthread_create :: "('db world, int) prog" where
  "pthread_create w =
     (case w_threads w of [] \<Rightarrow> (Returned 0, w) | r # rs \<Rightarrow> (Returned r, w\<lparr>w_threads := rs\<rparr>))"

definition new_context :: "int \<Rightarrow> WorkerContext" where
  "new_context i =
     WorkerContext_new\<lparr>fn_spawn := SpawnProcess, fn_remove := RemoveProcess,
       fn_reload := ProcessReload, fn_terminate := TerminateProcess, wc_queue := [], wc_tid := i\<rparr>"

definition create_one :: "int \<Rightarrow> ('db world, unit) prog" where
  "create_one i =
     bindP pthread_create (\<lambda>rv.
     if rv \<noteq> 0 then stop_with (Exited 1)
     else modP (\<lambda>w. w\<lparr>w_workers := w_workers w @ [new_context i]\<rparr>))"

definition create_worker_thread :: "int \<Rightarrow> ('db world, int) prog" where
  "create_worker_thread worker_num =
     bindP (forP create_one (map int [0..<nat worker_num])) (\<lambda>_. ret (err ERROR_OK))"

text \<open>\<open>init\<close> is declared \<open>bool\<close> and returns \<open>ERROR_OK\<close>, which is \<open>false\<close>.\<close>

definition biz_init :: "int \<Rightarrow> ('db world, bool) prog" where
  "biz_init worker_num =
     bindP (modP (\<lambda>w. w\<lparr>w_chld_ignored := True, w_index := 0, w_max := worker_num\<rparr>)) (\<lambda>_.
     bindP (create_worker_thread worker_num) (\<lambda>_.
     ret (err ERROR_OK \<noteq> 0)))"

definition create_schedule_thread :: "('db world, int) prog" where
  "create_schedule_thread =
     bindP pthread_create (\<lambda>rv. if rv \<noteq> 0 then ret 1 else ret (err ERROR_OK))"

definition queue_push :: "rec_event \<Rightarrow> WorkerContext \<Rightarrow> WorkerContext" where
  "queue_push ev c = c\<lparr>wc_queue := wc_queue c @ [ev]\<rparr>"

text \<open>
  \<open>worker_list[worker_index]\<close> outside the vector and a remainder by zero are undefined; \<open>%\<close>
  truncates towards zero.
\<close>

definition put_data :: "rec_event \<Rightarrow> ('db world, int) prog" where
  "put_data ev w =
     (let i = w_index w in
      if 0 \<le> i \<and> i < int (length (w_workers w)) \<and> w_max w \<noteq> 0
      then (Returned (err ERROR_OK),
            w\<lparr>w_workers := (w_workers w)[nat i := queue_push ev (w_workers w ! nat i)],
              w_index := (i + 1) smod w_max w\<rparr>)
      else (Undefined, w))"

end
