(* ===== verification/ProcessCtl.thy ===== *)
theory ProcessCtl
  imports ServerBiz
begin

text \<open>
  \<open>pull/src/app/processCommonApi.cpp\<close>: starting, restarting and killing the \<open>ffmpeg\<close>
  children. \<open>ffmpeg_child\<close> is the branch of \<open>spawn_process\<close> and \<open>spawn_process_i\<close> the child
  runs; the definitions follow the parent.
\<close>

definition FFMPEG_PARAM_MAX_LEN :: nat where
  "FFMPEG_PARAM_MAX_LEN = 2048"

text \<open>The command line: \<open>snprintf(cmd, FFMPEG_PARAM_MAX_LEN - 1, ...)\<close>.\<close>

definition ffmpeg_text :: "process_info \<Rightarrow> string" where
  "ffmpeg_text param =
     ''ffmpeg -v quiet -i '' @ c_str (pi_src_url param) @ '' -c copy -f flv '' @
     c_str (pi_dest_url param)"

definition ffmpeg_cmd :: "process_info \<Rightarrow> string" where
  "ffmpeg_cmd param = snprintf (FFMPEG_PARAM_MAX_LEN - 1) (ffmpeg_text param)"

text \<open>
  \<open>execl("/bin/sh", "sh", "-c", cmd, 0)\<close> replaces the child; when it fails the child logs the
  failure and runs off the end of a function that must return a value.
\<close>

definition ffmpeg_child :: "process_info \<Rightarrow> 'db world \<Rightarrow> image" where
  "ffmpeg_child param w = (if w_exec_ok w then Shell (ffmpeg_cmd param) else FellThrough)"

definition check_system_process_exist :: "int option \<Rightarrow> ('db world, bool) prog" where
  "check_system_process_exist pid =
     bindP (read_int pid) (\<lambda>p.
     bindP (sys_kill p 0) (\<lambda>rv.
     ret (rv = 0)))"

text \<open>
  The parent's part after the duplicate check of \<open>spawn_process\<close>: \<open>param.pid\<close> is set and the
  stream is cached. The result of \<open>add_process_to_cache\<close> is dropped.
\<close>

definition spawn_fork :: "('db, 'j) lib \<Rightarrow> process_info \<Rightarrow> ('db world, int) prog" where
  "spawn_fork L param =
     bindP (sys_fork (ffmpeg_child param)) (\<lambda>pid.
     if pid < 0 then ret (err REC_ERROR_FORK_FAILED)
     else bindP (add_process_to_cache L (param\<lparr>pi_pid := Some pid\<rparr>)) (\<lambda>_.
          ret (err ERROR_OK)))"

definition spawn_process :: "('db, 'j) lib \<Rightarrow> process_info \<Rightarrow> ('db world, int) prog" where
  "spawn_process L param =
     bindP (is_process_exist_sid L (pi_sid param) process_info_new) (\<lambda>(ex, temp).
     if ex then ret (err ERROR_STREAM_EXIST)
     else spawn_fork L param)"

definition spawn_process_i :: "('db, 'j) lib \<Rightarrow> process_info \<Rightarrow> ('db world, int) prog" where
  "spawn_process_i L param =
     bindP (sys_fork (ffmpeg_child param)) (\<lambda>pid.
     if pid < 0 then ret (err REC_ERROR_FORK_FAILED)
     else bindP (update_process_info L (param\<lparr>pi_pid := Some pid\<rparr>)) (\<lambda>_.
          ret (err ERROR_OK)))"

definition process_reload :: "('db, 'j) lib \<Rightarrow> string \<Rightarrow> ('db world, int) prog" where
  "process_reload L sid =
     bindP (is_process_exist_sid L sid process_info_new) (\<lambda>(ex, info).
     if \<not> ex then ret (err REC_ERROR_STREAM_NOT_EXIST)
     else bindP (spawn_process_i L info) (\<lambda>_.
          ret (err ERROR_OK)))"

definition remove_process :: "('db, 'j) lib \<Rightarrow> process_info \<Rightarrow> ('db world, int) prog" where
  "remove_process L info =
     bindP (get_process_info L (pi_sid info)) (\<lambda>p.
     case p of
       None \<Rightarrow> ret (err REC_ERROR_STREAM_NOT_EXIST)
     | Some p \<Rightarrow>
         bindP (remove_process_by_stream L (pi_sid p)) (\<lambda>_.
         bindP (read_int (pi_pid p)) (\<lambda>pid.
         bindP (sys_kill pid SIGKILL) (\<lambda>_.
         ret (err ERROR_OK)))))"

definition terminate_process :: "process_info \<Rightarrow> ('db world, int) prog" where
  "terminate_process info =
     bindP (read_int (pi_pid info)) (\<lambda>pid.
     bindP (sys_kill pid SIGKILL) (\<lambda>_.
     ret (err ERROR_OK)))"

lemmas process_defs [api_defs] =
  check_system_process_exist_def spawn_fork_def spawn_process_def spawn_process_i_def
  process_reload_def remove_process_def terminate_process_def

end
