(* ===== verification/Workers.thy ===== *)
theory Workers
  imports ProcessCtl
begin

text \<open>
  The two loops of \<open>serverBiz.cpp\<close>: a worker draining its queue (\<open>worker_loop\<close>) and the
  schedule thread that restarts dead streams (\<open>process_alive_detect\<close>). A worker is named by
  its index in \<open>worker_list\<close>.
\<close>

section \<open>A worker\<close>

text \<open>A call through one of the function pointers of a context.\<close>

definition call_info_fn :: "('db, 'j) lib \<Rightarrow> fn_ptr \<Rightarrow> process_info \<Rightarrow> ('db world, int) prog" where
  "call_info_fn L f param =
     (case f of
        SpawnProcess \<Rightarrow> spawn_process L param
      | RemoveProcess \<Rightarrow> remove_process L param
      | TerminateProcess \<Rightarrow> terminate_process param
      | _ \<Rightarrow> stop_with Undefined)"

definition call_sid_fn :: "('db, 'j) lib \<Rightarrow> fn_ptr \<Rightarrow> string \<Rightarrow> ('db world, int) prog" where
  "call_sid_fn L f sid =
     (case f of ProcessReload \<Rightarrow> process_reload L sid | _ \<Rightarrow> stop_with Undefined)"

text \<open>The \<open>switch\<close> of \<open>worker_loop\<close>; the results of the calls are only logged.\<close>

definition worker_switch :: "('db, 'j) lib \<Rightarrow> WorkerContext \<Rightarrow> rec_event \<Rightarrow> ('db world, unit) prog" where
  "worker_switch L ctx ev =
     (case ev_type ev of
        EV_CREATE_PROCESS \<Rightarrow> bindP (call_info_fn L (fn_spawn ctx) (ev_process ev)) (\<lambda>rtn. ret ())
      | EV_REMOVE_PROCESS \<Rightarrow> bindP (call_info_fn L (fn_remove ctx) (ev_process ev)) (\<lambda>rtn. ret ())
      | EV_RELOAD_PROCESS \<Rightarrow> bindP (call_sid_fn L (fn_reload ctx) (pi_sid (ev_process ev))) (\<lambda>rtn. ret ())
      | _ \<Rightarrow> assert_then L False (ret ()))"

definition pop_queue :: "nat \<Rightarrow> ('db world, unit) prog" where
  "pop_queue i =
     modP (\<lambda>w. w\<lparr>w_workers := (w_workers w)
                  [i := (w_workers w ! i)\<lparr>wc_queue := tl (wc_queue (w_workers w ! i))\<rparr>]\<rparr>)"

text \<open>One pass through the inner loop: front, switch, pop. Nothing for an empty queue.\<close>

definition worker_step :: "('db, 'j) lib \<Rightarrow> nat \<Rightarrow> ('db world, unit) prog" where
  "worker_step L i w =
     (let ctx = w_workers w ! i in
      case wc_queue ctx of
        [] \<Rightarrow> (Returned (), w)
      | ev # _ \<Rightarrow> bindP (worker_switch L ctx ev) (\<lambda>_. pop_queue i) w)"

text \<open>
  The inner loop \<open>while(!q->empty())\<close>. No event handler touches a queue, so the events that
  are there when it starts bound its passes: the fuel is the length of the queue.
\<close>

fun worker_drain :: "('db, 'j) lib \<Rightarrow> nat \<Rightarrow> nat \<Rightarrow> ('db world, unit) prog" where
  "worker_drain L i 0 w = (if wc_queue (w_workers w ! i) = [] then (Returned (), w) else (Undefined, w))"
| "worker_drain L i (Suc n) w =
     (if wc_queue (w_workers w ! i) = [] then (Returned (), w)
      else bindP (worker_step L i) (\<lambda>_. worker_drain L i n) w)"

definition worker_round :: "('db, 'j) lib \<Rightarrow> nat \<Rightarrow> ('db world, unit) prog" where
  "worker_round L i w =
     (if i < length (w_workers w) \<and> wc_running (w_workers w ! i)
      then worker_drain L i (length (wc_queue (w_workers w ! i))) w
      else (Returned (), w))"

section \<open>The schedule thread\<close>

definition detect_one :: "('db, 'j) lib \<Rightarrow> process_info \<Rightarrow> ('db world, unit) prog" where
  "detect_one L p =
     bindP (check_system_process_exist (pi_pid p)) (\<lambda>alive.
     if \<not> alive
     then bindP (read_int (pi_pid p)) (\<lambda>pid.
          bindP (is_process_exist_pid L pid process_info_new) (\<lambda>(ex, info).
          if ex then bindP (spawn_process_i L info) (\<lambda>_. ret ()) else ret ()))
     else ret ())"

definition process_alive_detect :: "('db, 'j) lib \<Rightarrow> ('db world, int) prog" where
  "process_alive_detect L =
     bindP (find_all_process L []) (\<lambda>(rv, processes).
     bindP (forP (detect_one L) processes) (\<lambda>_.
     ret rv))"

text \<open>\<open>schedule\<close> never leaves its loop; \<open>schedule_rounds n\<close> is its first \<open>n\<close> rounds.\<close>

fun schedule_rounds :: "('db, 'j) lib \<Rightarrow> nat \<Rightarrow> ('db world, unit) prog" where
  "schedule_rounds L 0 w = (Returned (), w)"
| "schedule_rounds L (Suc n) w =
     bindP (process_alive_detect L) (\<lambda>_. schedule_rounds L n) w"

end
