(* ===== verification/RestApi.thy ===== *)
theory RestApi
  imports Workers
begin

text \<open>
  \<open>pull/src/app/rest_api.cpp\<close>: the five HTTP callbacks. A request is the bytes of its input
  buffer, \<open>None\<close> when \<open>evbuffer_pullup\<close> gives \<open>NULL\<close>; a reply is what is passed to
  \<open>evhttp_send_reply\<close>. The argument of a callback is the \<open>app_data\<close> it was registered with.
\<close>

record http_reply =
  hr_code :: int
  hr_reason :: string
  hr_body :: string

definition HTTP_OK :: int where "HTTP_OK = 200"

section \<open>Replies\<close>

text \<open>
  The pieces every callback appends to \<open>output\<close>, with \<open>tmp\<close> the 256-byte buffer the number
  is printed to, and the reply; \<open>buf\<close> is whether an \<open>evbuffer\<close> was allocated, printing into
  a null one being undefined.
\<close>

definition output_text :: "string \<Rightarrow> string \<Rightarrow> string" where
  "output_text num msg = ''{\"ret\":'' @ num @ '',\"'' @ ''msg\":\"'' @ msg @ ''\"}''"

definition tmp_dec :: "int \<Rightarrow> string" where
  "tmp_dec n = snprintf 256 (int_dec n)"

definition send_reply :: "bool \<Rightarrow> int \<Rightarrow> string \<Rightarrow> string \<Rightarrow> ('w, http_reply) prog" where
  "send_reply buf code reason output =
     (if buf then ret \<lparr>hr_code = code, hr_reason = reason, hr_body = c_str output\<rparr>
      else stop_with Undefined)"

definition reply_exception :: "string \<Rightarrow> ('w, http_reply) prog" where
  "reply_exception what = send_reply True 403 ''%s'' (output_text (tmp_dec 403) (c_str what))"

definition reply_input_no_match :: "int \<Rightarrow> ('w, http_reply) prog" where
  "reply_input_no_match rv =
     send_reply True 400 ''paramter not match'' (output_text (tmp_dec rv) ''input not match'')"

definition reply_ok :: "string \<Rightarrow> ('w, http_reply) prog" where
  "reply_ok msg = send_reply True HTTP_OK ''OK'' (output_text ''0'' msg)"

section \<open>The callbacks\<close>

definition start_i :: "('db, 'j) lib \<Rightarrow> app_data option \<Rightarrow> string option \<Rightarrow> ('db world, http_reply) prog" where
  "start_i L arg body =
     assert_then L (arg \<noteq> None)
       (case body of
          None \<Rightarrow>
            send_reply True 400 ''http body null'' (output_text (tmp_dec 400) ''http post body null'')
        | Some b \<Rightarrow>
            (case l_parse L (c_str b) of
               None \<Rightarrow> reply_input_no_match 0
             | Some root \<Rightarrow>
                 (case json_string L root ''sid'' of
                    Inl what \<Rightarrow> reply_exception what
                  | Inr sid \<Rightarrow>
                      (case json_int L root ''type'' of
                         Inl what \<Rightarrow> reply_exception what
                       | Inr ty \<Rightarrow>
                           bindP (put_data \<lparr>ev_process = process_info_new\<lparr>pi_sid := sid, pi_type := ty\<rparr>,
                                            ev_type = EV_RELOAD_PROCESS\<rparr>) (\<lambda>_.
                           reply_ok ''ok'')))))"

definition stop_i :: "('db, 'j) lib \<Rightarrow> app_data option \<Rightarrow> string option \<Rightarrow> ('db world, http_reply) prog" where
  "stop_i L arg body =
     assert_then L (arg \<noteq> None)
       (case body of
          None \<Rightarrow>
            send_reply True 400 ''http body null'' (output_text (tmp_dec 400) ''http post body null'')
        | Some b \<Rightarrow>
            (case l_parse L (c_str b) of
               None \<Rightarrow> reply_input_no_match 0
             | Some root \<Rightarrow>
                 (case json_int L root ''pid'' of
                    Inl what \<Rightarrow> reply_exception what
                  | Inr pid \<Rightarrow>
                      bindP (put_data \<lparr>ev_process = process_info_new\<lparr>pi_pid := Some pid\<rparr>,
                                       ev_type = EV_TERMINATE_PROCESS\<rparr>) (\<lambda>_.
                      reply_ok ''ok''))))"

text \<open>The end of \<open>start\<close>, once the request has been read into \<open>cmd_param\<close>.\<close>

definition start_enqueue :: "process_info \<Rightarrow> ('db world, http_reply) prog" where
  "start_enqueue cmd_param =
     bindP (put_data \<lparr>ev_process = cmd_param, ev_type = EV_CREATE_PROCESS\<rparr>) (\<lambda>rv.
     if rv = err ERROR_STREAM_EXIST
     then send_reply True 403 ''stream exist'' (output_text (tmp_dec rv) ''stream exist'')
     else reply_ok ''SUCCESS'')"

text \<open>The body of the \<open>try\<close> block of \<open>start\<close>, after the parse.\<close>

definition start_read :: "('db, 'j) lib \<Rightarrow> app_data \<Rightarrow> 'j \<Rightarrow> ('db world, http_reply) prog" where
  "start_read L data root =
     (case json_string L root ''src'' of
        Inl what \<Rightarrow> reply_exception what
      | Inr src \<Rightarrow>
     (case json_string L root ''dest'' of
        Inl what \<Rightarrow> reply_exception what
      | Inr dest \<Rightarrow>
     (case json_string L root ''sid'' of
        Inl what \<Rightarrow> reply_exception what
      | Inr sid \<Rightarrow>
     (case json_int L root ''type'' of
        Inl what \<Rightarrow> reply_exception what
      | Inr ty \<Rightarrow>
          if src = [] then reply_input_no_match 0
          else if dest = [] then reply_input_no_match 0
          else if sid = [] then reply_input_no_match 0
          else if TP_RTMP_2_RTMP \<noteq> ty \<and> TP_RTSP_2_RTMP \<noteq> ty
          then send_reply True 400 ''paramter not match''
                 (output_text (tmp_dec 0) ''translate type unsupport'')
          else start_enqueue
                 (process_info_new\<lparr>pi_src_url := src, pi_dest_url := dest, pi_sid := sid,
                    pi_type := ty, pi_status := ''active'', pi_host := ad_host data\<rparr>)))))"

definition start :: "('db, 'j) lib \<Rightarrow> app_data option \<Rightarrow> string option \<Rightarrow> ('db world, http_reply) prog" where
  "start L arg body =
     assert_then L (arg \<noteq> None)
       (case arg of
          None \<Rightarrow>
            send_reply False 500 ''internal server error''
              (output_text (tmp_dec 500) ''internal server error'')
        | Some data \<Rightarrow>
            (case body of
               None \<Rightarrow>
                 send_reply True 403 ''http body null'' (output_text (tmp_dec 400) ''http post body null'')
             | Some b \<Rightarrow>
                 (case l_parse L (c_str b) of
                    None \<Rightarrow> reply_input_no_match 0
                  | Some root \<Rightarrow> start_read L data root)))"

definition stop :: "('db, 'j) lib \<Rightarrow> app_data option \<Rightarrow> string option \<Rightarrow> ('db world, http_reply) prog" where
  "stop L arg body =
     (case body of
        None \<Rightarrow>
          send_reply True 403 ''http body null'' (output_text (tmp_dec 403) ''http post body null'')
      | Some b \<Rightarrow>
          (case l_parse L (c_str b) of
             None \<Rightarrow> reply_input_no_match 0
           | Some root \<Rightarrow>
               (case json_string L root ''sid'' of
                  Inl what \<Rightarrow> reply_exception what
                | Inr sid \<Rightarrow>
                    if sid = [] then reply_input_no_match 0
                    else bindP (put_data \<lparr>ev_process = process_info_new\<lparr>pi_sid := sid\<rparr>,
                                          ev_type = EV_REMOVE_PROCESS\<rparr>) (\<lambda>_.
                         reply_ok ''SUCCESS''))))"

text \<open>\<open>check_alive_i\<close> prints into the null pointer its \<open>buffer\<close> is initialised with.\<close>

definition check_alive_i :: "app_data option \<Rightarrow> string option \<Rightarrow> ('db world, http_reply) prog" where
  "check_alive_i arg body = send_reply False HTTP_OK ''OK'' (output_text ''0'' ''alive'')"

section \<open>Dispatch\<close>

text \<open>The callback \<open>run\<close> registers for a path; \<open>None\<close> is the server's own 404 reply.\<close>

definition route :: "('db, 'j) lib \<Rightarrow> string \<Rightarrow>
    (app_data option \<Rightarrow> string option \<Rightarrow> ('db world, http_reply) prog) option" where
  "route L path =
     (if path = ''/pull/inject/start'' then Some (start L)
      else if path = ''/pull/inject/stop'' then Some (stop L)
      else if path = ''/pull/inject/i/start'' then Some (start_i L)
      else if path = ''/pull/inject/i/stop'' then Some (stop_i L)
      else if path = ''/health/live'' then Some check_alive_i
      else None)"

end
