(* ===== verification/MongoLaws.thy ===== *)
theory MongoLaws
  imports ServerBiz
begin

text \<open>
  The documented behaviour of the database driver and of the JSON library the theorems about
  the stream cache rest on, as hypotheses on the record \<open>lib\<close>, and a concrete library of
  lists that satisfies them, on which the theorems are exercised. \<open>docs d c\<close> is the
  multiset of documents the server holds in collection \<open>c\<close>.
\<close>

section \<open>Hypotheses\<close>

fun scalar :: "bson_value \<Rightarrow> bool" where
  "scalar (Document _) = False"
| "scalar _ = True"

definition has_field :: "string \<Rightarrow> bson_value \<Rightarrow> bson \<Rightarrow> bool" where
  "has_field k v x \<longleftrightarrow> map_of x k = Some v"

text \<open>The server adds an \<open>_id\<close> to a document that has none and keeps every other field.\<close>

definition same_fields :: "bson \<Rightarrow> bson \<Rightarrow> bool" where
  "same_fields x y \<longleftrightarrow> (\<forall>k. k \<noteq> ''_id'' \<longrightarrow> map_of y k = map_of x k)"

definition find_law :: "('db, 'j) lib \<Rightarrow> ('db \<Rightarrow> coll \<Rightarrow> bson multiset) \<Rightarrow> bool" where
  "find_law L docs \<longleftrightarrow>
     (\<forall>c d. mset (l_find L c [] d) = docs d c) \<and>
     (\<forall>c d k v. scalar v \<longrightarrow> mset (l_find L c [(k, v)] d) = filter_mset (has_field k v) (docs d c))"

definition insert_law :: "('db, 'j) lib \<Rightarrow> ('db \<Rightarrow> coll \<Rightarrow> bson multiset) \<Rightarrow> bool" where
  "insert_law L docs \<longleftrightarrow>
     (\<forall>c x d ok d'. l_insert L c x d = (ok, d') \<longrightarrow>
        (if ok then \<exists>y. same_fields x y \<and> docs d' = (docs d)(c := add_mset y (docs d c))
         else docs d' = docs d))"

text \<open>An update without flags changes one matching document; so does a single remove.\<close>

definition update_law :: "('db, 'j) lib \<Rightarrow> ('db \<Rightarrow> coll \<Rightarrow> bson multiset) \<Rightarrow> bool" where
  "update_law L docs \<longleftrightarrow>
     (\<forall>c k v f u d ok d'. scalar v \<longrightarrow>
        l_update L c [(k, v)] [(''$set'', Document [(f, u)])] d = (ok, d') \<longrightarrow>
        docs d' = docs d \<and> (ok \<longrightarrow> filter_mset (has_field k v) (docs d c) = {#}) \<or>
        ok \<and> (\<exists>x y. x \<in># docs d c \<and> has_field k v x \<and> map_of y = (map_of x)(f \<mapsto> u) \<and>
                docs d' = (docs d)(c := add_mset y (docs d c - {#x#}))))"

definition remove_law :: "('db, 'j) lib \<Rightarrow> ('db \<Rightarrow> coll \<Rightarrow> bson multiset) \<Rightarrow> bool" where
  "remove_law L docs \<longleftrightarrow>
     (\<forall>c k v d ok d'. scalar v \<longrightarrow> l_remove L c [(k, v)] d = (ok, d') \<longrightarrow>
        docs d' = docs d \<and> (ok \<longrightarrow> filter_mset (has_field k v) (docs d c) = {#}) \<or>
        ok \<and> (\<exists>x. x \<in># docs d c \<and> has_field k v x \<and> docs d' = (docs d)(c := docs d c - {#x#})))"

text \<open>Reading back the JSON text of a document gives its string and integer fields.\<close>

definition json_law :: "('db, 'j) lib \<Rightarrow> bool" where
  "json_law L \<longleftrightarrow>
     (\<forall>x s. l_as_json L x = Some s \<longrightarrow>
        (\<exists>j. l_parse L (c_str s) = Some j \<and>
             (\<forall>k v. map_of x k = Some (Utf8 v) \<longrightarrow> json_string L j k = Inr v) \<and>
             (\<forall>k n. map_of x k = Some (Int32 n) \<longrightarrow> json_int L j k = Inr n)))"

text \<open>Every document the server holds has a JSON text.\<close>

definition text_law :: "('db, 'j) lib \<Rightarrow> ('db \<Rightarrow> coll \<Rightarrow> bson multiset) \<Rightarrow> bool" where
  "text_law L docs \<longleftrightarrow> (\<forall>d c x. x \<in># docs d c \<longrightarrow> l_as_json L x \<noteq> None)"

definition lib_laws :: "('db, 'j) lib \<Rightarrow> ('db \<Rightarrow> coll \<Rightarrow> bson multiset) \<Rightarrow> bool" where
  "lib_laws L docs \<longleftrightarrow>
     find_law L docs \<and> insert_law L docs \<and> update_law L docs \<and> remove_law L docs \<and>
     json_law L \<and> text_law L docs"

section \<open>A library of lists\<close>

text \<open>
  The database is the list of all documents with their collections; the text of a document
  spells it with a mark before every byte of a string, and parsing gives the document back.
\<close>

type_synonym mem_db = "(coll \<times> bson) list"

fun mem_match :: "bson \<Rightarrow> bson \<Rightarrow> bool" where
  "mem_match [] x = True"
| "mem_match ((k, Document [(oper, u)]) # q) x = (map_of x k \<noteq> Some u \<and> oper = ''$ne'' \<and> mem_match q x)"
| "mem_match ((k, v) # q) x = (has_field k v x \<and> mem_match q x)"

definition mem_hit :: "coll \<Rightarrow> bson \<Rightarrow> coll \<times> bson \<Rightarrow> bool" where
  "mem_hit c q e \<longleftrightarrow> fst e = c \<and> mem_match q (snd e)"

fun mem_set :: "bson \<Rightarrow> bson \<Rightarrow> bson" where
  "mem_set [(oper, Document [(f, u)])] x = (f, u) # filter (\<lambda>e. fst e \<noteq> f) x"
| "mem_set _ x = x"

fun mem_first :: "(coll \<times> bson \<Rightarrow> bool) \<Rightarrow> (coll \<times> bson \<Rightarrow> mem_db) \<Rightarrow> mem_db \<Rightarrow> mem_db" where
  "mem_first P f [] = []"
| "mem_first P f (e # d) = (if P e then f e @ d else e # mem_first P f d)"

fun enc_str :: "string \<Rightarrow> string" where
  "enc_str [] = '';''"
| "enc_str (c # s) = (if c = NUL then ''00'' else [CHR ''.'', c]) @ enc_str s"

fun enc_val :: "bson_value \<Rightarrow> string" where
  "enc_val (Utf8 s) = CHR ''u'' # enc_str s"
| "enc_val (Int32 n) = CHR ''i'' # enc_str (int_dec n)"
| "enc_val (Document _) = ''d''"

fun enc_doc :: "bson \<Rightarrow> string" where
  "enc_doc [] = []"
| "enc_doc ((k, v) # x) = enc_str k @ enc_val v @ enc_doc x"

fun dec_str :: "string \<Rightarrow> string \<times> string" where
  "dec_str (m # c # s) =
     (if m = CHR ''.'' then (let (t, r) = dec_str s in (c # t, r))
      else if m = CHR ''0'' then (let (t, r) = dec_str s in (NUL # t, r))
      else ([], c # s))"
| "dec_str [m] = ([], [])"
| "dec_str [] = ([], [])"

fun dec_val :: "string \<Rightarrow> bson_value \<times> string" where
  "dec_val [] = (Document [], [])"
| "dec_val (m # s) =
     (if m = CHR ''u'' then (let (t, r) = dec_str s in (Utf8 t, r))
      else if m = CHR ''i'' then (let (t, r) = dec_str s in (Int32 (atoi_value t), r))
      else (Document [], s))"

fun dec_doc :: "nat \<Rightarrow> string \<Rightarrow> bson" where
  "dec_doc 0 s = []"
| "dec_doc (Suc n) s =
     (if s = [] then []
      else (let (k, r) = dec_str s; (v, r') = dec_val r in (k, v) # dec_doc n r'))"

definition mem_as_json :: "bson \<Rightarrow> string option" where
  "mem_as_json x = Some (CHR ''{'' # enc_doc x)"

definition mem_parse :: "string \<Rightarrow> bson_value option" where
  "mem_parse s =
     (case s of
        [] \<Rightarrow> None
      | c # t \<Rightarrow> if c = CHR ''{'' then Some (Document (dec_doc (length t) t)) else None)"

definition mem_member :: "bson_value \<Rightarrow> string \<Rightarrow> string + bson_value" where
  "mem_member j k =
     (case j of
        Document x \<Rightarrow> (case map_of x k of None \<Rightarrow> Inr (Document []) | Some v \<Rightarrow> Inr v)
      | _ \<Rightarrow> Inl ''not an object'')"

definition mem_as_string :: "bson_value \<Rightarrow> string + string" where
  "mem_as_string j =
     (case j of
        Utf8 s \<Rightarrow> Inr s
      | Int32 n \<Rightarrow> Inr (int_dec n)
      | Document x \<Rightarrow> if x = [] then Inr [] else Inl ''not a string'')"

definition mem_as_int :: "bson_value \<Rightarrow> string + int" where
  "mem_as_int j =
     (case j of
        Int32 n \<Rightarrow> Inr n
      | Utf8 s \<Rightarrow> Inl ''not an int''
      | Document x \<Rightarrow> if x = [] then Inr 0 else Inl ''not an int'')"

definition mem_lib :: "(mem_db, bson_value) lib" where
  "mem_lib =
     \<lparr>l_asserts = True,
      l_client_new = (\<lambda>a. take 10 a = ''mongodb://''),
      l_get_collection = (\<lambda>c. True),
      l_insert = (\<lambda>c x d. (True, d @ [(c, x)])),
      l_update = (\<lambda>c q u d. (True, mem_first (mem_hit c q) (\<lambda>e. [(fst e, mem_set u (snd e))]) d)),
      l_find = (\<lambda>c q d. map snd (filter (mem_hit c q) d)),
      l_remove = (\<lambda>c q d. (True, mem_first (mem_hit c q) (\<lambda>e. []) d)),
      l_as_json = mem_as_json,
      l_parse = mem_parse,
      l_member = mem_member,
      l_as_string = mem_as_string,
      l_as_int = mem_as_int\<rparr>"

definition mem_docs :: "mem_db \<Rightarrow> coll \<Rightarrow> bson multiset" where
  "mem_docs d c = mset (map snd (filter (\<lambda>e. fst e = c) d))"

section \<open>The library of lists satisfies the hypotheses\<close>

lemma mem_match_one: "scalar v \<Longrightarrow> mem_match [(k, v)] x = has_field k v x"
  by (cases v) simp_all

lemma dec_enc_str: "dec_str (enc_str s @ r) = (s, r)"
proof (induction s)
  case Nil
  then show ?case by (cases r) simp_all
next
  case (Cons c s)
  then show ?case by simp
qed

text \<open>A nested document comes back empty; everything else as it was.\<close>

fun flat_val :: "bson_value \<Rightarrow> bson_value" where
  "flat_val (Document _) = Document []"
| "flat_val v = v"

lemma dec_enc_val: "dec_val (enc_val v @ r) = (flat_val v, r)"
  using atoi_value_int_dec[of "[]"] by (cases v) (simp_all add: dec_enc_str)

lemma enc_str_not_Nil: "enc_str s \<noteq> []"
  by (cases s) simp_all

lemma dec_enc_doc:
  "length (enc_doc x) \<le> n \<Longrightarrow> dec_doc n (enc_doc x) = map (\<lambda>(k, v). (k, flat_val v)) x"
proof (induction x arbitrary: n)
  case Nil
  then show ?case by (cases n) simp_all
next
  case (Cons kv x)
  obtain k v where kv: "kv = (k, v)" by fastforce
  have "1 \<le> length (enc_str k)" using enc_str_not_Nil[of k] by (cases "enc_str k") simp_all
  with Cons.prems kv have "length (enc_doc x) < n" by simp
  then obtain m where n: "n = Suc m" "length (enc_doc x) \<le> m" by (cases n) auto
  have ne: "enc_str k @ enc_val v @ enc_doc x \<noteq> []" using enc_str_not_Nil by simp
  show ?case
    using Cons.IH[OF n(2)] ne by (simp add: n(1) kv dec_enc_str dec_enc_val)
qed

lemma map_of_flat: "map_of (map (\<lambda>(k, v). (k, flat_val v)) x) k = map_option flat_val (map_of x k)"
  by (induction x) auto

lemma nul_enc_str: "NUL \<notin> set (enc_str s)"
  by (induction s) (auto simp: NUL_def)

lemma nul_int_dec: "NUL \<notin> set (int_dec n)"
  using nat_dec_digits[of NUL] by (auto simp: int_dec_def is_digit_def NUL_def)

lemma nul_enc_doc: "NUL \<notin> set (enc_doc x)"
proof (induction x rule: enc_doc.induct)
  case (2 k v x)
  have "NUL \<notin> set (enc_val v)"
    using nul_enc_str by (cases v) (auto simp: NUL_def)
  with 2 show ?case using nul_enc_str by simp
qed simp

lemma c_str_enc: "c_str (CHR ''{'' # enc_doc x) = CHR ''{'' # enc_doc x"
  using nul_enc_doc by (intro c_str_id) (auto simp: NUL_def)

lemma mem_json_law: "json_law mem_lib"
  unfolding json_law_def
proof (intro allI impI)
  fix x s
  assume "l_as_json mem_lib x = Some s"
  then have s: "s = CHR ''{'' # enc_doc x"
    by (simp add: mem_lib_def mem_as_json_def)
  let ?j = "Document (map (\<lambda>(k, v). (k, flat_val v)) x)"
  have "l_parse mem_lib (c_str s) = Some ?j"
    using dec_enc_doc[of x "length (enc_doc x)"] s
    by (simp add: c_str_enc mem_lib_def mem_parse_def)
  then show "\<exists>j. l_parse mem_lib (c_str s) = Some j \<and>
      (\<forall>k v. map_of x k = Some (Utf8 v) \<longrightarrow> json_string mem_lib j k = Inr v) \<and>
      (\<forall>k n. map_of x k = Some (Int32 n) \<longrightarrow> json_int mem_lib j k = Inr n)"
    by (simp add: json_string_def json_int_def mem_lib_def mem_member_def mem_as_string_def
        mem_as_int_def map_of_flat)
qed

lemma mem_docs_simps [simp]:
  "mem_docs [] c = {#}"
  "mem_docs (e # d) c = (if fst e = c then add_mset (snd e) (mem_docs d c) else mem_docs d c)"
  "mem_docs (d @ d') c = mem_docs d c + mem_docs d' c"
  by (simp_all add: mem_docs_def)

lemma mem_find_law: "find_law mem_lib mem_docs"
proof -
  have "filter (mem_hit c []) d = filter (\<lambda>e. fst e = c) d" for c and d :: mem_db
    by (rule filter_cong) (simp_all add: mem_hit_def)
  moreover have "mset (map snd (filter (mem_hit c [(k, v)]) d)) =
      filter_mset (has_field k v) (mem_docs d c)" if "scalar v" for c k v and d :: mem_db
    by (induction d) (simp_all add: mem_hit_def mem_match_one[OF that])
  ultimately show ?thesis by (simp add: find_law_def mem_lib_def mem_docs_def)
qed

lemma mem_insert_law: "insert_law mem_lib mem_docs"
  by (auto simp: insert_law_def mem_lib_def same_fields_def fun_eq_iff)

text \<open>
  What replacing the first hit does to the documents: nothing without a hit, and otherwise
  it exchanges one matching document of the collection.
\<close>

lemma mem_first_docs:
  assumes "scalar v"
  shows "filter_mset (has_field k v) (mem_docs d c) = {#} \<and> mem_first (mem_hit c [(k, v)]) f d = d \<or>
         (\<exists>x. x \<in># mem_docs d c \<and> has_field k v x \<and>
              (\<forall>c'. mem_docs (mem_first (mem_hit c [(k, v)]) f d) c' =
                    mem_docs (f (c, x)) c' + (mem_docs d c' - (if c' = c then {#x#} else {#}))))"
proof (induction d)
  case Nil
  then show ?case by simp
next
  case (Cons e d)
  show ?case
  proof (cases "mem_hit c [(k, v)] e")
    case True
    then have "fst e = c" "has_field k v (snd e)" by (simp_all add: mem_hit_def mem_match_one[OF assms])
    with True show ?thesis by (intro disjI2 exI[of _ "snd e"]) auto
  next
    case False
    then have nh: "\<not> (fst e = c \<and> has_field k v (snd e))"
      by (simp add: mem_hit_def mem_match_one[OF assms])
    from Cons show ?thesis
    proof
      assume "filter_mset (has_field k v) (mem_docs d c) = {#} \<and> mem_first (mem_hit c [(k, v)]) f d = d"
      with False nh show ?thesis by auto
    next
      assume "\<exists>x. x \<in># mem_docs d c \<and> has_field k v x \<and>
              (\<forall>c'. mem_docs (mem_first (mem_hit c [(k, v)]) f d) c' =
                    mem_docs (f (c, x)) c' + (mem_docs d c' - (if c' = c then {#x#} else {#})))"
      then obtain x where x: "x \<in># mem_docs d c" "has_field k v x"
        and d: "\<And>c'. mem_docs (mem_first (mem_hit c [(k, v)]) f d) c' =
                    mem_docs (f (c, x)) c' + (mem_docs d c' - (if c' = c then {#x#} else {#}))"
        by blast
      obtain M where M: "mem_docs d c = add_mset x M" using x(1) by (blast dest: multi_member_split)
      have "mem_docs (mem_first (mem_hit c [(k, v)]) f (e # d)) c' =
          mem_docs (f (c, x)) c' + (mem_docs (e # d) c' - (if c' = c then {#x#} else {#}))" for c'
        using False d[of c'] M by (cases "c' = c") simp_all
      moreover have "x \<in># mem_docs (e # d) c" using x(1) by simp
      ultimately show ?thesis using x(2) by blast
    qed
  qed
qed

lemma map_of_mem_set: "map_of (mem_set [(oper, Document [(f, u)])] x) = (map_of x)(f \<mapsto> u)"
proof -
  have "map_of (filter (\<lambda>e. fst e \<noteq> f) x) k = (if k = f then None else map_of x k)" for k
    by (induction x) auto
  then show ?thesis by (auto simp: fun_eq_iff)
qed

lemma mem_update_law: "update_law mem_lib mem_docs"
  unfolding update_law_def
proof (intro allI impI)
  fix c k v f u d ok d'
  assume v: "scalar v"
    and l: "l_update mem_lib c [(k, v)] [(''$set'', Document [(f, u)])] d = (ok, d')"
  let ?f = "\<lambda>e. [(fst e, mem_set [(''$set'', Document [(f, u)])] (snd e))] :: mem_db"
  have l: "ok" "d' = mem_first (mem_hit c [(k, v)]) ?f d" using l by (simp_all add: mem_lib_def)
  from mem_first_docs[OF v, of k d c ?f]
  show "mem_docs d' = mem_docs d \<and> (ok \<longrightarrow> filter_mset (has_field k v) (mem_docs d c) = {#}) \<or>
        ok \<and> (\<exists>x y. x \<in># mem_docs d c \<and> has_field k v x \<and> map_of y = (map_of x)(f \<mapsto> u) \<and>
                mem_docs d' = (mem_docs d)(c := add_mset y (mem_docs d c - {#x#})))"
  proof
    assume "\<exists>x. x \<in># mem_docs d c \<and> has_field k v x \<and>
              (\<forall>c'. mem_docs (mem_first (mem_hit c [(k, v)]) ?f d) c' =
                    mem_docs (?f (c, x)) c' + (mem_docs d c' - (if c' = c then {#x#} else {#})))"
    then obtain x where x: "x \<in># mem_docs d c" "has_field k v x"
      and d: "\<And>c'. mem_docs d' c' = mem_docs (?f (c, x)) c' + (mem_docs d c' - (if c' = c then {#x#} else {#}))"
      unfolding l(2) by blast
    have "mem_docs d' =
        (mem_docs d)(c := add_mset (mem_set [(''$set'', Document [(f, u)])] x) (mem_docs d c - {#x#}))"
      by (auto simp: fun_eq_iff d)
    with x l(1) map_of_mem_set show ?thesis by blast
  qed (use l in simp)
qed

lemma mem_remove_law: "remove_law mem_lib mem_docs"
  unfolding remove_law_def
proof (intro allI impI)
  fix c k v d ok d'
  assume v: "scalar v" and l: "l_remove mem_lib c [(k, v)] d = (ok, d')"
  let ?f = "\<lambda>e :: coll \<times> bson. [] :: mem_db"
  have l: "ok" "d' = mem_first (mem_hit c [(k, v)]) ?f d" using l by (simp_all add: mem_lib_def)
  from mem_first_docs[OF v, of k d c ?f]
  show "mem_docs d' = mem_docs d \<and> (ok \<longrightarrow> filter_mset (has_field k v) (mem_docs d c) = {#}) \<or>
        ok \<and> (\<exists>x. x \<in># mem_docs d c \<and> has_field k v x \<and>
                mem_docs d' = (mem_docs d)(c := mem_docs d c - {#x#}))"
  proof
    assume "\<exists>x. x \<in># mem_docs d c \<and> has_field k v x \<and>
              (\<forall>c'. mem_docs (mem_first (mem_hit c [(k, v)]) ?f d) c' =
                    mem_docs (?f (c, x)) c' + (mem_docs d c' - (if c' = c then {#x#} else {#})))"
    then obtain x where x: "x \<in># mem_docs d c" "has_field k v x"
      and d: "\<And>c'. mem_docs d' c' = mem_docs d c' - (if c' = c then {#x#} else {#})"
      unfolding l(2) by auto
    have "mem_docs d' = (mem_docs d)(c := mem_docs d c - {#x#})"
      by (auto simp: fun_eq_iff d)
    with x l(1) show ?thesis by blast
  qed (use l in simp)
qed

lemma mem_text_law: "text_law mem_lib mem_docs"
  by (simp add: text_law_def mem_lib_def mem_as_json_def)

lemma mem_lib_laws: "lib_laws mem_lib mem_docs"
  by (simp add: lib_laws_def mem_find_law mem_insert_law mem_update_law mem_remove_law mem_json_law
      mem_text_law)

section \<open>A server on the library of lists\<close>

text \<open>
  A freshly initialised server of \<open>n\<close> workers on a given database, process 10 of group 10 on
  the host \<open>a\<close>, whose coming forks answer 101, 102 and 103.
\<close>

definition mem_world :: "nat \<Rightarrow> mem_db \<Rightarrow> mem_db world" where
  "mem_world n d =
     \<lparr>w_db = d, w_clients = 0, w_colls = 0, w_cursors = 0, w_bsons = 0,
      w_procs = [], w_forks = [101, 102, 103], w_threads = [], w_exec_ok = True,
      w_self = 10, w_pgid = 10, w_chld_ignored = True, w_instance = True,
      w_db_address = ''mongodb://a'', w_host = ''a'', w_port = 80,
      w_workers = map (\<lambda>i. new_context (int i)) [0..<n], w_index = 0, w_max = int n\<rparr>"

text \<open>A request whose body is a document.\<close>

definition mem_body :: "bson \<Rightarrow> string" where
  "mem_body x = CHR ''{'' # enc_doc x"

end
