(* ===== verification/Streams.thy ===== *)
theory Streams
  imports RestApi MongoLaws
begin

text \<open>
  The stream cache and the process operations against what they promise: an abstract table
  from stream ids to pids, the uniqueness of stream ids, and which parts of the state each
  operation leaves alone.
\<close>

section \<open>The operations when the database is reachable\<close>

definition cache_coll :: "'db world \<Rightarrow> coll" where
  "cache_coll w = (c_str (w_db_address w), MONGODB_DATABASE, MONGODB_COLLECTION_PROCESS)"

definition host_coll :: "'db world \<Rightarrow> coll" where
  "host_coll w = (c_str (w_db_address w), MONGODB_DATABASE, MONGODB_COLLECTION_HOSTINFO)"

definition cache_up :: "('db, 'j) lib \<Rightarrow> 'db world \<Rightarrow> bool" where
  "cache_up L w \<longleftrightarrow> db_up L (w_db_address w) MONGODB_DATABASE MONGODB_COLLECTION_PROCESS"

definition hosts_up :: "('db, 'j) lib \<Rightarrow> 'db world \<Rightarrow> bool" where
  "hosts_up L w \<longleftrightarrow> db_up L (w_db_address w) MONGODB_DATABASE MONGODB_COLLECTION_HOSTINFO"

lemma c_str_names [simp]:
  "c_str MONGODB_DATABASE = MONGODB_DATABASE"
  "c_str MONGODB_COLLECTION_PROCESS = MONGODB_COLLECTION_PROCESS"
  "c_str MONGODB_COLLECTION_HOSTINFO = MONGODB_COLLECTION_HOSTINFO"
  by (rule c_str_id; simp add: MONGODB_DATABASE_def MONGODB_COLLECTION_PROCESS_def
      MONGODB_COLLECTION_HOSTINFO_def NUL_def)+

lemma with_collection_up:
  assumes "db_up L (w_db_address w) db tb"
    and "body (Some (c_str (w_db_address w), c_str db, c_str tb))
           (w\<lparr>w_clients := w_clients w + 1, w_colls := w_colls w + 1\<rparr>) = (Returned x, w')"
  shows "with_collection L db tb body w =
           (Returned x, w'\<lparr>w_colls := w_colls w' - 1, w_clients := w_clients w' - 1\<rparr>)"
proof -
  let ?w1 = "w\<lparr>w_clients := w_clients w + 1\<rparr>"
  have a: "connect L (w_db_address w) w = (Returned (Some (c_str (w_db_address w))), ?w1)"
    using assms(1) by (rule connect_up)
  have "collection L (Some (c_str (w_db_address w))) db tb ?w1 =
      (Returned (Some (c_str (w_db_address w), c_str db, c_str tb)), ?w1\<lparr>w_colls := w_colls ?w1 + 1\<rparr>)"
    using assms(1) by (rule collection_up)
  then have b: "collection L (Some (c_str (w_db_address w))) db tb ?w1 =
      (Returned (Some (c_str (w_db_address w), c_str db, c_str tb)),
       w\<lparr>w_clients := w_clients w + 1, w_colls := w_colls w + 1\<rparr>)" by simp
  show ?thesis
    by (simp add: with_collection_def bindP_Returned[where m = "connect L _", OF a]
        bindP_Returned[where m = "collection L _ _ _", OF b]
        bindP_Returned[where m = "body _", OF assms(2)]
        collection_release_def connect_close_def ret_def)
qed

text \<open>Looking a document up reads the database and costs a cursor.\<close>

lemma lookup_one_up:
  assumes "db_up L (w_db_address w) MONGODB_DATABASE tb"
    and "\<forall>doc\<in>set (l_find L (c_str (w_db_address w), MONGODB_DATABASE, c_str tb) q (w_db w)).
           l_as_json L doc \<noteq> None"
  shows "lookup_one L tb q w =
     (Returned (case l_find L (c_str (w_db_address w), MONGODB_DATABASE, c_str tb) q (w_db w) of
                  [] \<Rightarrow> (err REC_ERROR_PORCESS_INFO_NONE, [])
                | doc # _ \<Rightarrow> (err ERROR_OK, c_str (the (l_as_json L doc)))),
      w\<lparr>w_cursors := w_cursors w + 1\<rparr>)"
proof -
  let ?docs = "l_find L (c_str (w_db_address w), MONGODB_DATABASE, c_str tb) q (w_db w)"
  have "lookup_one L tb q w = (Returned (case ?docs of
                  [] \<Rightarrow> (err REC_ERROR_PORCESS_INFO_NONE, [])
                | doc # _ \<Rightarrow> (err ERROR_OK, c_str (the (l_as_json L doc)))),
      (w\<lparr>w_clients := w_clients w + 1, w_colls := w_colls w + 1, w_cursors := w_cursors w + 1\<rparr>)
        \<lparr>w_colls := (w_colls w + 1) - 1, w_clients := (w_clients w + 1) - 1\<rparr>)"
    unfolding lookup_one_def
    using assms(2)
    by (subst with_collection_up[OF assms(1), where w' =
          "w\<lparr>w_clients := w_clients w + 1, w_colls := w_colls w + 1, w_cursors := w_cursors w + 1\<rparr>"])
       (auto simp: mongo_findOne_def assert_then_def open_cursor_def bson_new_def
          bson_destroy_def bindP_def modP_def ret_def stop_with_def split: list.splits option.splits)
  then show ?thesis by simp
qed

text \<open>A write: one driver call on the collection, and a BSON balance of \<open>b\<close>.\<close>

lemma add_process_to_cache_up:
  assumes "cache_up L w" "pi_pid info = Some pid"
    and "l_insert L (cache_coll w)
           [(''sid'', Utf8 (c_str (pi_sid info))), (''pid'', Int32 pid), (''ppid'', Int32 (w_self w)),
            (''src_url'', Utf8 (c_str (pi_src_url info))), (''dest_url'', Utf8 (c_str (pi_dest_url info))),
            (''type'', Int32 (pi_type info)), (''status'', Utf8 ''active''),
            (''host'', Utf8 (c_str (pi_host info)))] (w_db w) = (ok, d)"
  shows "add_process_to_cache L info w =
           (Returned (if ok then err ERROR_OK else err REC_ERROR_MONGODB), w\<lparr>w_db := d\<rparr>)"
proof -
  let ?w' = "w\<lparr>w_clients := w_clients w + 1, w_colls := w_colls w + 1, w_db := d\<rparr>"
  have "add_process_to_cache L info w =
     (Returned (if ok then err ERROR_OK else err REC_ERROR_MONGODB),
      ?w'\<lparr>w_colls := w_colls ?w' - 1, w_clients := w_clients ?w' - 1\<rparr>)"
    unfolding add_process_to_cache_def
    using assms(2,3)
    by (intro with_collection_up[OF assms(1)[unfolded cache_up_def]])
       (simp add: cache_coll_def mongo_insert_def assert_then_def driver_call_def bson_new_def
          bson_destroy_def sys_getpid_def read_int_def bindP_def modP_def getP_def ret_def)
  then show ?thesis by simp
qed

lemma update_process_info_up:
  assumes "cache_up L w" "pi_pid param = Some pid"
    and "l_update L (cache_coll w) [(''sid'', Utf8 (c_str (pi_sid param)))]
           [(''$set'', Document [(''pid'', Int32 pid)])] (w_db w) = (ok, d)"
  shows "update_process_info L param w =
           (Returned (if ok then err ERROR_OK else err REC_ERROR_MONGODB),
            w\<lparr>w_db := d, w_bsons := w_bsons w + 1\<rparr>)"
proof -
  let ?w' = "w\<lparr>w_clients := w_clients w + 1, w_colls := w_colls w + 1, w_db := d,
               w_bsons := w_bsons w + 1\<rparr>"
  have "update_process_info L param w =
     (Returned (if ok then err ERROR_OK else err REC_ERROR_MONGODB),
      ?w'\<lparr>w_colls := w_colls ?w' - 1, w_clients := w_clients ?w' - 1\<rparr>)"
    unfolding update_process_info_def
    using assms(2,3)
    by (intro with_collection_up[OF assms(1)[unfolded cache_up_def]])
       (simp add: cache_coll_def mongo_update_def assert_then_def driver_call_def bson_new_def
          bson_destroy_def read_int_def bindP_def modP_def ret_def)
  then show ?thesis by simp
qed

lemma remove_one_up:
  assumes "db_up L (w_db_address w) db tb"
    and "l_remove L (c_str (w_db_address w), c_str db, c_str tb) q (w_db w) = (ok, d)"
  shows "remove_one L db tb q w =
           (Returned (if ok then err ERROR_OK else err REC_ERROR_MONGODB), w\<lparr>w_db := d\<rparr>)"
proof -
  let ?w' = "w\<lparr>w_clients := w_clients w + 1, w_colls := w_colls w + 1, w_db := d\<rparr>"
  have "remove_one L db tb q w =
     (Returned (if ok then err ERROR_OK else err REC_ERROR_MONGODB),
      ?w'\<lparr>w_colls := w_colls ?w' - 1, w_clients := w_clients ?w' - 1\<rparr>)"
    unfolding remove_one_def
    using assms(2)
    by (intro with_collection_up[OF assms(1)])
       (simp add: mongo_remove_def assert_then_def driver_call_def bson_new_def
          bson_destroy_def bindP_def modP_def ret_def)
  then show ?thesis by simp
qed

lemma find_all_process_up:
  assumes "cache_up L w"
    and "\<forall>doc\<in>set (l_find L (cache_coll w) [] (w_db w)). l_as_json L doc \<noteq> None"
  shows "find_all_process L ps w =
     (Returned (0, ps @ parse_all L (map (\<lambda>d. c_str (the (l_as_json L d)))
                  (l_find L (cache_coll w) [] (w_db w))) process_info_new),
      w\<lparr>w_cursors := w_cursors w + 1\<rparr>)"
proof -
  let ?w' = "w\<lparr>w_clients := w_clients w + 1, w_colls := w_colls w + 1, w_cursors := w_cursors w + 1\<rparr>"
  have "find_all_process L ps w =
     (Returned (0, ps @ parse_all L (map (\<lambda>d. c_str (the (l_as_json L d)))
                  (l_find L (cache_coll w) [] (w_db w))) process_info_new),
      ?w'\<lparr>w_colls := w_colls ?w' - 1, w_clients := w_clients ?w' - 1\<rparr>)"
    unfolding find_all_process_def
    using assms(2)
    by (intro with_collection_up[OF assms(1)[unfolded cache_up_def]])
       (simp add: cache_coll_def mongo_find_def assert_then_def open_cursor_def bson_new_def
          bson_destroy_def bindP_def modP_def ret_def find_loop_eq)
  then show ?thesis by simp
qed

section \<open>What a cached document says\<close>

lemma json_law_parser:
  assumes "json_law L" "l_as_json L x = Some s"
    and "map_of x ''sid'' = Some (Utf8 sid)" "map_of x ''pid'' = Some (Int32 pid)"
    and "map_of x ''ppid'' = Some (Int32 ppid)" "map_of x ''src_url'' = Some (Utf8 src)"
    and "map_of x ''dest_url'' = Some (Utf8 dest)" "map_of x ''type'' = Some (Int32 ty)"
    and "map_of x ''status'' = Some (Utf8 st)" "map_of x ''host'' = Some (Utf8 h)"
  shows "parser L (c_str s) info =
     (err ERROR_OK, \<lparr>pi_sid = sid, pi_pid = Some pid, pi_ppid = Some ppid, pi_src_url = src,
                     pi_dest_url = dest, pi_type = ty, pi_status = st, pi_host = h\<rparr>)"
proof -
  obtain j where j: "l_parse L (c_str s) = Some j"
    and str: "\<And>k v. map_of x k = Some (Utf8 v) \<Longrightarrow> json_string L j k = Inr v"
    and int: "\<And>k n. map_of x k = Some (Int32 n) \<Longrightarrow> json_int L j k = Inr n"
    using assms(1,2) unfolding json_law_def by blast
  show ?thesis
    by (simp add: parser_def j parser_fields_def set_str_def set_int_def
        str[OF assms(3)] int[OF assms(4)] int[OF assms(5)] str[OF assms(6)] str[OF assms(7)]
        int[OF assms(8)] str[OF assms(9)] str[OF assms(10)])
qed

text \<open>
  A document as \<open>add_process_to_cache\<close> writes them (its stream id comes from a C string), and
  what its fields say.
\<close>

definition stream_doc :: "bson \<Rightarrow> bool" where
  "stream_doc x \<longleftrightarrow>
     (\<exists>s. map_of x ''sid'' = Some (Utf8 s) \<and> NUL \<notin> set s) \<and> (\<exists>n. map_of x ''pid'' = Some (Int32 n)) \<and>
     (\<exists>n. map_of x ''ppid'' = Some (Int32 n)) \<and> (\<exists>s. map_of x ''src_url'' = Some (Utf8 s)) \<and>
     (\<exists>s. map_of x ''dest_url'' = Some (Utf8 s)) \<and> (\<exists>n. map_of x ''type'' = Some (Int32 n)) \<and>
     (\<exists>s. map_of x ''status'' = Some (Utf8 s)) \<and> (\<exists>s. map_of x ''host'' = Some (Utf8 s))"

definition doc_str :: "bson \<Rightarrow> string \<Rightarrow> string" where
  "doc_str x k = (case map_of x k of Some (Utf8 s) \<Rightarrow> s | _ \<Rightarrow> [])"

definition doc_int :: "bson \<Rightarrow> string \<Rightarrow> int" where
  "doc_int x k = (case map_of x k of Some (Int32 n) \<Rightarrow> n | _ \<Rightarrow> 0)"

definition info_of :: "bson \<Rightarrow> process_info" where
  "info_of x =
     \<lparr>pi_sid = doc_str x ''sid'', pi_pid = Some (doc_int x ''pid''), pi_ppid = Some (doc_int x ''ppid''),
      pi_src_url = doc_str x ''src_url'', pi_dest_url = doc_str x ''dest_url'',
      pi_type = doc_int x ''type'', pi_status = doc_str x ''status'', pi_host = doc_str x ''host''\<rparr>"

lemma parser_info_of:
  "json_law L \<Longrightarrow> stream_doc x \<Longrightarrow> l_as_json L x = Some s \<Longrightarrow>
   parser L (c_str s) info = (err ERROR_OK, info_of x)"
  by (auto simp: stream_doc_def info_of_def doc_str_def doc_int_def
      intro!: json_law_parser[simplified])

lemma parse_all_info_of:
  "json_law L \<Longrightarrow> \<forall>x\<in>set xs. stream_doc x \<and> l_as_json L x \<noteq> None \<Longrightarrow>
   parse_all L (map (\<lambda>x. c_str (the (l_as_json L x))) xs) info = map info_of xs"
proof (induction xs arbitrary: info)
  case (Cons x xs)
  then obtain s where "l_as_json L x = Some s" "stream_doc x" by auto
  with Cons show ?case by (simp add: parser_info_of)
qed simp

lemma has_field_sid: "stream_doc x \<Longrightarrow> has_field ''sid'' (Utf8 s) x \<longleftrightarrow> doc_str x ''sid'' = s"
  by (auto simp: stream_doc_def has_field_def doc_str_def)

lemma has_field_pid: "stream_doc x \<Longrightarrow> has_field ''pid'' (Int32 n) x \<longleftrightarrow> doc_int x ''pid'' = n"
  by (auto simp: stream_doc_def has_field_def doc_int_def)

end
