(* ===== verification/StreamSpec.thy ===== *)
theory StreamSpec
  imports Workers
begin

text \<open>
  What the stream operations promise, without the database driver, the JSON texts or the
  handles: an abstract state of processes and cached streams, and one rule for each way an
  event can end. The invariants of the running system are proved on these rules; \<open>Refinement\<close>
  shows that the code only takes such steps.
\<close>

section \<open>The abstract state\<close>

record stream_state =
  ss_procs :: "proc list"
  ss_forks :: "int list"
  ss_exec :: bool
  ss_self :: int
  ss_pgid :: int
  ss_cache :: "process_info multiset"

definition cached_sids :: "stream_state \<Rightarrow> string multiset" where
  "cached_sids s = image_mset pi_sid (ss_cache s)"

text \<open>A fork: its answer, negative when it failed, and the process it adds.\<close>

definition fork_spec :: "process_info \<Rightarrow> stream_state \<Rightarrow> int \<times> stream_state" where
  "fork_spec p s =
     (case ss_forks s of
        [] \<Rightarrow> (- 1, s)
      | r # rs \<Rightarrow>
          if 0 < r
          then (r, s\<lparr>ss_forks := rs, ss_procs := ss_procs s @
                       [\<lparr>pr_pid = r, pr_pgid = ss_pgid s,
                         pr_image = (if ss_exec s then Shell (ffmpeg_cmd p) else FellThrough)\<rparr>]\<rparr>)
          else (- 1, s\<lparr>ss_forks := rs\<rparr>))"

text \<open>The entry a created stream gets, and the death of a process.\<close>

definition stream_entry :: "process_info \<Rightarrow> int \<Rightarrow> int \<Rightarrow> process_info" where
  "stream_entry p pid self =
     \<lparr>pi_sid = c_str (pi_sid p), pi_pid = Some pid, pi_ppid = Some self,
      pi_src_url = c_str (pi_src_url p), pi_dest_url = c_str (pi_dest_url p), pi_type = pi_type p,
      pi_status = ''active'', pi_host = c_str (pi_host p)\<rparr>"

definition kill_spec :: "int \<Rightarrow> stream_state \<Rightarrow> stream_state" where
  "kill_spec pid s = s\<lparr>ss_procs := filter (\<lambda>p. pr_pid p \<noteq> pid) (ss_procs s)\<rparr>"

section \<open>The steps\<close>

text \<open>
  \<open>stream_step acc ev s rv t\<close>: handling \<open>ev\<close> in \<open>s\<close> returns \<open>rv\<close> and ends in \<open>t\<close>. The rules
  named \<open>lost\<close> are the writes the driver refused, whose result no handler looks at; \<open>acc\<close> says
  that the driver accepts every write, and rules them out.
\<close>

inductive stream_step :: "bool \<Rightarrow> rec_event \<Rightarrow> stream_state \<Rightarrow> int \<Rightarrow> stream_state \<Rightarrow> bool" where
  create_dup:
  "ev_type ev = EV_CREATE_PROCESS \<Longrightarrow> c_str (pi_sid (ev_process ev)) \<in># cached_sids s \<Longrightarrow>
   stream_step acc ev s (err ERROR_STREAM_EXIST) s"
| create_nofork:
  "ev_type ev = EV_CREATE_PROCESS \<Longrightarrow> c_str (pi_sid (ev_process ev)) \<notin># cached_sids s \<Longrightarrow>
   fork_spec (ev_process ev) s = (r, t) \<Longrightarrow> r < 0 \<Longrightarrow>
   stream_step acc ev s (err REC_ERROR_FORK_FAILED) t"
| create_new:
  "ev_type ev = EV_CREATE_PROCESS \<Longrightarrow> c_str (pi_sid (ev_process ev)) \<notin># cached_sids s \<Longrightarrow>
   fork_spec (ev_process ev) s = (r, t) \<Longrightarrow> 0 \<le> r \<Longrightarrow>
   stream_step acc ev s (err ERROR_OK)
     (t\<lparr>ss_cache := add_mset (stream_entry (ev_process ev) r (ss_self s)) (ss_cache s)\<rparr>)"
| create_lost:
  "\<not> acc \<Longrightarrow> ev_type ev = EV_CREATE_PROCESS \<Longrightarrow> c_str (pi_sid (ev_process ev)) \<notin># cached_sids s \<Longrightarrow>
   fork_spec (ev_process ev) s = (r, t) \<Longrightarrow> 0 \<le> r \<Longrightarrow>
   stream_step acc ev s (err ERROR_OK) t"
| reload_none:
  "ev_type ev = EV_RELOAD_PROCESS \<Longrightarrow> c_str (pi_sid (ev_process ev)) \<notin># cached_sids s \<Longrightarrow>
   stream_step acc ev s (err REC_ERROR_STREAM_NOT_EXIST) s"
| reload_nofork:
  "ev_type ev = EV_RELOAD_PROCESS \<Longrightarrow> i \<in># ss_cache s \<Longrightarrow> pi_sid i = c_str (pi_sid (ev_process ev)) \<Longrightarrow>
   fork_spec i s = (r, t) \<Longrightarrow> r < 0 \<Longrightarrow>
   stream_step acc ev s (err ERROR_OK) t"
| reload_new:
  "ev_type ev = EV_RELOAD_PROCESS \<Longrightarrow> i \<in># ss_cache s \<Longrightarrow> pi_sid i = c_str (pi_sid (ev_process ev)) \<Longrightarrow>
   fork_spec i s = (r, t) \<Longrightarrow> 0 \<le> r \<Longrightarrow> old \<in># ss_cache s \<Longrightarrow> pi_sid old = pi_sid i \<Longrightarrow>
   stream_step acc ev s (err ERROR_OK)
     (t\<lparr>ss_cache := add_mset (old\<lparr>pi_pid := Some r\<rparr>) (ss_cache s - {#old#})\<rparr>)"
| reload_lost:
  "\<not> acc \<Longrightarrow> ev_type ev = EV_RELOAD_PROCESS \<Longrightarrow> i \<in># ss_cache s \<Longrightarrow> pi_sid i = c_str (pi_sid (ev_process ev)) \<Longrightarrow>
   fork_spec i s = (r, t) \<Longrightarrow> 0 \<le> r \<Longrightarrow>
   stream_step acc ev s (err ERROR_OK) t"
| remove_none:
  "ev_type ev = EV_REMOVE_PROCESS \<Longrightarrow> c_str (pi_sid (ev_process ev)) \<notin># cached_sids s \<Longrightarrow>
   stream_step acc ev s (err REC_ERROR_STREAM_NOT_EXIST) s"
| remove_one:
  "ev_type ev = EV_REMOVE_PROCESS \<Longrightarrow> i \<in># ss_cache s \<Longrightarrow> pi_sid i = c_str (pi_sid (ev_process ev)) \<Longrightarrow>
   pi_pid i = Some pid \<Longrightarrow> old \<in># ss_cache s \<Longrightarrow> pi_sid old = pi_sid i \<Longrightarrow>
   stream_step acc ev s (err ERROR_OK) (kill_spec pid (s\<lparr>ss_cache := ss_cache s - {#old#}\<rparr>))"
| remove_lost:
  "\<not> acc \<Longrightarrow> ev_type ev = EV_REMOVE_PROCESS \<Longrightarrow> i \<in># ss_cache s \<Longrightarrow> pi_sid i = c_str (pi_sid (ev_process ev)) \<Longrightarrow>
   pi_pid i = Some pid \<Longrightarrow>
   stream_step acc ev s (err ERROR_OK) (kill_spec pid s)"

text \<open>The same relation with the event and the result left open, and a whole queue.\<close>

definition any_step :: "stream_state \<Rightarrow> stream_state \<Rightarrow> bool" where
  "any_step s t \<longleftrightarrow> (\<exists>acc ev rv. stream_step acc ev s rv t)"

inductive stream_run :: "bool \<Rightarrow> rec_event list \<Rightarrow> stream_state \<Rightarrow> stream_state \<Rightarrow> bool" where
  run_done: "stream_run acc [] s s"
| run_event: "stream_step acc ev s rv t \<Longrightarrow> stream_run acc evs t u \<Longrightarrow> stream_run acc (ev # evs) s u"

inductive_cases create_cases: "stream_step acc \<lparr>ev_process = p, ev_type = EV_CREATE_PROCESS\<rparr> s rv t"
inductive_cases reload_cases: "stream_step acc \<lparr>ev_process = p, ev_type = EV_RELOAD_PROCESS\<rparr> s rv t"
inductive_cases remove_cases: "stream_step acc \<lparr>ev_process = p, ev_type = EV_REMOVE_PROCESS\<rparr> s rv t"
inductive_simps stream_run_simps [simp]: "stream_run acc [] s t" "stream_run acc (ev # evs) s t"

lemma stream_run_steps: "stream_run acc evs s t \<Longrightarrow> any_step\<^sup>*\<^sup>* s t"
proof (induction rule: stream_run.induct)
  case (run_event acc ev s rv t evs u)
  then have "any_step s t" by (auto simp: any_step_def)
  with run_event show ?case by (meson converse_rtranclp_into_rtranclp)
qed simp

section \<open>Invariants\<close>

text \<open>At most one cached entry for a stream id, every entry with a pid.\<close>

definition unique_sids :: "stream_state \<Rightarrow> bool" where
  "unique_sids s \<longleftrightarrow> (\<forall>sid. count (cached_sids s) sid \<le> 1)"

lemma fork_spec_sel:
  "fork_spec p s = (r, t) \<Longrightarrow> ss_cache t = ss_cache s \<and> ss_self t = ss_self s \<and> ss_pgid t = ss_pgid s \<and>
     ss_exec t = ss_exec s"
  by (auto simp: fork_spec_def split: list.splits if_splits)

lemma cached_sids_simps [simp]:
  "cached_sids (s\<lparr>ss_cache := M\<rparr>) = image_mset pi_sid M"
  "cached_sids (kill_spec pid s) = cached_sids s"
  by (simp_all add: cached_sids_def kill_spec_def)

text \<open>The ids after a step: unless a stream is created the cache gains none.\<close>

lemma stream_step_sids:
  assumes "stream_step acc ev s rv t"
  shows "cached_sids t \<subseteq># cached_sids s \<or>
         cached_sids t = add_mset (c_str (pi_sid (ev_process ev))) (cached_sids s) \<and>
         c_str (pi_sid (ev_process ev)) \<notin># cached_sids s"
  using assms
proof cases
  case (reload_new i r u old)
  then obtain M where "ss_cache s = add_mset old M" by (blast dest: multi_member_split)
  with reload_new have "cached_sids t = cached_sids s" by (simp add: cached_sids_def)
  then show ?thesis by simp
next
  case (remove_one i pid old)
  then obtain M where "ss_cache s = add_mset old M" by (blast dest: multi_member_split)
  with remove_one have "cached_sids t \<subseteq># cached_sids s" by (simp add: cached_sids_def kill_spec_def)
  then show ?thesis by simp
qed (auto simp: cached_sids_def stream_entry_def kill_spec_def dest!: fork_spec_sel)

lemma unique_sids_step: "unique_sids s \<Longrightarrow> stream_step acc ev s rv t \<Longrightarrow> unique_sids t"
  using stream_step_sids[of acc ev s rv t] unfolding unique_sids_def
  by (auto simp: not_in_iff le_SucI dest: mset_subset_eq_count intro: le_trans)

interpretation stream_sys: guarded_system "\<lambda>s. ss_cache s = {#}" any_step unique_sids
proof
  show "unique_sids s" if "ss_cache s = {#}" for s
    using that by (simp add: unique_sids_def cached_sids_def)
  show "unique_sids t" if "unique_sids s" "any_step s t" for s t
    using that unfolding any_step_def by (blast intro: unique_sids_step)
qed

text \<open>
  The pids the table holds can be signalled without hitting the server, and no child is a
  zombie: what the step rules need of a state besides the uniqueness of ids.
\<close>

definition own_pid :: "int \<Rightarrow> process_info \<Rightarrow> bool" where
  "own_pid self i \<longleftrightarrow> (case pi_pid i of None \<Rightarrow> False | Some n \<Rightarrow> 0 < n \<and> n \<noteq> self)"

definition sound_pids :: "stream_state \<Rightarrow> bool" where
  "sound_pids s \<longleftrightarrow>
     (\<forall>i. i \<in># ss_cache s \<longrightarrow> own_pid (ss_self s) i) \<and>
     ss_self s \<notin> set (ss_forks s) \<and> (\<forall>p\<in>set (ss_procs s). pr_image p \<noteq> Zombie)"

lemma fork_spec_own:
  "fork_spec p s = (r, t) \<Longrightarrow> ss_self s \<notin> set (ss_forks s) \<Longrightarrow> 0 \<le> r \<Longrightarrow> 0 < r \<and> r \<noteq> ss_self s"
  by (auto simp: fork_spec_def split: list.splits if_splits)

lemma fork_spec_sound: "fork_spec p s = (r, t) \<Longrightarrow> sound_pids s \<Longrightarrow> sound_pids t"
  by (auto simp: fork_spec_def sound_pids_def split: list.splits if_splits)

lemma sound_pids_kill: "sound_pids s \<Longrightarrow> sound_pids (kill_spec pid s)"
  by (auto simp: sound_pids_def kill_spec_def)

lemma sound_pids_sub: "sound_pids s \<Longrightarrow> M \<subseteq># ss_cache s \<Longrightarrow> sound_pids (s\<lparr>ss_cache := M\<rparr>)"
  by (auto simp: sound_pids_def dest: mset_subset_eqD)

lemma sound_pids_add:
  "sound_pids s \<Longrightarrow> M \<subseteq># ss_cache s \<Longrightarrow> pi_pid i = Some n \<Longrightarrow> 0 < n \<Longrightarrow> n \<noteq> ss_self s \<Longrightarrow>
   sound_pids (s\<lparr>ss_cache := add_mset i M\<rparr>)"
  by (auto simp: sound_pids_def own_pid_def dest: mset_subset_eqD)

lemma sound_pids_fork_add:
  assumes "fork_spec p s = (r, t)" "0 \<le> r" "sound_pids s" "M \<subseteq># ss_cache s" "pi_pid i = Some r"
  shows "sound_pids (t\<lparr>ss_cache := add_mset i M\<rparr>)"
proof (rule sound_pids_add)
  show "sound_pids t" using assms by (blast intro: fork_spec_sound)
  have "0 < r \<and> r \<noteq> ss_self s"
    using assms(1,2,3) by (intro fork_spec_own) (auto simp: sound_pids_def)
  with fork_spec_sel[OF assms(1)] show "0 < r" "r \<noteq> ss_self t" by auto
  show "M \<subseteq># ss_cache t" using assms(4) fork_spec_sel[OF assms(1)] by simp
qed (rule assms(5))

lemma sound_pids_step: "sound_pids s \<Longrightarrow> stream_step acc ev s rv t \<Longrightarrow> sound_pids t"
proof (erule stream_step.cases, goal_cases)
  case (3 ev' s' r u acc')
  then show ?case by (auto intro!: sound_pids_fork_add simp: stream_entry_def)
next
  case (7 ev' i s' r u old acc')
  then show ?case by (auto intro!: sound_pids_fork_add)
next
  case (10 ev' i s' pid old acc')
  then have "sound_pids (s'\<lparr>ss_cache := ss_cache s' - {#old#}\<rparr>)"
    by (intro sound_pids_sub) auto
  with 10 show ?case by (auto intro: sound_pids_kill)
qed (auto intro: sound_pids_kill sound_pids_sub dest: fork_spec_sound)

end
