(* ===== verification/RestLaws.thy ===== *)
theory RestLaws
  imports RestApi MongoLaws
begin

text \<open>
  The HTTP callbacks and the worker queues they feed: which request becomes which event,
  what a reply tells the client, and how \<open>put_data\<close> deals the events out.
\<close>

section \<open>The queues\<close>

text \<open>The pool after a successful start: as many workers as \<open>max_worker\<close>, the index in range.\<close>

definition pool_ready :: "'db world \<Rightarrow> bool" where
  "pool_ready w \<longleftrightarrow> w_max w = int (length (w_workers w)) \<and> 0 \<le> w_index w \<and> w_index w < w_max w"

text \<open>Appending an event to the queue whose turn it is.\<close>

definition enqueue :: "rec_event \<Rightarrow> 'db world \<Rightarrow> 'db world" where
  "enqueue ev w =
     w\<lparr>w_workers := (w_workers w)[nat (w_index w) := queue_push ev (w_workers w ! nat (w_index w))],
       w_index := (w_index w + 1) mod w_max w\<rparr>"

lemma smod_nonneg: "0 \<le> a \<Longrightarrow> 0 < b \<Longrightarrow> (a::int) smod b = a mod b"
  by (simp add: signed_modulo_int_def sgn_if)

lemma pool_ready_pos: "pool_ready w \<Longrightarrow> 0 < w_max w \<and> w_workers w \<noteq> []"
  by (auto simp: pool_ready_def)

lemma put_data_ready:
  assumes "pool_ready w"
  shows "put_data ev w = (Returned (err ERROR_OK), enqueue ev w)"
  using assms pool_ready_pos[OF assms]
  by (simp add: pool_ready_def put_data_def enqueue_def smod_nonneg Let_def)

lemma pool_ready_enqueue:
  assumes "pool_ready w"
  shows "pool_ready (enqueue ev w)"
  using assms pool_ready_pos[OF assms] by (simp add: pool_ready_def enqueue_def)

lemma enqueue_grows:
  assumes "pool_ready w"
  shows "wc_queue (w_workers (enqueue ev w) ! nat (w_index w)) =
           wc_queue (w_workers w ! nat (w_index w)) @ [ev]"
  using assms by (simp add: pool_ready_def enqueue_def queue_push_def nat_less_iff)

lemma enqueue_neq: "pool_ready w \<Longrightarrow> enqueue ev w \<noteq> w"
  using enqueue_grows[of w ev] by force

lemma enqueue_inject: "pool_ready w \<Longrightarrow> enqueue e w = enqueue f w \<longleftrightarrow> e = f"
  by (metis enqueue_grows last_snoc)

section \<open>Which request is which event\<close>

text \<open>
  The contract of the four queueing callbacks, as a function from the body of a request to
  the event it asks for, if it asks for one.
\<close>

definition str_field :: "('db, 'j) lib \<Rightarrow> 'j \<Rightarrow> string \<Rightarrow> string option" where
  "str_field L j k = (case json_string L j k of Inl _ \<Rightarrow> None | Inr s \<Rightarrow> Some s)"

definition int_field :: "('db, 'j) lib \<Rightarrow> 'j \<Rightarrow> string \<Rightarrow> int option" where
  "int_field L j k = (case json_int L j k of Inl _ \<Rightarrow> None | Inr n \<Rightarrow> Some n)"

definition create_event :: "string \<Rightarrow> string \<Rightarrow> string \<Rightarrow> string \<Rightarrow> int \<Rightarrow> rec_event" where
  "create_event host src dest sid ty =
     \<lparr>ev_process = process_info_new\<lparr>pi_src_url := src, pi_dest_url := dest, pi_sid := sid,
        pi_type := ty, pi_status := ''active'', pi_host := host\<rparr>, ev_type = EV_CREATE_PROCESS\<rparr>"

definition remove_event :: "string \<Rightarrow> rec_event" where
  "remove_event sid = \<lparr>ev_process = process_info_new\<lparr>pi_sid := sid\<rparr>, ev_type = EV_REMOVE_PROCESS\<rparr>"

definition reload_event :: "string \<Rightarrow> int \<Rightarrow> rec_event" where
  "reload_event sid ty =
     \<lparr>ev_process = process_info_new\<lparr>pi_sid := sid, pi_type := ty\<rparr>, ev_type = EV_RELOAD_PROCESS\<rparr>"

definition terminate_event :: "int \<Rightarrow> rec_event" where
  "terminate_event pid =
     \<lparr>ev_process = process_info_new\<lparr>pi_pid := Some pid\<rparr>, ev_type = EV_TERMINATE_PROCESS\<rparr>"

text \<open>\<open>asks L path host b ev\<close>: a body \<open>b\<close> posted to \<open>path\<close> asks for the event \<open>ev\<close>.\<close>

definition asks :: "('db, 'j) lib \<Rightarrow> string \<Rightarrow> string \<Rightarrow> string \<Rightarrow> rec_event \<Rightarrow> bool" where
  "asks L path host b ev \<longleftrightarrow>
     (\<exists>j. l_parse L (c_str b) = Some j \<and>
        (path = ''/pull/inject/start'' \<and>
           (\<exists>src dest sid ty. str_field L j ''src'' = Some src \<and> str_field L j ''dest'' = Some dest \<and>
              str_field L j ''sid'' = Some sid \<and> int_field L j ''type'' = Some ty \<and>
              src \<noteq> [] \<and> dest \<noteq> [] \<and> sid \<noteq> [] \<and> (ty = 0 \<or> ty = 1) \<and>
              ev = create_event host src dest sid ty) \<or>
         path = ''/pull/inject/stop'' \<and>
           (\<exists>sid. str_field L j ''sid'' = Some sid \<and> sid \<noteq> [] \<and> ev = remove_event sid) \<or>
         path = ''/pull/inject/i/start'' \<and>
           (\<exists>sid ty. str_field L j ''sid'' = Some sid \<and> int_field L j ''type'' = Some ty \<and>
              ev = reload_event sid ty) \<or>
         path = ''/pull/inject/i/stop'' \<and>
           (\<exists>pid. int_field L j ''pid'' = Some pid \<and> ev = terminate_event pid)))"

text \<open>What a callback may do: queue one event and answer 200, or answer an error and do nothing.\<close>

definition answers :: "'db world \<Rightarrow> (rec_event \<Rightarrow> bool) \<Rightarrow> http_reply outcome \<times> 'db world \<Rightarrow> bool" where
  "answers w P res \<longleftrightarrow>
     (\<exists>r. fst res = Returned r \<and>
        ((\<exists>ev. P ev \<and> hr_code r = 200 \<and> snd res = enqueue ev w) \<or>
         (\<forall>ev. \<not> P ev) \<and> (hr_code r = 400 \<or> hr_code r = 403) \<and> snd res = w))"

lemma replies [simp]:
  "reply_exception what w = (Returned \<lparr>hr_code = 403, hr_reason = ''%s'',
     hr_body = c_str (output_text (tmp_dec 403) (c_str what))\<rparr>, w)"
  "reply_input_no_match rv w = (Returned \<lparr>hr_code = 400, hr_reason = ''paramter not match'',
     hr_body = c_str (output_text (tmp_dec rv) ''input not match'')\<rparr>, w)"
  "reply_ok msg w = (Returned \<lparr>hr_code = 200, hr_reason = ''OK'',
     hr_body = c_str (output_text ''0'' msg)\<rparr>, w)"
  "send_reply True code reason out w =
     (Returned \<lparr>hr_code = code, hr_reason = reason, hr_body = c_str out\<rparr>, w)"
  by (simp_all add: reply_exception_def reply_input_no_match_def reply_ok_def send_reply_def
      HTTP_OK_def ret_def)

lemma start_enqueue_ready:
  "pool_ready w \<Longrightarrow> start_enqueue p w =
     (Returned \<lparr>hr_code = 200, hr_reason = ''OK'', hr_body = c_str (output_text ''0'' ''SUCCESS'')\<rparr>,
      enqueue \<lparr>ev_process = p, ev_type = EV_CREATE_PROCESS\<rparr> w)"
  by (simp add: start_enqueue_def bindP_Returned[where m = "put_data _", OF put_data_ready]
      del: err.simps)

lemma queued_ok:
  "pool_ready w \<Longrightarrow> bindP (put_data ev) (\<lambda>_. reply_ok msg) w =
     (Returned \<lparr>hr_code = 200, hr_reason = ''OK'', hr_body = c_str (output_text ''0'' msg)\<rparr>, enqueue ev w)"
  by (simp add: bindP_Returned[where m = "put_data _", OF put_data_ready])

lemma start_answers:
  assumes "pool_ready w"
  shows "answers w (\<lambda>ev. \<exists>b. body = Some b \<and> asks L ''/pull/inject/start'' (ad_host data) b ev)
           (start L (Some data) body w)"
  by (auto simp: start_def start_read_def assert_then_def answers_def asks_def str_field_def int_field_def
      start_enqueue_ready[OF assms] create_event_def TP_RTMP_2_RTMP_def TP_RTSP_2_RTMP_def
      split: option.splits sum.splits)

lemma stop_answers:
  assumes "pool_ready w"
  shows "answers w (\<lambda>ev. \<exists>b. body = Some b \<and> asks L ''/pull/inject/stop'' (ad_host data) b ev)
           (stop L (Some data) body w)"
  by (auto simp: stop_def answers_def asks_def str_field_def int_field_def
      queued_ok[OF assms] remove_event_def split: option.splits sum.splits)

lemma start_i_answers:
  assumes "pool_ready w"
  shows "answers w (\<lambda>ev. \<exists>b. body = Some b \<and> asks L ''/pull/inject/i/start'' (ad_host data) b ev)
           (start_i L (Some data) body w)"
  by (auto simp: start_i_def assert_then_def answers_def asks_def str_field_def int_field_def
      queued_ok[OF assms] reload_event_def split: option.splits sum.splits)

lemma stop_i_answers:
  assumes "pool_ready w"
  shows "answers w (\<lambda>ev. \<exists>b. body = Some b \<and> asks L ''/pull/inject/i/stop'' (ad_host data) b ev)
           (stop_i L (Some data) body w)"
  by (auto simp: stop_i_def assert_then_def answers_def asks_def str_field_def int_field_def
      queued_ok[OF assms] terminate_event_def split: option.splits sum.splits)

lemma route_cases:
  assumes "route L path = Some h" "path \<noteq> ''/health/live''"
  obtains "path = ''/pull/inject/start''" "h = start L"
    | "path = ''/pull/inject/stop''" "h = stop L"
    | "path = ''/pull/inject/i/start''" "h = start_i L"
    | "path = ''/pull/inject/i/stop''" "h = stop_i L"
  using assms by (auto simp: route_def split: if_splits)

lemma callback_answers:
  assumes "route L path = Some h" "path \<noteq> ''/health/live''" "pool_ready w"
  shows "answers w (\<lambda>ev. \<exists>b. body = Some b \<and> asks L path (ad_host data) b ev) (h (Some data) body w)"
  using assms(1,2)
  by (rule route_cases) (simp_all add: start_answers stop_answers start_i_answers stop_i_answers assms(3))

section \<open>Properties of the interface\<close>

text \<open>
  C19 (the callbacks keep their contract). Each of the four queueing callbacks, on a server
  whose pool is ready, answers 200 exactly when the body asks for an event; then it has
  appended that event, and nothing else, to the queue whose turn it is. Otherwise it answers
  400 or 403 and has changed nothing.
\<close>

theorem callbacks_answer:
  assumes "route L path = Some h" "path \<noteq> ''/health/live''" "pool_ready w"
  shows "answers w (\<lambda>ev. \<exists>b. body = Some b \<and> asks L path (ad_host data) b ev) (h (Some data) body w)"
  using assms by (rule callback_answers)

lemma pool_ready_mem_world: "0 < n \<Longrightarrow> pool_ready (mem_world n d)"
  by (simp add: pool_ready_def mem_world_def)

theorem callbacks_answer_witness:
  "answers (mem_world 2 [])
     (\<lambda>ev. \<exists>b. Some (mem_body [(''sid'', Utf8 ''x'')]) = Some b \<and> asks mem_lib ''/pull/inject/stop'' ''a'' b ev)
     (stop mem_lib (Some \<lparr>ad_host = ''a'', ad_port = 80\<rparr>)
        (Some (mem_body [(''sid'', Utf8 ''x'')])) (mem_world 2 []))"
  using callbacks_answer[of mem_lib "''/pull/inject/stop''" "stop mem_lib" "mem_world 2 []"
      "Some (mem_body [(''sid'', Utf8 ''x'')])" "\<lparr>ad_host = ''a'', ad_port = 80\<rparr>"]
  by (simp add: route_def pool_ready_mem_world)

lemma put_data_ok: "fst (put_data ev w) = Returned rv \<Longrightarrow> rv = err ERROR_OK"
  by (auto simp: put_data_def Let_def split: if_splits)

lemma start_enqueue_reply:
  "fst (start_enqueue p w) = Returned r \<Longrightarrow> hr_reason r = ''OK''"
  by (auto simp: start_enqueue_def bindP_def put_data_def Let_def split: if_splits)

text \<open>
  The duplicate reply is unreachable. The reply \<open>stream exist\<close> of \<open>start\<close> is never sent,
  whatever the request and the state: \<open>put_data\<close> reports nothing but \<open>ERROR_OK\<close>, so a client
  that asks for a running stream is told \<open>SUCCESS\<close>.
\<close>

theorem start_never_reports_duplicate:
  assumes "fst (start L arg body w) = Returned r"
  shows "hr_reason r \<noteq> ''stream exist''"
  using assms
  by (auto simp: start_def start_read_def assert_then_def stop_with_def
      dest!: start_enqueue_reply split: option.splits sum.splits if_splits)
    (simp add: send_reply_def stop_with_def)

theorem start_never_reports_duplicate_witness:
  "fst (start mem_lib (Some \<lparr>ad_host = ''a'', ad_port = 80\<rparr>) None (mem_world 2 [])) =
     Returned \<lparr>hr_code = 403, hr_reason = ''http body null'',
       hr_body = c_str (output_text (tmp_dec 400) ''http post body null'')\<rparr> \<and>
   ''http body null'' \<noteq> ''stream exist''"
proof -
  have r: "fst (start mem_lib (Some \<lparr>ad_host = ''a'', ad_port = 80\<rparr>) None (mem_world 2 [])) =
     Returned \<lparr>hr_code = 403, hr_reason = ''http body null'',
       hr_body = c_str (output_text (tmp_dec 400) ''http post body null'')\<rparr>"
    by (simp add: start_def assert_then_def)
  from start_never_reports_duplicate[OF r] r show ?thesis by simp
qed

text \<open>
  C36 (one request ends the server). A request \<open>/pull/inject/i/stop\<close> with an integer \<open>pid\<close> is
  answered 200, and the worker that takes the event it queued fails the \<open>assert(0)\<close> of its
  \<open>switch\<close>, which has no case for \<open>EV_TERMINATE_PROCESS\<close>.
\<close>

theorem stop_i_aborts_server:
  assumes "pool_ready w" "wc_queue (w_workers w ! nat (w_index w)) = []" "l_asserts L"
    and "l_parse L (c_str b) = Some j" "json_int L j ''pid'' = Inr pid"
  shows "\<exists>r w'. stop_i L (Some data) (Some b) w = (Returned r, w') \<and> hr_code r = 200 \<and>
           fst (worker_step L (nat (w_index w)) w') = Aborted"
proof -
  have "wc_queue (w_workers (enqueue (terminate_event pid) w) ! nat (w_index w)) = [terminate_event pid]"
    using enqueue_grows[OF assms(1)] assms(2) by simp
  then have "fst (worker_step L (nat (w_index w)) (enqueue (terminate_event pid) w)) = Aborted"
    using assms(3)
    by (simp add: worker_step_def Let_def worker_switch_def terminate_event_def assert_then_def)
  then show ?thesis
    using assms(4,5) queued_ok[OF assms(1)]
    by (simp add: stop_i_def assert_then_def terminate_event_def)
qed

theorem stop_i_aborts_server_witness:
  "\<exists>r w'. stop_i mem_lib (Some \<lparr>ad_host = ''a'', ad_port = 80\<rparr>)
            (Some (mem_body [(''pid'', Int32 7)])) (mem_world 1 []) = (Returned r, w') \<and>
     hr_code r = 200 \<and> fst (worker_step mem_lib (nat (w_index (mem_world 1 []))) w') = Aborted"
proof (rule stop_i_aborts_server)
  show "pool_ready (mem_world 1 [])" by (simp add: pool_ready_mem_world)
  show "wc_queue (w_workers (mem_world 1 []) ! nat (w_index (mem_world 1 []))) = []"
    by (simp add: mem_world_def new_context_def)
  show "l_asserts mem_lib" by (simp add: mem_lib_def)
  show "l_parse mem_lib (c_str (mem_body [(''pid'', Int32 7)])) = Some (Document [(''pid'', Int32 7)])"
    by code_simp
  show "json_int mem_lib (Document [(''pid'', Int32 7)]) ''pid'' = Inr 7"
    by code_simp
qed

text \<open>
  No liveness answer. The callback of \<open>/health/live\<close> returns no reply in any state: it
  prints into the null pointer it initialised \<open>buffer\<close> with.
\<close>

theorem health_check_never_replies:
  "\<exists>h. route L ''/health/live'' = Some h \<and> (\<forall>arg body w. fst (h arg body w) = Undefined \<and> snd (h arg body w) = w)"
  by (simp add: route_def check_alive_i_def send_reply_def stop_with_def)

section \<open>Round robin\<close>

lemma enqueue_all:
  fixes w :: "'db world"
  assumes "pool_ready w"
  shows "fst (forP (\<lambda>ev. bindP (put_data ev) (\<lambda>_. ret ())) evs w) = Returned ()"
    and "snd (forP (\<lambda>ev. bindP (put_data ev) (\<lambda>_. ret ())) evs w) = fold enqueue evs w"
  using assms
proof (induction evs arbitrary: w)
  case (Cons e evs)
  { case 1 with Cons(1)[of "enqueue e w"] show ?case
      by (simp add: bindP_assoc bindP_Returned[where m = "put_data _", OF put_data_ready] pool_ready_enqueue) }
  { case 2 with Cons(2)[of "enqueue e w"] show ?case
      by (simp add: bindP_assoc bindP_Returned[where m = "put_data _", OF put_data_ready] pool_ready_enqueue) }
qed simp_all

text \<open>The events number \<open>i\<close>, \<open>i + n\<close>, \<open>i + 2 n\<close>, ... of a list.\<close>

definition every_nth :: "nat \<Rightarrow> nat \<Rightarrow> 'a list \<Rightarrow> 'a list" where
  "every_nth n i xs = map (\<lambda>k. xs ! k) (filter (\<lambda>k. k mod n = i) [0..<length xs])"

lemma every_nth_snoc:
  "every_nth n i (xs @ [x]) = every_nth n i xs @ (if length xs mod n = i then [x] else [])"
proof -
  have "map (\<lambda>k. (xs @ [x]) ! k) (filter (\<lambda>k. k mod n = i) [0..<length xs]) =
        map (\<lambda>k. xs ! k) (filter (\<lambda>k. k mod n = i) [0..<length xs])"
    by (rule map_cong) (auto simp: nth_append)
  then show ?thesis by (simp add: every_nth_def)
qed

lemma enqueue_nth:
  "k < length (w_workers v) \<Longrightarrow> w_workers (enqueue e v) ! k =
     (if k = nat (w_index v) then queue_push e (w_workers v ! k) else w_workers v ! k)"
  by (simp add: enqueue_def nth_list_update)

lemma enqueue_sel:
  "length (w_workers (enqueue e v)) = length (w_workers v)"
  "w_index (enqueue e v) = (w_index v + 1) mod w_max v"
  by (simp_all add: enqueue_def)

lemma turn_eq: "(s + i) mod n = (s + m) mod n \<longleftrightarrow> i mod n = m mod n" for s i m n :: nat
  by (simp add: nat_mod_eq_iff)

lemma fold_enqueue:
  fixes w :: "'db world"
  assumes "pool_ready w"
  defines "n \<equiv> length (w_workers w)" and "turn \<equiv> nat (w_index w)"
  shows "pool_ready (fold enqueue evs w) \<and> length (w_workers (fold enqueue evs w)) = n \<and>
         w_index (fold enqueue evs w) = int ((turn + length evs) mod n) \<and>
         (\<forall>i<n. w_workers (fold enqueue evs w) ! ((turn + i) mod n) =
            (w_workers w ! ((turn + i) mod n))\<lparr>wc_queue := wc_queue (w_workers w ! ((turn + i) mod n)) @ every_nth n i evs\<rparr>)"
proof (induction evs rule: rev_induct)
  case Nil
  have "turn < n" using assms(1) by (auto simp: pool_ready_def n_def turn_def nat_less_iff)
  then show ?case using assms(1) by (simp add: every_nth_def n_def turn_def pool_ready_def)
next
  case (snoc e evs)
  let ?v = "fold enqueue evs w"
  have n: "0 < n" and m: "w_max ?v = int n"
    using pool_ready_pos[OF assms(1)] snoc by (auto simp: pool_ready_def n_def)
  have i: "(w_index ?v + 1) mod w_max ?v = int ((turn + length (evs @ [e])) mod n)"
    using snoc m by (simp add: zmod_int mod_simps add.commute add.left_commute)
  have "w_workers (enqueue e ?v) ! ((turn + k) mod n) = (w_workers w ! ((turn + k) mod n))
      \<lparr>wc_queue := wc_queue (w_workers w ! ((turn + k) mod n)) @ every_nth n k (evs @ [e])\<rparr>"
    if "k < n" for k
  proof -
    have "(turn + k) mod n < length (w_workers ?v)" using snoc n by simp
    then show ?thesis
      using snoc that turn_eq[of turn k n "length evs"]
      by (simp add: enqueue_nth every_nth_snoc queue_push_def eq_commute[of k])
  qed
  moreover have "pool_ready (enqueue e ?v)" using snoc by (simp add: pool_ready_enqueue)
  ultimately show ?case using snoc i by (simp add: enqueue_sel)
qed

text \<open>
  C4 (round robin, first in first out). Whatever waits in a pool of \<open>n\<close> workers and whoever's turn it is, a
  sequence of \<open>put_data\<close> calls returns; the worker \<open>i\<close> turns after the first one gets exactly the events
  number \<open>i\<close>, \<open>i + n\<close>, \<open>i + 2 n\<close>, ... behind those it had, in the order they were put; the worker contexts are
  otherwise as they were, and the turn has moved on by the number of events.
\<close>

theorem put_data_round_robin:
  fixes w :: "'db world"
  assumes "pool_ready w" "forP (\<lambda>ev. bindP (put_data ev) (\<lambda>_. ret ())) evs w = (r, w')"
  defines "n \<equiv> length (w_workers w)" and "turn \<equiv> nat (w_index w)"
  shows "r = Returned () \<and> length (w_workers w') = n \<and> w_index w' = int ((turn + length evs) mod n) \<and>
         (\<forall>i<n. w_workers w' ! ((turn + i) mod n) =
            (w_workers w ! ((turn + i) mod n))\<lparr>wc_queue := wc_queue (w_workers w ! ((turn + i) mod n)) @ every_nth n i evs\<rparr>)"
proof -
  have "r = Returned ()" "w' = fold enqueue evs w"
    using enqueue_all[OF assms(1), of evs] assms(2) by simp_all
  then show ?thesis using fold_enqueue[OF assms(1), of evs] unfolding n_def turn_def by simp
qed

theorem put_data_round_robin_witness:
  "\<exists>w'. forP (\<lambda>ev. bindP (put_data ev) (\<lambda>_. ret ()))
          [remove_event ''a'', remove_event ''b'', remove_event ''c''] ((mem_world 2 [])\<lparr>w_index := 1\<rparr>) = (Returned (), w') \<and>
        wc_queue (w_workers w' ! 1) = [remove_event ''a'', remove_event ''c''] \<and>
        wc_queue (w_workers w' ! 0) = [remove_event ''b''] \<and> w_index w' = 0"
proof -
  let ?evs = "[remove_event ''a'', remove_event ''b'', remove_event ''c'']" and ?w = "(mem_world 2 [])\<lparr>w_index := 1\<rparr>"
  obtain r w' where f: "forP (\<lambda>ev. bindP (put_data ev) (\<lambda>_. ret ())) ?evs ?w = (r, w')"
    by fastforce
  have e: "every_nth 2 0 ?evs = [remove_event ''a'', remove_event ''c'']"
    "every_nth 2 1 ?evs = [remove_event ''b'']"
    by (simp_all add: every_nth_def upt_rec)
  have "pool_ready ?w" by (simp add: pool_ready_def mem_world_def)
  note all = put_data_round_robin[OF this f]
  have n: "length (w_workers ?w) = 2" "nat (w_index ?w) = 1" and q: "i < 2 \<Longrightarrow> wc_queue (w_workers ?w ! i) = []" for i
    by (simp_all add: mem_world_def new_context_def)
  have "w_workers w' ! ((1 + i) mod 2) = (w_workers ?w ! ((1 + i) mod 2))
      \<lparr>wc_queue := wc_queue (w_workers ?w ! ((1 + i) mod 2)) @ every_nth 2 i ?evs\<rparr>" if "i < 2" for i
    using all that unfolding n by blast
  from this[of 0] this[of 1] have "wc_queue (w_workers w' ! 1) = every_nth 2 0 ?evs" "wc_queue (w_workers w' ! 0) = every_nth 2 1 ?evs"
    using q[of 0] q[of 1] by simp_all
  moreover have "r = Returned ()" "w_index w' = 0" using all unfolding n by simp_all
  ultimately show ?thesis using f e by simp
qed

end
