(* ===== verification/Refinement.thy ===== *)
theory Refinement
  imports Streams StreamSpec RestLaws
begin

text \<open>
  The code of \<open>spawn_process\<close>, \<open>process_reload\<close>, \<open>remove_process\<close> and of the worker loop
  takes only the steps of \<open>StreamSpec\<close>: the simulation, and what the running server inherits
  from the abstract system.
\<close>

section \<open>The abstraction\<close>

definition abs_state :: "('db \<Rightarrow> coll \<Rightarrow> bson multiset) \<Rightarrow> 'db world \<Rightarrow> stream_state" where
  "abs_state docs w =
     \<lparr>ss_procs = w_procs w, ss_forks = w_forks w, ss_exec = w_exec_ok w, ss_self = w_self w,
      ss_pgid = w_pgid w, ss_cache = image_mset info_of (docs (w_db w) (cache_coll w))\<rparr>"

text \<open>
  A server the operations run well on: its database address is good, \<open>init\<close> has set
  \<open>SIGCHLD\<close> to be ignored, and the cached documents are documents the program wrote.
\<close>

definition server_ok :: "('db, 'j) lib \<Rightarrow> ('db \<Rightarrow> coll \<Rightarrow> bson multiset) \<Rightarrow> 'db world \<Rightarrow> bool" where
  "server_ok L docs w \<longleftrightarrow>
     cache_up L w \<and> w_chld_ignored w \<and>
     (\<forall>x. x \<in># docs (w_db w) (cache_coll w) \<longrightarrow> stream_doc x) \<and> sound_pids (abs_state docs w)"

lemma abs_state_sel [simp]:
  "ss_procs (abs_state docs w) = w_procs w" "ss_forks (abs_state docs w) = w_forks w"
  "ss_exec (abs_state docs w) = w_exec_ok w" "ss_self (abs_state docs w) = w_self w"
  "ss_pgid (abs_state docs w) = w_pgid w"
  "ss_cache (abs_state docs w) = image_mset info_of (docs (w_db w) (cache_coll w))"
  by (simp_all add: abs_state_def)

lemma cache_coll_upd [simp]:
  "cache_coll (w\<lparr>w_db := d\<rparr>) = cache_coll w" "cache_coll (w\<lparr>w_cursors := n\<rparr>) = cache_coll w"
  "cache_coll (w\<lparr>w_bsons := n\<rparr>) = cache_coll w" "cache_coll (w\<lparr>w_procs := ps\<rparr>) = cache_coll w"
  "cache_coll (w\<lparr>w_forks := rs\<rparr>) = cache_coll w" "cache_coll (w\<lparr>w_workers := cs\<rparr>) = cache_coll w"
  by (simp_all add: cache_coll_def)

lemma cache_up_upd [simp]:
  "cache_up L (w\<lparr>w_db := d\<rparr>) = cache_up L w" "cache_up L (w\<lparr>w_cursors := n\<rparr>) = cache_up L w"
  "cache_up L (w\<lparr>w_bsons := n\<rparr>) = cache_up L w" "cache_up L (w\<lparr>w_procs := ps\<rparr>) = cache_up L w"
  "cache_up L (w\<lparr>w_forks := rs\<rparr>) = cache_up L w" "cache_up L (w\<lparr>w_workers := cs\<rparr>) = cache_up L w"
  by (simp_all add: cache_up_def)

lemma abs_state_upd [simp]:
  "abs_state docs (w\<lparr>w_cursors := n\<rparr>) = abs_state docs w"
  "abs_state docs (w\<lparr>w_bsons := n\<rparr>) = abs_state docs w"
  "abs_state docs (w\<lparr>w_workers := cs\<rparr>) = abs_state docs w"
  "abs_state docs (w\<lparr>w_procs := ps\<rparr>) = (abs_state docs w)\<lparr>ss_procs := ps\<rparr>"
  "abs_state docs (w\<lparr>w_forks := rs\<rparr>) = (abs_state docs w)\<lparr>ss_forks := rs\<rparr>"
  "abs_state docs (w\<lparr>w_db := d\<rparr>) =
     (abs_state docs w)\<lparr>ss_cache := image_mset info_of (docs d (cache_coll w))\<rparr>"
  by (simp_all add: abs_state_def)

lemma server_ok_upd [simp]:
  "server_ok L docs (w\<lparr>w_cursors := n\<rparr>) = server_ok L docs w"
  "server_ok L docs (w\<lparr>w_bsons := n\<rparr>) = server_ok L docs w"
  "server_ok L docs (w\<lparr>w_workers := cs\<rparr>) = server_ok L docs w"
  by (simp_all add: server_ok_def)

lemma lib_lawsD:
  assumes "lib_laws L docs"
  shows "find_law L docs" "insert_law L docs" "update_law L docs" "remove_law L docs" "json_law L"
    "text_law L docs"
  using assms by (simp_all add: lib_laws_def)

lemma info_of_sel:
  "pi_sid (info_of x) = doc_str x ''sid''" "pi_pid (info_of x) = Some (doc_int x ''pid'')"
  by (simp_all add: info_of_def)

lemma find_lawD:
  "find_law L docs \<Longrightarrow> scalar v \<Longrightarrow>
   mset (l_find L c [(k, v)] d) = filter_mset (has_field k v) (docs d c)"
  unfolding find_law_def by blast

lemma cached_sids_abs:
  "sid \<in># cached_sids (abs_state docs w) \<longleftrightarrow>
   (\<exists>x. x \<in># docs (w_db w) (cache_coll w) \<and> doc_str x ''sid'' = sid)"
  by (auto simp: cached_sids_def info_of_sel image_image)

section \<open>Looking a stream up\<close>

lemma lookup_doc:
  assumes "lib_laws L docs" "server_ok L docs w" "scalar v"
  shows "\<exists>rv item. lookup_one L MONGODB_COLLECTION_PROCESS [(k, v)] w =
           (Returned (rv, item), w\<lparr>w_cursors := w_cursors w + 1\<rparr>) \<and>
         (rv = err REC_ERROR_PORCESS_INFO_NONE \<and>
            (\<forall>x. x \<in># docs (w_db w) (cache_coll w) \<longrightarrow> \<not> has_field k v x) \<or>
          rv = err ERROR_OK \<and> (\<exists>x. x \<in># docs (w_db w) (cache_coll w) \<and> has_field k v x \<and>
            (\<forall>info. parser L item info = (err ERROR_OK, info_of x))))"
proof -
  let ?found = "l_find L (cache_coll w) [(k, v)] (w_db w)"
  have docs: "mset ?found = filter_mset (has_field k v) (docs (w_db w) (cache_coll w))"
    by (rule find_lawD[OF lib_lawsD(1)[OF assms(1)] assms(3)])
  have sd: "stream_doc x" if "x \<in># docs (w_db w) (cache_coll w)" for x
    using assms(2) that by (simp add: server_ok_def)
  have jt: "l_as_json L x \<noteq> None" if "x \<in># docs (w_db w) (cache_coll w)" for x
    using lib_lawsD(6)[OF assms(1)] that unfolding text_law_def by blast
  have "set ?found = set_mset (mset ?found)" by simp
  also have "\<dots> = {x. x \<in># docs (w_db w) (cache_coll w) \<and> has_field k v x}"
    unfolding docs by auto
  finally have mem: "x \<in> set ?found \<longleftrightarrow> x \<in># docs (w_db w) (cache_coll w) \<and> has_field k v x" for x
    by blast
  have all: "\<forall>doc\<in>set ?found. l_as_json L doc \<noteq> None" using mem jt by blast
  have up: "db_up L (w_db_address w) MONGODB_DATABASE MONGODB_COLLECTION_PROCESS"
    using assms(2) by (simp add: server_ok_def cache_up_def)
  note look = lookup_one_up[OF up, of "[(k, v)]", simplified c_str_names, folded cache_coll_def, OF all]
  show ?thesis
  proof (cases ?found)
    case Nil
    then have "\<forall>x. x \<in># docs (w_db w) (cache_coll w) \<longrightarrow> \<not> has_field k v x" using mem by auto
    with look Nil show ?thesis by (simp del: err.simps)
  next
    case (Cons x xs)
    then have x: "x \<in># docs (w_db w) (cache_coll w)" "has_field k v x" using mem by auto
    then obtain t where t: "l_as_json L x = Some t" using jt by blast
    have "parser L (c_str t) info = (err ERROR_OK, info_of x)" for info
      using lib_lawsD(5)[OF assms(1)] sd[OF x(1)] t by (rule parser_info_of)
    with look Cons x t show ?thesis by (auto simp del: err.simps)
  qed
qed

lemma lookup_stream:
  assumes "lib_laws L docs" "server_ok L docs w"
  shows "\<exists>rv item. lookup_one L MONGODB_COLLECTION_PROCESS [(''sid'', Utf8 s)] w =
           (Returned (rv, item), w\<lparr>w_cursors := w_cursors w + 1\<rparr>) \<and>
         (rv = err REC_ERROR_PORCESS_INFO_NONE \<and> s \<notin># cached_sids (abs_state docs w) \<or>
          rv = err ERROR_OK \<and> (\<exists>x. x \<in># docs (w_db w) (cache_coll w) \<and> doc_str x ''sid'' = s \<and>
            (\<forall>info. parser L item info = (err ERROR_OK, info_of x))))"
proof -
  have "has_field ''sid'' (Utf8 s) x \<longleftrightarrow> doc_str x ''sid'' = s" if "x \<in># docs (w_db w) (cache_coll w)" for x
    using assms(2) that by (intro has_field_sid) (simp add: server_ok_def)
  then show ?thesis
    using lookup_doc[OF assms, of "Utf8 s" "''sid''"] unfolding cached_sids_abs by (simp only: scalar.simps) blast
qed

section \<open>The writes\<close>

text \<open>The driver accepts every write to a collection.\<close>

definition driver_ok :: "('db, 'j) lib \<Rightarrow> coll \<Rightarrow> bool" where
  "driver_ok L c \<longleftrightarrow>
     (\<forall>x d. fst (l_insert L c x d)) \<and> (\<forall>q u d. fst (l_update L c q u d)) \<and> (\<forall>q d. fst (l_remove L c q d))"

lemma sys_fork_abs:
  "sys_fork (ffmpeg_child p) w =
     (Returned (fst (fork_spec p (abs_state docs w))),
      w\<lparr>w_forks := ss_forks (snd (fork_spec p (abs_state docs w))),
        w_procs := ss_procs (snd (fork_spec p (abs_state docs w)))\<rparr>)"
  by (simp add: sys_fork_def fork_spec_def ffmpeg_child_def split: list.split)

lemma fork_spec_abs:
  "fork_spec p s = (r, t) \<Longrightarrow> s\<lparr>ss_forks := ss_forks t, ss_procs := ss_procs t\<rparr> = t"
  by (auto simp: fork_spec_def split: list.splits if_splits)

lemma stream_doc_same_fields:
  "same_fields x y \<Longrightarrow> stream_doc x \<Longrightarrow> stream_doc y \<and> info_of y = info_of x"
  by (simp add: same_fields_def stream_doc_def info_of_def doc_str_def doc_int_def)

lemma stream_doc_new_pid:
  "map_of y = (map_of x)(''pid'' \<mapsto> Int32 n) \<Longrightarrow> stream_doc x \<Longrightarrow>
   stream_doc y \<and> info_of y = (info_of x)\<lparr>pi_pid := Some n\<rparr>"
  by (simp add: stream_doc_def info_of_def doc_str_def doc_int_def)

lemma insert_stream:
  assumes "insert_law L docs" "cache_up L w" "pi_pid info = Some pid"
  shows "\<exists>rv d y. add_process_to_cache L info w = (Returned rv, w\<lparr>w_db := d\<rparr>) \<and>
           stream_doc y \<and> info_of y = stream_entry info pid (w_self w) \<and>
           (docs d = docs (w_db w) \<and> \<not> driver_ok L (cache_coll w) \<or>
            docs d = (docs (w_db w))(cache_coll w := add_mset y (docs (w_db w) (cache_coll w))))"
proof -
  let ?x = "[(''sid'', Utf8 (c_str (pi_sid info))), (''pid'', Int32 pid), (''ppid'', Int32 (w_self w)),
            (''src_url'', Utf8 (c_str (pi_src_url info))), (''dest_url'', Utf8 (c_str (pi_dest_url info))),
            (''type'', Int32 (pi_type info)), (''status'', Utf8 ''active''),
            (''host'', Utf8 (c_str (pi_host info)))]"
  have x: "stream_doc ?x \<and> info_of ?x = stream_entry info pid (w_self w)"
    by (simp add: stream_doc_def info_of_def doc_str_def doc_int_def stream_entry_def c_str_no_nul)
  obtain ok d where i: "l_insert L (cache_coll w) ?x (w_db w) = (ok, d)" by fastforce
  then have r: "\<exists>rv. add_process_to_cache L info w = (Returned rv, w\<lparr>w_db := d\<rparr>)"
    using add_process_to_cache_up[OF assms(2,3) i] by blast
  from assms(1) i have l: "if ok then \<exists>y. same_fields ?x y \<and>
        docs d = (docs (w_db w))(cache_coll w := add_mset y (docs (w_db w) (cache_coll w)))
      else docs d = docs (w_db w)"
    unfolding insert_law_def by blast
  show ?thesis
  proof (cases ok)
    case True
    with l obtain y where y: "same_fields ?x y"
      "docs d = (docs (w_db w))(cache_coll w := add_mset y (docs (w_db w) (cache_coll w)))" by auto
    have "stream_doc y" "info_of y = stream_entry info pid (w_self w)"
      using stream_doc_same_fields[OF y(1)] x by auto
    with r y(2) show ?thesis by blast
  next
    case False
    with l i have "docs d = docs (w_db w) \<and> \<not> driver_ok L (cache_coll w)"
      unfolding driver_ok_def by (metis fst_conv)
    with r x show ?thesis by blast
  qed
qed

lemma update_stream:
  assumes "update_law L docs" "cache_up L w" "pi_pid p = Some pid"
    and sd: "\<And>x. x \<in># docs (w_db w) (cache_coll w) \<Longrightarrow> stream_doc x"
    and ex: "\<exists>x. x \<in># docs (w_db w) (cache_coll w) \<and> doc_str x ''sid'' = c_str (pi_sid p)"
  shows "\<exists>rv d. update_process_info L p w = (Returned rv, w\<lparr>w_db := d, w_bsons := w_bsons w + 1\<rparr>) \<and>
           (docs d = docs (w_db w) \<and> \<not> driver_ok L (cache_coll w) \<or>
            (\<exists>x y. x \<in># docs (w_db w) (cache_coll w) \<and> doc_str x ''sid'' = c_str (pi_sid p) \<and>
               stream_doc y \<and> info_of y = (info_of x)\<lparr>pi_pid := Some pid\<rparr> \<and>
               docs d = (docs (w_db w))
                 (cache_coll w := add_mset y (docs (w_db w) (cache_coll w) - {#x#}))))"
proof -
  let ?q = "[(''sid'', Utf8 (c_str (pi_sid p)))]" and ?u = "[(''$set'', Document [(''pid'', Int32 pid)])]"
  obtain ok d where u: "l_update L (cache_coll w) ?q ?u (w_db w) = (ok, d)" by fastforce
  then have r: "\<exists>rv. update_process_info L p w = (Returned rv, w\<lparr>w_db := d, w_bsons := w_bsons w + 1\<rparr>)"
    using update_process_info_up[OF assms(2,3) u] by blast
  have ne: "filter_mset (has_field ''sid'' (Utf8 (c_str (pi_sid p)))) (docs (w_db w) (cache_coll w)) \<noteq> {#}"
    using ex sd has_field_sid by fastforce
  have "docs d = docs (w_db w) \<and>
          (ok \<longrightarrow> filter_mset (has_field ''sid'' (Utf8 (c_str (pi_sid p)))) (docs (w_db w) (cache_coll w)) = {#}) \<or>
        (\<exists>x y. x \<in># docs (w_db w) (cache_coll w) \<and> has_field ''sid'' (Utf8 (c_str (pi_sid p))) x \<and>
           map_of y = (map_of x)(''pid'' \<mapsto> Int32 pid) \<and>
           docs d = (docs (w_db w))(cache_coll w := add_mset y (docs (w_db w) (cache_coll w) - {#x#})))"
    using assms(1) u unfolding update_law_def by (metis scalar.simps(2))
  then have "docs d = docs (w_db w) \<and> \<not> driver_ok L (cache_coll w) \<or>
        (\<exists>x y. x \<in># docs (w_db w) (cache_coll w) \<and> has_field ''sid'' (Utf8 (c_str (pi_sid p))) x \<and>
           map_of y = (map_of x)(''pid'' \<mapsto> Int32 pid) \<and>
           docs d = (docs (w_db w))(cache_coll w := add_mset y (docs (w_db w) (cache_coll w) - {#x#})))"
    using u ne unfolding driver_ok_def by (metis fst_conv)
  with r show ?thesis using sd has_field_sid stream_doc_new_pid by meson
qed

lemma remove_stream:
  assumes "remove_law L docs" "cache_up L w"
    and sd: "\<And>x. x \<in># docs (w_db w) (cache_coll w) \<Longrightarrow> stream_doc x"
    and ex: "\<exists>x. x \<in># docs (w_db w) (cache_coll w) \<and> doc_str x ''sid'' = c_str sid"
  shows "\<exists>rv d. remove_process_by_stream L sid w = (Returned rv, w\<lparr>w_db := d\<rparr>) \<and>
           (docs d = docs (w_db w) \<and> \<not> driver_ok L (cache_coll w) \<or>
            (\<exists>x. x \<in># docs (w_db w) (cache_coll w) \<and> doc_str x ''sid'' = c_str sid \<and>
               docs d = (docs (w_db w))(cache_coll w := docs (w_db w) (cache_coll w) - {#x#})))"
proof -
  let ?q = "[(''sid'', Utf8 (c_str sid))]"
  obtain ok d where u: "l_remove L (cache_coll w) ?q (w_db w) = (ok, d)" by fastforce
  have r: "\<exists>rv. remove_process_by_stream L sid w = (Returned rv, w\<lparr>w_db := d\<rparr>)"
    using remove_one_up[of L w MONGODB_DATABASE MONGODB_COLLECTION_PROCESS ?q ok d] u assms(2)
    by (simp add: remove_process_by_stream_def cache_up_def cache_coll_def)
  have ne: "filter_mset (has_field ''sid'' (Utf8 (c_str sid))) (docs (w_db w) (cache_coll w)) \<noteq> {#}"
    using ex sd has_field_sid by fastforce
  have "docs d = docs (w_db w) \<and>
          (ok \<longrightarrow> filter_mset (has_field ''sid'' (Utf8 (c_str sid))) (docs (w_db w) (cache_coll w)) = {#}) \<or>
        (\<exists>x. x \<in># docs (w_db w) (cache_coll w) \<and> has_field ''sid'' (Utf8 (c_str sid)) x \<and>
           docs d = (docs (w_db w))(cache_coll w := docs (w_db w) (cache_coll w) - {#x#}))"
    using assms(1) u unfolding remove_law_def by (metis scalar.simps(2))
  then have "docs d = docs (w_db w) \<and> \<not> driver_ok L (cache_coll w) \<or>
        (\<exists>x. x \<in># docs (w_db w) (cache_coll w) \<and> has_field ''sid'' (Utf8 (c_str sid)) x \<and>
           docs d = (docs (w_db w))(cache_coll w := docs (w_db w) (cache_coll w) - {#x#}))"
    using u ne unfolding driver_ok_def by (metis fst_conv)
  with r show ?thesis using sd has_field_sid by meson
qed

section \<open>The simulation\<close>

definition docs_ok :: "('db \<Rightarrow> coll \<Rightarrow> bson multiset) \<Rightarrow> 'db world \<Rightarrow> bool" where
  "docs_ok docs w \<longleftrightarrow> (\<forall>x. x \<in># docs (w_db w) (cache_coll w) \<longrightarrow> stream_doc x)"

text \<open>One handled event: it returns, it is a step of the specification, the server stays well.\<close>

definition simulates ::
  "('db, 'j) lib \<Rightarrow> ('db \<Rightarrow> coll \<Rightarrow> bson multiset) \<Rightarrow> rec_event \<Rightarrow> 'db world \<Rightarrow> int outcome \<times> 'db world \<Rightarrow> bool" where
  "simulates L docs ev w res \<longleftrightarrow>
     (\<exists>rv. fst res = Returned rv \<and> stream_step (driver_ok L (cache_coll w)) ev (abs_state docs w) rv (abs_state docs (snd res)) \<and>
        server_ok L docs (snd res) \<and> w_workers (snd res) = w_workers w \<and>
        cache_coll (snd res) = cache_coll w \<and> w_max (snd res) = w_max w \<and> w_index (snd res) = w_index w)"

lemma simulatesI:
  assumes "server_ok L docs w" "res = (Returned rv, w')"
    and "stream_step (driver_ok L (cache_coll w)) ev (abs_state docs w) rv (abs_state docs w')"
    and "cache_up L w'" "w_chld_ignored w' = w_chld_ignored w" "docs_ok docs w'"
    and "w_workers w' = w_workers w" "cache_coll w' = cache_coll w" "w_max w' = w_max w" "w_index w' = w_index w"
  shows "simulates L docs ev w res"
  using assms sound_pids_step[OF _ assms(3)]
  by (auto simp: simulates_def server_ok_def docs_ok_def)

lemma docs_ok_server: "server_ok L docs w \<Longrightarrow> docs_ok docs w"
  by (simp add: server_ok_def docs_ok_def)

lemma server_cache_up: "server_ok L docs w \<Longrightarrow> cache_up L w"
  by (simp add: server_ok_def)

lemma simulates_cursor [simp]:
  "simulates L docs ev (w\<lparr>w_cursors := n\<rparr>) res = simulates L docs ev w res"
  by (simp add: simulates_def)

text \<open>The world after a fork, \<open>t\<close> being its abstraction.\<close>

definition forked :: "stream_state \<Rightarrow> 'db world \<Rightarrow> 'db world" where
  "forked t w = w\<lparr>w_forks := ss_forks t, w_procs := ss_procs t\<rparr>"

lemma forked_sel [simp]:
  "cache_up L (forked t w) = cache_up L w" "cache_coll (forked t w) = cache_coll w"
  "w_db (forked t w) = w_db w" "w_self (forked t w) = w_self w"
  "w_chld_ignored (forked t w) = w_chld_ignored w" "w_workers (forked t w) = w_workers w"
  "w_max (forked t w) = w_max w" "w_index (forked t w) = w_index w"
  "docs_ok docs (forked t w) = docs_ok docs w"
  by (simp_all add: forked_def docs_ok_def)

lemma sys_fork_forked:
  "fork_spec p (abs_state docs w) = (r, t) \<Longrightarrow>
   sys_fork (ffmpeg_child p) w = (Returned r, forked t w) \<and> abs_state docs (forked t w) = t"
  using sys_fork_abs[of p w docs] fork_spec_abs[of p "abs_state docs w" r t] by (simp add: forked_def)

lemma abs_forked_db:
  "abs_state docs (forked t w) = t \<Longrightarrow>
   abs_state docs ((forked t w)\<lparr>w_db := d\<rparr>) = t\<lparr>ss_cache := image_mset info_of (docs d (cache_coll w))\<rparr>"
  by simp

text \<open>The three operations on the cache, seen through the abstraction: a driver that does not accept may lose them.\<close>

definition cached_in :: "('db \<Rightarrow> coll \<Rightarrow> bson multiset) \<Rightarrow> 'db \<Rightarrow> 'db world \<Rightarrow> process_info multiset" where
  "cached_in docs d w = image_mset info_of (docs d (cache_coll w))"

lemma cached_in_forked [simp]: "cached_in docs d (forked t w) = cached_in docs d w"
  by (simp add: cached_in_def)

lemma abs_cached: "abs_state docs (w\<lparr>w_db := d\<rparr>) = (abs_state docs w)\<lparr>ss_cache := cached_in docs d w\<rparr>"
  by (simp add: cached_in_def)

lemma insert_cached:
  assumes "lib_laws L docs" "cache_up L w" "docs_ok docs w" "pi_pid info = Some pid"
  obtains rv d where "add_process_to_cache L info w = (Returned rv, w\<lparr>w_db := d\<rparr>)" "docs_ok docs (w\<lparr>w_db := d\<rparr>)"
    and "cached_in docs d w = ss_cache (abs_state docs w) \<and> \<not> driver_ok L (cache_coll w) \<or>
         cached_in docs d w = add_mset (stream_entry info pid (w_self w)) (ss_cache (abs_state docs w))"
proof -
  obtain rv d y where "add_process_to_cache L info w = (Returned rv, w\<lparr>w_db := d\<rparr>)"
    "stream_doc y" "info_of y = stream_entry info pid (w_self w)"
    "docs d = docs (w_db w) \<and> \<not> driver_ok L (cache_coll w) \<or>
     docs d = (docs (w_db w))(cache_coll w := add_mset y (docs (w_db w) (cache_coll w)))"
    using insert_stream[OF lib_lawsD(2)[OF assms(1)] assms(2,4)] by blast
  then show thesis using assms(3) by (intro that[of rv d]) (auto simp: docs_ok_def cached_in_def)
qed

lemma update_cached:
  assumes "lib_laws L docs" "cache_up L w" "docs_ok docs w" "pi_pid p = Some pid"
    and ex: "i0 \<in># ss_cache (abs_state docs w)" "pi_sid i0 = c_str (pi_sid p)"
  obtains rv d where "update_process_info L p w = (Returned rv, w\<lparr>w_db := d, w_bsons := w_bsons w + 1\<rparr>)"
    and "docs_ok docs (w\<lparr>w_db := d\<rparr>)"
    and "cached_in docs d w = ss_cache (abs_state docs w) \<and> \<not> driver_ok L (cache_coll w) \<or>
         (\<exists>i. i \<in># ss_cache (abs_state docs w) \<and> pi_sid i = c_str (pi_sid p) \<and>
              cached_in docs d w = add_mset (i\<lparr>pi_pid := Some pid\<rparr>) (ss_cache (abs_state docs w) - {#i#}))"
proof -
  have "\<exists>x. x \<in># docs (w_db w) (cache_coll w) \<and> doc_str x ''sid'' = c_str (pi_sid p)"
    using ex by (auto simp: info_of_sel)
  then obtain rv d where u: "update_process_info L p w = (Returned rv, w\<lparr>w_db := d, w_bsons := w_bsons w + 1\<rparr>)"
    and d: "docs d = docs (w_db w) \<and> \<not> driver_ok L (cache_coll w) \<or>
      (\<exists>x y. x \<in># docs (w_db w) (cache_coll w) \<and> doc_str x ''sid'' = c_str (pi_sid p) \<and>
         stream_doc y \<and> info_of y = (info_of x)\<lparr>pi_pid := Some pid\<rparr> \<and>
         docs d = (docs (w_db w))(cache_coll w := add_mset y (docs (w_db w) (cache_coll w) - {#x#})))"
    using update_stream[OF lib_lawsD(3)[OF assms(1)] assms(2,4)] assms(3) unfolding docs_ok_def by blast
  have "docs_ok docs (w\<lparr>w_db := d\<rparr>)" using d assms(3) by (auto simp: docs_ok_def dest!: in_diffD)
  moreover have "cached_in docs d w = ss_cache (abs_state docs w) \<and> \<not> driver_ok L (cache_coll w) \<or>
      (\<exists>i. i \<in># ss_cache (abs_state docs w) \<and> pi_sid i = c_str (pi_sid p) \<and>
           cached_in docs d w = add_mset (i\<lparr>pi_pid := Some pid\<rparr>) (ss_cache (abs_state docs w) - {#i#}))"
    using d
  proof (elim disjE exE conjE)
    fix x y assume "x \<in># docs (w_db w) (cache_coll w)" "doc_str x ''sid'' = c_str (pi_sid p)"
      "info_of y = (info_of x)\<lparr>pi_pid := Some pid\<rparr>"
      "docs d = (docs (w_db w))(cache_coll w := add_mset y (docs (w_db w) (cache_coll w) - {#x#}))"
    then show ?thesis by (intro disjI2 exI[of _ "info_of x"]) (simp add: cached_in_def image_mset_Diff info_of_sel)
  qed (simp add: cached_in_def)
  ultimately show thesis using u that by blast
qed

lemma remove_cached:
  assumes "lib_laws L docs" "cache_up L w" "docs_ok docs w"
    and ex: "i0 \<in># ss_cache (abs_state docs w)" "pi_sid i0 = c_str sid"
  obtains rv d where "remove_process_by_stream L sid w = (Returned rv, w\<lparr>w_db := d\<rparr>)" "docs_ok docs (w\<lparr>w_db := d\<rparr>)"
    and "cached_in docs d w = ss_cache (abs_state docs w) \<and> \<not> driver_ok L (cache_coll w) \<or>
         (\<exists>i. i \<in># ss_cache (abs_state docs w) \<and> pi_sid i = c_str sid \<and>
              cached_in docs d w = ss_cache (abs_state docs w) - {#i#})"
proof -
  have "\<exists>x. x \<in># docs (w_db w) (cache_coll w) \<and> doc_str x ''sid'' = c_str sid"
    using ex by (auto simp: info_of_sel)
  then obtain rv d where u: "remove_process_by_stream L sid w = (Returned rv, w\<lparr>w_db := d\<rparr>)"
    and d: "docs d = docs (w_db w) \<and> \<not> driver_ok L (cache_coll w) \<or>
      (\<exists>x. x \<in># docs (w_db w) (cache_coll w) \<and> doc_str x ''sid'' = c_str sid \<and>
         docs d = (docs (w_db w))(cache_coll w := docs (w_db w) (cache_coll w) - {#x#}))"
    using remove_stream[OF lib_lawsD(4)[OF assms(1)] assms(2), of sid] assms(3) unfolding docs_ok_def by blast
  have "docs_ok docs (w\<lparr>w_db := d\<rparr>)" using d assms(3) by (auto simp: docs_ok_def dest!: in_diffD)
  moreover have "cached_in docs d w = ss_cache (abs_state docs w) \<and> \<not> driver_ok L (cache_coll w) \<or>
      (\<exists>i. i \<in># ss_cache (abs_state docs w) \<and> pi_sid i = c_str sid \<and>
           cached_in docs d w = ss_cache (abs_state docs w) - {#i#})"
    using d
  proof (elim disjE exE conjE)
    fix x assume "x \<in># docs (w_db w) (cache_coll w)" "doc_str x ''sid'' = c_str sid"
      "docs d = (docs (w_db w))(cache_coll w := docs (w_db w) (cache_coll w) - {#x#})"
    then show ?thesis by (intro disjI2 exI[of _ "info_of x"]) (simp add: cached_in_def image_mset_Diff info_of_sel)
  qed (simp add: cached_in_def)
  ultimately show thesis using u that by blast
qed

text \<open>
  The fork and the insert of a creation. They run, and the server stays well, whether or not
  the stream is cached by then.
\<close>

lemma spawn_fork_runs:
  assumes "lib_laws L docs" "server_ok L docs w" and f: "fork_spec p (abs_state docs w) = (r, t)"
  obtains (failed) "r < 0" "spawn_fork L p w = (Returned (err REC_ERROR_FORK_FAILED), forked t w)"
      "abs_state docs (forked t w) = t"
    | (inserted) d where "0 \<le> r" "spawn_fork L p w = (Returned (err ERROR_OK), (forked t w)\<lparr>w_db := d\<rparr>)"
      "abs_state docs ((forked t w)\<lparr>w_db := d\<rparr>) = t\<lparr>ss_cache := cached_in docs d w\<rparr>"
      "docs_ok docs ((forked t w)\<lparr>w_db := d\<rparr>)"
      "cached_in docs d w = ss_cache (abs_state docs w) \<and> \<not> driver_ok L (cache_coll w) \<or>
       cached_in docs d w = add_mset (stream_entry p r (w_self w)) (ss_cache (abs_state docs w))"
proof -
  from sys_fork_forked[OF f] have fk: "sys_fork (ffmpeg_child p) w = (Returned r, forked t w)"
    and t: "abs_state docs (forked t w) = t" by simp_all
  let ?i = "p\<lparr>pi_pid := Some r\<rparr>" and ?w = "forked t w"
  have e: "stream_entry ?i r (w_self w) = stream_entry p r (w_self w)" "ss_cache t = ss_cache (abs_state docs w)"
    using fork_spec_sel[OF f] by (simp_all add: stream_entry_def)
  obtain rv d where i: "add_process_to_cache L ?i ?w = (Returned rv, ?w\<lparr>w_db := d\<rparr>)"
    and dok: "docs_ok docs (?w\<lparr>w_db := d\<rparr>)"
    and d: "cached_in docs d w = ss_cache t \<and> \<not> driver_ok L (cache_coll w) \<or>
      cached_in docs d w = add_mset (stream_entry ?i r (w_self w)) (ss_cache t)"
    by (rule insert_cached[OF assms(1), of ?w ?i r])
      (use docs_ok_server[OF assms(2)] server_cache_up[OF assms(2)] t in simp_all)
  show thesis
  proof (cases "r < 0")
    case True
    then show thesis using t
      by (intro failed) (simp_all add: spawn_fork_def bindP_Returned[where m = "sys_fork _", OF fk] ret_def)
  next
    case False
    then have "spawn_fork L p w = (Returned (err ERROR_OK), ?w\<lparr>w_db := d\<rparr>)"
      by (simp add: spawn_fork_def bindP_Returned[where m = "sys_fork _", OF fk]
          bindP_Returned[where m = "add_process_to_cache _ _", OF i] ret_def)
    moreover have "abs_state docs (?w\<lparr>w_db := d\<rparr>) = t\<lparr>ss_cache := cached_in docs d w\<rparr>"
      unfolding abs_cached t by simp
    ultimately show thesis using False dok d unfolding e by (intro inserted) simp_all
  qed
qed

lemma spawn_fork_keeps:
  assumes "lib_laws L docs" "server_ok L docs w"
  obtains rv w' where "spawn_fork L p w = (Returned rv, w')" "server_ok L docs w'" "w_workers w' = w_workers w"
    "cache_coll w' = cache_coll w" "w_max w' = w_max w" "w_index w' = w_index w"
    "cached_sids (abs_state docs w') \<subseteq># add_mset (c_str (pi_sid p)) (cached_sids (abs_state docs w))"
proof -
  obtain r t where f: "fork_spec p (abs_state docs w) = (r, t)" by fastforce
  have snd: "sound_pids (abs_state docs w)" "w_chld_ignored w" "cache_up L w" "docs_ok docs w"
    using assms(2) by (simp_all add: server_ok_def docs_ok_def)
  note t = fork_spec_sound[OF f snd(1)] fork_spec_sel[OF f]
  have ok: "server_ok L docs v" if "cache_up L v" "w_chld_ignored v" "docs_ok docs v" "sound_pids (abs_state docs v)" for v
    using that by (simp add: server_ok_def docs_ok_def)
  from assms f show thesis
  proof (cases rule: spawn_fork_runs)
    case failed
    then show thesis using snd t by (intro that[OF failed(2)]) (simp_all add: ok cached_sids_def)
  next
    case (inserted d)
    have "sound_pids (t\<lparr>ss_cache := cached_in docs d w\<rparr>)"
      using inserted(5)
    proof (elim disjE conjE)
      assume "cached_in docs d w = ss_cache (abs_state docs w)"
      then show ?thesis using sound_pids_sub[OF t(1), of "ss_cache t"] t(2) by simp
    next
      assume c: "cached_in docs d w = add_mset (stream_entry p r (w_self w)) (ss_cache (abs_state docs w))"
      show ?thesis unfolding c
        by (rule sound_pids_fork_add[OF f inserted(1) snd(1)]) (simp_all add: stream_entry_def)
    qed
    moreover have "cached_sids (t\<lparr>ss_cache := cached_in docs d w\<rparr>) \<subseteq>#
        add_mset (c_str (pi_sid p)) (cached_sids (abs_state docs w))"
      using inserted(5) by (auto simp: cached_sids_def stream_entry_def)
    ultimately show thesis using snd inserted
      by (intro that[OF inserted(2)]) (simp_all add: ok)
  qed
qed

lemma spawn_fork_simulates:
  assumes "lib_laws L docs" "server_ok L docs w"
    and "c_str (pi_sid p) \<notin># cached_sids (abs_state docs w)"
  shows "simulates L docs \<lparr>ev_process = p, ev_type = EV_CREATE_PROCESS\<rparr> w (spawn_fork L p w)"
proof -
  let ?ev = "\<lparr>ev_process = p, ev_type = EV_CREATE_PROCESS\<rparr>" and ?a = "abs_state docs w"
    and ?acc = "driver_ok L (cache_coll w)"
  obtain r t where f: "fork_spec p ?a = (r, t)" by fastforce
  note ok = docs_ok_server[OF assms(2)] and up = server_cache_up[OF assms(2)]
  from assms(1,2) f show ?thesis
  proof (cases rule: spawn_fork_runs)
    case failed
    have "stream_step ?acc ?ev ?a (err REC_ERROR_FORK_FAILED) (abs_state docs (forked t w))"
      unfolding failed(3) by (rule stream_step.create_nofork) (use assms(3) f failed(1) in simp_all)
    then show ?thesis using ok up by (intro simulatesI[OF assms(2) failed(2)]) simp_all
  next
    case (inserted d)
    have "stream_step ?acc ?ev ?a (err ERROR_OK) (t\<lparr>ss_cache := cached_in docs d w\<rparr>)"
      using inserted(5)
    proof (elim disjE conjE)
      assume "cached_in docs d w = ss_cache ?a" "\<not> ?acc"
      moreover from this have "t\<lparr>ss_cache := cached_in docs d w\<rparr> = t" using fork_spec_sel[OF f] by simp
      ultimately show ?thesis using assms(3) f inserted(1) by (simp add: stream_step.create_lost del: err.simps)
    next
      assume c: "cached_in docs d w = add_mset (stream_entry p r (w_self w)) (ss_cache ?a)"
      have e: "stream_entry p r (w_self w) = stream_entry (ev_process ?ev) r (ss_self ?a)" by simp
      show ?thesis unfolding c e by (rule stream_step.create_new) (use assms(3) f inserted(1) in simp_all)
    qed
    then have "stream_step ?acc ?ev ?a (err ERROR_OK) (abs_state docs ((forked t w)\<lparr>w_db := d\<rparr>))"
      unfolding inserted(3) .
    with up inserted(4) show ?thesis by (intro simulatesI[OF assms(2) inserted(2)]) simp_all
  qed
qed

text \<open>What \<open>lookup_stream\<close> says, for the four functions that call it.\<close>

lemma find_stream:
  assumes "lib_laws L docs" "server_ok L docs w"
  obtains (none) item where "s \<notin># cached_sids (abs_state docs w)"
      "lookup_one L MONGODB_COLLECTION_PROCESS [(''sid'', Utf8 s)] w =
         (Returned (err REC_ERROR_PORCESS_INFO_NONE, item), w\<lparr>w_cursors := w_cursors w + 1\<rparr>)"
    | (some) item x where "x \<in># docs (w_db w) (cache_coll w)" "doc_str x ''sid'' = s"
      "\<And>info. parser L item info = (err ERROR_OK, info_of x)"
      "lookup_one L MONGODB_COLLECTION_PROCESS [(''sid'', Utf8 s)] w =
         (Returned (err ERROR_OK, item), w\<lparr>w_cursors := w_cursors w + 1\<rparr>)"
  using lookup_stream[OF assms, of s] by blast

lemma spawn_process_simulates:
  assumes "lib_laws L docs" "server_ok L docs w"
  shows "simulates L docs \<lparr>ev_process = p, ev_type = EV_CREATE_PROCESS\<rparr> w (spawn_process L p w)"
  using assms
proof (cases rule: find_stream[where s = "c_str (pi_sid p)"])
  case (none item)
  then have "spawn_process L p w = spawn_fork L p (w\<lparr>w_cursors := w_cursors w + 1\<rparr>)"
    by (simp add: spawn_process_def is_process_exist_sid_def bindP_def ret_def)
  with spawn_fork_simulates[OF assms(1), of "w\<lparr>w_cursors := w_cursors w + 1\<rparr>" p] assms(2) none(1)
  show ?thesis by simp
next
  case (some item x)
  then have "c_str (pi_sid p) \<in># cached_sids (abs_state docs w)" by (auto simp: cached_sids_abs)
  then have st: "stream_step (driver_ok L (cache_coll w)) \<lparr>ev_process = p, ev_type = EV_CREATE_PROCESS\<rparr> (abs_state docs w)
      (err ERROR_STREAM_EXIST) (abs_state docs (w\<lparr>w_cursors := w_cursors w + 1\<rparr>))"
    by (simp add: stream_step.create_dup del: err.simps)
  have res: "spawn_process L p w =
      (Returned (err ERROR_STREAM_EXIST), w\<lparr>w_cursors := w_cursors w + 1\<rparr>)"
    by (simp add: spawn_process_def is_process_exist_sid_def bindP_def some(3,4) ret_def)
  show ?thesis
    using docs_ok_server[OF assms(2)] server_cache_up[OF assms(2)]
    by (intro simulatesI[OF assms(2) res st]) (simp_all add: docs_ok_def)
qed

text \<open>A reload that forked, and a removal, whose write may have been lost.\<close>

lemma reload_write_step:
  assumes ev: "ev_type ev = EV_RELOAD_PROCESS" and x: "i \<in># ss_cache a" "pi_sid i = c_str (pi_sid (ev_process ev))"
    and f: "fork_spec i a = (r, t)" "0 \<le> r"
    and d: "c = ss_cache a \<and> \<not> acc \<or>
      (\<exists>j. j \<in># ss_cache a \<and> pi_sid j = pi_sid i \<and> c = add_mset (j\<lparr>pi_pid := Some r\<rparr>) (ss_cache a - {#j#}))"
  shows "stream_step acc ev a (err ERROR_OK) (t\<lparr>ss_cache := c\<rparr>)"
  using d
proof (elim disjE exE conjE)
  assume c: "c = ss_cache a" "\<not> acc"
  then have "t\<lparr>ss_cache := c\<rparr> = t" using fork_spec_sel[OF f(1)] by simp
  then show ?thesis using stream_step.reload_lost[OF c(2) ev x f] by simp
next
  fix j assume j: "j \<in># ss_cache a" "pi_sid j = pi_sid i" "c = add_mset (j\<lparr>pi_pid := Some r\<rparr>) (ss_cache a - {#j#})"
  show ?thesis unfolding j(3) by (rule stream_step.reload_new[OF ev x f j(1,2)])
qed

lemma remove_write_step:
  assumes ev: "ev_type ev = EV_REMOVE_PROCESS" and x: "i \<in># ss_cache a" "pi_sid i = c_str (pi_sid (ev_process ev))"
    "pi_pid i = Some pid"
    and d: "c = ss_cache a \<and> \<not> acc \<or> (\<exists>j. j \<in># ss_cache a \<and> pi_sid j = pi_sid i \<and> c = ss_cache a - {#j#})"
  shows "stream_step acc ev a (err ERROR_OK) (kill_spec pid (a\<lparr>ss_cache := c\<rparr>))"
  using d
proof (elim disjE exE conjE)
  assume "c = ss_cache a" "\<not> acc"
  then show ?thesis using stream_step.remove_lost[OF _ ev x] by simp
next
  fix j assume j: "j \<in># ss_cache a" "pi_sid j = pi_sid i" "c = ss_cache a - {#j#}"
  show ?thesis unfolding j(3) by (rule stream_step.remove_one[OF ev x j(1,2)])
qed

lemma respawn_simulates:
  assumes "lib_laws L docs" "server_ok L docs w"
    and "x \<in># docs (w_db w) (cache_coll w)" "doc_str x ''sid'' = c_str sid"
    and ev: "ev_type ev = EV_RELOAD_PROCESS" "pi_sid (ev_process ev) = sid"
  shows "simulates L docs ev w
           (bindP (spawn_process_i L (info_of x)) (\<lambda>_. ret (err ERROR_OK)) w)"
proof -
  let ?a = "abs_state docs w" and ?i = "info_of x" and ?acc = "driver_ok L (cache_coll w)"
  have x: "?i \<in># ss_cache ?a" "pi_sid ?i = c_str (pi_sid (ev_process ev))"
    using assms(3,4) ev by (simp_all add: info_of_sel)
  obtain r t where f: "fork_spec ?i ?a = (r, t)" by fastforce
  from sys_fork_forked[OF f] have fk: "sys_fork (ffmpeg_child ?i) w = (Returned r, forked t w)"
    and t: "abs_state docs (forked t w) = t" by simp_all
  note ok = docs_ok_server[OF assms(2)] and up = server_cache_up[OF assms(2)]
  show ?thesis
  proof (cases "r < 0")
    case True
    then have res: "bindP (spawn_process_i L ?i) (\<lambda>_. ret (err ERROR_OK)) w = (Returned (err ERROR_OK), forked t w)"
      by (simp add: spawn_process_i_def bindP_assoc bindP_Returned[where m = "sys_fork _", OF fk] ret_def)
    have "stream_step ?acc ev ?a (err ERROR_OK) (abs_state docs (forked t w))"
      unfolding t using ev(1) x f True by (rule stream_step.reload_nofork)
    then show ?thesis using ok up by (intro simulatesI[OF assms(2) res]) simp_all
  next
    case False
    let ?p = "?i\<lparr>pi_pid := Some r\<rparr>" and ?w = "forked t w"
    have sid: "pi_sid ?i = c_str (pi_sid ?p)" and tc: "ss_cache t = ss_cache ?a"
      using assms(4) fork_spec_sel[OF f] by (simp_all add: info_of_sel)
    have w: "cache_up L ?w" "docs_ok docs ?w" "pi_pid ?p = Some r" "?i \<in># ss_cache (abs_state docs ?w)"
      using up ok x(1) by (simp_all add: t tc)
    obtain rv d where u: "update_process_info L ?p ?w = (Returned rv, ?w\<lparr>w_db := d, w_bsons := w_bsons ?w + 1\<rparr>)"
      and dok: "docs_ok docs (?w\<lparr>w_db := d\<rparr>)"
      and d: "cached_in docs d ?w = ss_cache (abs_state docs ?w) \<and> \<not> driver_ok L (cache_coll ?w) \<or>
        (\<exists>i. i \<in># ss_cache (abs_state docs ?w) \<and> pi_sid i = c_str (pi_sid ?p) \<and>
             cached_in docs d ?w = add_mset (i\<lparr>pi_pid := Some r\<rparr>) (ss_cache (abs_state docs ?w) - {#i#}))"
      by (rule update_cached[OF assms(1) w sid])
    have res: "bindP (spawn_process_i L ?i) (\<lambda>_. ret (err ERROR_OK)) w =
        (Returned (err ERROR_OK), ?w\<lparr>w_db := d, w_bsons := w_bsons ?w + 1\<rparr>)"
      using False
      by (simp add: spawn_process_i_def bindP_assoc bindP_Returned[where m = "sys_fork _", OF fk]
          bindP_Returned[where m = "update_process_info _ _", OF u] ret_def)
    have "stream_step ?acc ev ?a (err ERROR_OK) (t\<lparr>ss_cache := cached_in docs d w\<rparr>)"
    proof (rule reload_write_step[OF ev(1) x f])
      show "0 \<le> r" using False by simp
    qed (use d in \<open>unfold t cached_in_forked forked_sel tc sid[symmetric]\<close>)
    then have st: "stream_step ?acc ev ?a (err ERROR_OK) (abs_state docs (?w\<lparr>w_db := d, w_bsons := w_bsons ?w + 1\<rparr>))"
      using abs_cached[of docs d ?w] t by simp
    with up dok show ?thesis by (intro simulatesI[OF assms(2) res st]) (simp_all add: docs_ok_def)
  qed
qed

lemma process_reload_simulates:
  assumes "lib_laws L docs" "server_ok L docs w"
    and ev: "ev_type ev = EV_RELOAD_PROCESS" "pi_sid (ev_process ev) = sid"
  shows "simulates L docs ev w (process_reload L sid w)"
  using assms(1,2)
proof (cases rule: find_stream[where s = "c_str sid"])
  case (none item)
  then have res: "process_reload L sid w =
      (Returned (err REC_ERROR_STREAM_NOT_EXIST), w\<lparr>w_cursors := w_cursors w + 1\<rparr>)"
    by (simp add: process_reload_def is_process_exist_sid_def bindP_def ret_def)
  have st: "stream_step (driver_ok L (cache_coll w)) ev (abs_state docs w) (err REC_ERROR_STREAM_NOT_EXIST)
      (abs_state docs (w\<lparr>w_cursors := w_cursors w + 1\<rparr>))"
    using none(1) ev by (simp add: stream_step.reload_none del: err.simps)
  show ?thesis
    using docs_ok_server[OF assms(2)] server_cache_up[OF assms(2)]
    by (intro simulatesI[OF assms(2) res st]) (simp_all add: docs_ok_def)
next
  case (some item x)
  let ?w = "w\<lparr>w_cursors := w_cursors w + 1\<rparr>"
  have "process_reload L sid w = bindP (spawn_process_i L (info_of x)) (\<lambda>_. ret (err ERROR_OK)) ?w"
    by (simp add: process_reload_def is_process_exist_sid_def bindP_assoc
        bindP_Returned[where m = "lookup_one _ _ _", OF some(4)] some(3))
  with respawn_simulates[OF assms(1) _ _ _ ev, of ?w x] assms(2) some(1,2) show ?thesis by simp
qed

lemma child_exits_filter:
  assumes "sound_pids (abs_state docs w)" "w_chld_ignored w"
  shows "child_exits pid w = w\<lparr>w_procs := filter (\<lambda>p. pr_pid p \<noteq> pid) (w_procs w)\<rparr>"
    and "abs_state docs (child_exits pid w) = kill_spec pid (abs_state docs w)"
proof -
  have nz: "\<forall>p\<in>set (w_procs w). pr_image p \<noteq> Zombie"
    using assms(1) by (simp add: sound_pids_def)
  have "concat (map (\<lambda>p. if pr_pid p = pid then after_death w p else [p]) ps) =
      filter (\<lambda>p. pr_pid p \<noteq> pid) ps" if "\<forall>p\<in>set ps. pr_image p \<noteq> Zombie" for ps
    using that assms(2) by (induction ps) (auto simp: after_death_def split: image.splits)
  with nz show f: "child_exits pid w = w\<lparr>w_procs := filter (\<lambda>p. pr_pid p \<noteq> pid) (w_procs w)\<rparr>"
    by (simp add: child_exits_def)
  show "abs_state docs (child_exits pid w) = kill_spec pid (abs_state docs w)"
    unfolding f by (simp add: kill_spec_def)
qed

lemma kill_abs:
  assumes "sound_pids (abs_state docs w)" "w_chld_ignored w" "0 < pid" "pid \<noteq> w_self w"
  shows "\<exists>r v. sys_kill pid SIGKILL w = (Returned r, v) \<and> abs_state docs v = kill_spec pid (abs_state docs w) \<and>
           cache_coll v = cache_coll w \<and> cache_up L v = cache_up L w \<and> w_db v = w_db w \<and>
           w_chld_ignored v = w_chld_ignored w \<and> w_workers v = w_workers w \<and> w_max v = w_max w \<and> w_index v = w_index w"
proof -
  obtain r where "sys_kill pid SIGKILL w = (Returned r, child_exits pid w)"
    using kill_child[OF assms(3,4), of SIGKILL] by (auto simp: SIGKILL_def)
  then show ?thesis using child_exits_filter[OF assms(1,2), of pid] by (simp add: kill_spec_def)
qed

lemma remove_process_simulates:
  assumes "lib_laws L docs" "server_ok L docs w"
  shows "simulates L docs \<lparr>ev_process = p, ev_type = EV_REMOVE_PROCESS\<rparr> w (remove_process L p w)"
  using assms(1,2)
proof (cases rule: find_stream[where s = "c_str (pi_sid p)"])
  case (none item)
  then have res: "remove_process L p w =
      (Returned (err REC_ERROR_STREAM_NOT_EXIST), w\<lparr>w_cursors := w_cursors w + 1\<rparr>)"
    by (simp add: remove_process_def get_process_info_def bindP_def ret_def)
  have st: "stream_step (driver_ok L (cache_coll w)) \<lparr>ev_process = p, ev_type = EV_REMOVE_PROCESS\<rparr> (abs_state docs w)
      (err REC_ERROR_STREAM_NOT_EXIST) (abs_state docs (w\<lparr>w_cursors := w_cursors w + 1\<rparr>))"
    using none(1) by (simp add: stream_step.remove_none del: err.simps)
  show ?thesis
    using docs_ok_server[OF assms(2)] server_cache_up[OF assms(2)]
    by (intro simulatesI[OF assms(2) res st]) (simp_all add: docs_ok_def)
next
  case (some item x)
  let ?ev = "\<lparr>ev_process = p, ev_type = EV_REMOVE_PROCESS\<rparr>" and ?a = "abs_state docs w"
    and ?acc = "driver_ok L (cache_coll w)"
  let ?w = "w\<lparr>w_cursors := w_cursors w + 1\<rparr>" and ?pid = "doc_int x ''pid''"
  have x: "info_of x \<in># ss_cache ?a" "pi_sid (info_of x) = c_str (pi_sid (ev_process ?ev))"
    "pi_pid (info_of x) = Some ?pid" using some(1,2) by (simp_all add: info_of_sel)
  note ok = docs_ok_server[OF assms(2)] and up = server_cache_up[OF assms(2)]
  have sid: "pi_sid (info_of x) = c_str (doc_str x ''sid'')" using some(2) by (simp add: info_of_sel)
  have w: "cache_up L ?w" "docs_ok docs ?w" "info_of x \<in># ss_cache (abs_state docs ?w)"
    using up ok x(1) by (simp_all add: docs_ok_def)
  obtain rv d where rm: "remove_process_by_stream L (doc_str x ''sid'') ?w = (Returned rv, ?w\<lparr>w_db := d\<rparr>)"
    and dok: "docs_ok docs (?w\<lparr>w_db := d\<rparr>)"
    and d: "cached_in docs d ?w = ss_cache (abs_state docs ?w) \<and> \<not> driver_ok L (cache_coll ?w) \<or>
      (\<exists>i. i \<in># ss_cache (abs_state docs ?w) \<and> pi_sid i = c_str (doc_str x ''sid'') \<and>
           cached_in docs d ?w = ss_cache (abs_state docs ?w) - {#i#})"
    by (rule remove_cached[OF assms(1) w sid])
  let ?v = "?w\<lparr>w_db := d\<rparr>" and ?c = "cached_in docs d ?w"
  have v: "abs_state docs ?v = ?a\<lparr>ss_cache := ?c\<rparr>" using abs_cached[of docs d ?w] by simp
  have c: "?c = ss_cache ?a \<and> \<not> ?acc \<or> (\<exists>i. i \<in># ss_cache ?a \<and> pi_sid i = pi_sid (info_of x) \<and> ?c = ss_cache ?a - {#i#})"
    using d unfolding sid by simp
  have pid: "0 < ?pid" "?pid \<noteq> w_self w" and snd: "sound_pids ?a"
    using assms(2) x(1,3) by (auto simp: server_ok_def sound_pids_def own_pid_def split: option.splits)
  have "?c \<subseteq># ss_cache ?a" using c by auto
  with snd have "sound_pids (abs_state docs ?v)" unfolding v by (rule sound_pids_sub)
  then obtain k u where k: "sys_kill ?pid SIGKILL ?v = (Returned k, u)"
    and u: "abs_state docs u = kill_spec ?pid (abs_state docs ?v)" "cache_coll u = cache_coll w"
      "cache_up L u" "w_db u = d" "w_chld_ignored u = w_chld_ignored w" "w_workers u = w_workers w"
      "w_max u = w_max w" "w_index u = w_index w"
    using kill_abs[of docs ?v ?pid L] pid assms(2) by (auto simp: server_ok_def)
  have res: "remove_process L p w = (Returned (err ERROR_OK), u)"
    by (simp add: remove_process_def get_process_info_def bindP_assoc
        bindP_Returned[where m = "lookup_one _ _ _", OF some(4)] some(3) info_of_sel
        bindP_Returned[where m = "remove_process_by_stream _ _", OF rm] read_int_def
        bindP_Returned[where m = "sys_kill _ _", OF k] ret_def)
  have st: "stream_step ?acc ?ev ?a (err ERROR_OK) (abs_state docs u)"
    unfolding u(1) v by (rule remove_write_step[OF _ x c]) simp
  have "docs_ok docs u" using dok u(2,4) by (simp add: docs_ok_def)
  with u show ?thesis by (intro simulatesI[OF assms(2) res st])
qed

end
