(* ===== verification/Pool.thy ===== *)
theory Pool
  imports Refinement
begin

text \<open>
  A worker draining its queue against the specification: one pass handles the events in
  order, each as a step of \<open>StreamSpec\<close>; the properties of the stream operations; and what
  happens when two workers, or a worker and the schedule thread, run at the same time.
\<close>

section \<open>A worker and its queue\<close>

definition worker_ready :: "WorkerContext \<Rightarrow> bool" where
  "worker_ready c \<longleftrightarrow>
     fn_spawn c = SpawnProcess \<and> fn_remove c = RemoveProcess \<and> fn_reload c = ProcessReload \<and>
     fn_terminate c = TerminateProcess \<and> wc_running c"

lemma worker_ready_new [simp]: "worker_ready (new_context i)"
  by (simp add: worker_ready_def new_context_def WorkerContext_new_def)

lemma new_context_queue [simp]: "wc_queue (new_context i) = []"
  by (simp add: new_context_def)

lemma worker_ready_queue [simp]: "worker_ready (c\<lparr>wc_queue := q\<rparr>) = worker_ready c"
  by (simp add: worker_ready_def)

lemma event_eta: "ev_type ev = e \<Longrightarrow> \<lparr>ev_process = ev_process ev, ev_type = e\<rparr> = ev"
  by (cases ev) auto

lemma worker_switch_simulates:
  assumes "lib_laws L docs" "server_ok L docs w" "worker_ready ctx"
    and "ev_type ev \<noteq> EV_TERMINATE_PROCESS"
  shows "\<exists>rv w'. worker_switch L ctx ev w = (Returned (), w') \<and>
           stream_step (driver_ok L (cache_coll w)) ev (abs_state docs w) rv (abs_state docs w') \<and> server_ok L docs w' \<and>
           w_workers w' = w_workers w \<and> cache_coll w' = cache_coll w \<and> w_max w' = w_max w \<and> w_index w' = w_index w"
proof -
  have fin: "\<exists>rv w'. bindP m (\<lambda>_. ret ()) w = (Returned (), w') \<and>
      stream_step (driver_ok L (cache_coll w)) ev (abs_state docs w) rv (abs_state docs w') \<and> server_ok L docs w' \<and>
      w_workers w' = w_workers w \<and> cache_coll w' = cache_coll w \<and> w_max w' = w_max w \<and> w_index w' = w_index w" if sim: "simulates L docs ev w (m w)" for m :: "('a world, int) prog"
  proof -
    obtain r v where "m w = (r, v)" by fastforce
    with sim show ?thesis by (auto simp: simulates_def bindP_def ret_def)
  qed
  show ?thesis
  proof (cases "ev_type ev")
    case EV_CREATE_PROCESS
    with fin[of "spawn_process L (ev_process ev)"]
      spawn_process_simulates[OF assms(1,2), of "ev_process ev"] assms(3)
    show ?thesis by (simp add: worker_switch_def call_info_fn_def worker_ready_def event_eta)
  next
    case EV_RELOAD_PROCESS
    with fin[of "process_reload L (pi_sid (ev_process ev))"]
      process_reload_simulates[OF assms(1,2), of ev] assms(3)
    show ?thesis by (simp add: worker_switch_def call_sid_fn_def worker_ready_def)
  next
    case EV_REMOVE_PROCESS
    with fin[of "remove_process L (ev_process ev)"]
      remove_process_simulates[OF assms(1,2), of "ev_process ev"] assms(3)
    show ?thesis by (simp add: worker_switch_def call_info_fn_def worker_ready_def event_eta)
  next
    case EV_TERMINATE_PROCESS
    with assms(4) show ?thesis by simp
  qed
qed

lemma worker_step_simulates:
  assumes "lib_laws L docs" "server_ok L docs w" "worker_ready (w_workers w ! i)"
    and "wc_queue (w_workers w ! i) = ev # q" "ev_type ev \<noteq> EV_TERMINATE_PROCESS"
  shows "\<exists>rv w'. worker_step L i w = (Returned (), w') \<and>
           stream_step (driver_ok L (cache_coll w)) ev (abs_state docs w) rv (abs_state docs w') \<and> server_ok L docs w' \<and>
           w_workers w' = (w_workers w)[i := (w_workers w ! i)\<lparr>wc_queue := q\<rparr>] \<and>
           cache_coll w' = cache_coll w \<and> w_max w' = w_max w \<and> w_index w' = w_index w"
proof -
  obtain rv v where v: "worker_switch L (w_workers w ! i) ev w = (Returned (), v)"
    "stream_step (driver_ok L (cache_coll w)) ev (abs_state docs w) rv (abs_state docs v)" "server_ok L docs v"
    "w_workers v = w_workers w" "cache_coll v = cache_coll w" "w_max v = w_max w" "w_index v = w_index w"
    using worker_switch_simulates[OF assms(1,2,3,5)] by blast
  then show ?thesis
    using assms(4)
    by (auto simp: worker_step_def Let_def bindP_Returned[where m = "worker_switch _ _ _", OF v(1)]
        pop_queue_def modP_def)
qed

lemma worker_drain_simulates:
  assumes "lib_laws L docs" "server_ok L docs w" "i < length (w_workers w)"
    and "worker_ready (w_workers w ! i)" "wc_queue (w_workers w ! i) = q"
    and "\<forall>ev\<in>set q. ev_type ev \<noteq> EV_TERMINATE_PROCESS"
  shows "\<exists>w'. worker_drain L i (length q) w = (Returned (), w') \<and>
           stream_run (driver_ok L (cache_coll w)) q (abs_state docs w) (abs_state docs w') \<and> server_ok L docs w' \<and>
           w_workers w' = (w_workers w)[i := (w_workers w ! i)\<lparr>wc_queue := []\<rparr>]"
  using assms(2-)
proof (induction q arbitrary: w)
  case Nil
  then have "(w_workers w ! i)\<lparr>wc_queue := []\<rparr> = w_workers w ! i" by simp
  then have "(w_workers w)[i := (w_workers w ! i)\<lparr>wc_queue := []\<rparr>] = w_workers w"
    by (metis list_update_id)
  with Nil show ?case by (simp del: list_update_id)
next
  case (Cons ev q)
  have t: "ev_type ev \<noteq> EV_TERMINATE_PROCESS" using Cons.prems(5) by simp
  obtain rv v where v: "worker_step L i w = (Returned (), v)"
    "stream_step (driver_ok L (cache_coll w)) ev (abs_state docs w) rv (abs_state docs v)" "server_ok L docs v"
    "w_workers v = (w_workers w)[i := (w_workers w ! i)\<lparr>wc_queue := q\<rparr>]" "cache_coll v = cache_coll w"
    using worker_step_simulates[OF assms(1) Cons.prems(1,3,4) t] by blast
  have "\<exists>w'. worker_drain L i (length q) v = (Returned (), w') \<and>
      stream_run (driver_ok L (cache_coll v)) q (abs_state docs v) (abs_state docs w') \<and> server_ok L docs w' \<and>
      w_workers w' = (w_workers v)[i := (w_workers v ! i)\<lparr>wc_queue := []\<rparr>]"
    using v Cons.prems by (intro Cons.IH) simp_all
  then show ?case
    using v Cons.prems(2,4) by (auto simp: bindP_Returned[where m = "worker_step _ _", OF v(1)])
qed

section \<open>Properties of the stream operations\<close>

text \<open>
  C1 (a worker implements the specification). A pass of a ready worker over a queue of
  create, reload and remove events returns: as many iterations as there are events are
  enough. It takes exactly the specification's steps for these events, in the order of the
  queue, leaves its queue empty and every other context alone, and the server stays in a
  state in which this holds again.
\<close>

theorem worker_round_refines:
  assumes "lib_laws L docs" "server_ok L docs w" "i < length (w_workers w)"
    and "worker_ready (w_workers w ! i)"
    and "\<forall>ev\<in>set (wc_queue (w_workers w ! i)). ev_type ev \<noteq> EV_TERMINATE_PROCESS"
  shows "\<exists>w'. worker_round L i w = (Returned (), w') \<and>
           stream_run (driver_ok L (cache_coll w)) (wc_queue (w_workers w ! i)) (abs_state docs w) (abs_state docs w') \<and>
           server_ok L docs w' \<and>
           w_workers w' = (w_workers w)[i := (w_workers w ! i)\<lparr>wc_queue := []\<rparr>]"
  using worker_drain_simulates[OF assms(1-4) refl assms(5)] assms(3,4)
  by (simp add: worker_round_def worker_ready_def)

lemma mem_world_up: "cache_up mem_lib (mem_world n d)" "hosts_up mem_lib (mem_world n d)"
  by (simp_all add: cache_up_def hosts_up_def db_up_def mem_lib_def mem_world_def c_str_def NUL_def)

lemma mem_driver_ok: "driver_ok mem_lib c"
  by (simp add: driver_ok_def mem_lib_def)

lemma mem_world_ok: "server_ok mem_lib mem_docs (mem_world n [])"
  unfolding server_ok_def by (intro conjI, rule mem_world_up) (simp_all add: sound_pids_def mem_world_def)

text \<open>A server of one worker whose queue is \<open>q\<close>.\<close>

definition mem_busy :: "rec_event list \<Rightarrow> mem_db world" where
  "mem_busy q = (mem_world 1 [])\<lparr>w_workers := [(new_context 0)\<lparr>wc_queue := q\<rparr>]\<rparr>"

lemma mem_busy_ok:
  "server_ok mem_lib mem_docs (mem_busy q)" "0 < length (w_workers (mem_busy q))"
  "worker_ready (w_workers (mem_busy q) ! 0)" "wc_queue (w_workers (mem_busy q) ! 0) = q"
  using mem_world_ok[of 1] by (simp_all add: mem_busy_def)

theorem worker_round_refines_witness:
  "\<exists>w'. worker_round mem_lib 0 (mem_busy [create_event ''a'' ''s'' ''d'' ''x'' 0, remove_event ''x'']) =
          (Returned (), w') \<and>
        stream_run True [create_event ''a'' ''s'' ''d'' ''x'' 0, remove_event ''x'']
          (abs_state mem_docs (mem_busy [create_event ''a'' ''s'' ''d'' ''x'' 0, remove_event ''x'']))
          (abs_state mem_docs w')"
  using worker_round_refines[OF mem_lib_laws mem_busy_ok(1,2,3),
      of "[create_event ''a'' ''s'' ''d'' ''x'' 0, remove_event ''x'']"]
  by (auto simp: mem_busy_ok mem_driver_ok create_event_def remove_event_def)

text \<open>
  No stream is cached twice. As long as only one worker runs, a pass over any queue of
  create, reload and remove events keeps the stream ids of the cache distinct.
\<close>

theorem worker_round_unique_sids:
  assumes "lib_laws L docs" "server_ok L docs w" "i < length (w_workers w)"
    and "worker_ready (w_workers w ! i)"
    and "\<forall>ev\<in>set (wc_queue (w_workers w ! i)). ev_type ev \<noteq> EV_TERMINATE_PROCESS"
    and "\<forall>sid. count (cached_sids (abs_state docs w)) sid \<le> 1"
    and "worker_round L i w = (r, w')"
  shows "\<forall>sid. count (cached_sids (abs_state docs w')) sid \<le> 1"
proof -
  obtain v where v: "worker_round L i w = (Returned (), v)"
    "stream_run (driver_ok L (cache_coll w)) (wc_queue (w_workers w ! i)) (abs_state docs w) (abs_state docs v)"
    using worker_drain_simulates[OF assms(1-4) refl assms(5)] assms(3,4)
    by (auto simp: worker_round_def worker_ready_def)
  then have "unique_sids (abs_state docs v)"
    using stream_sys.rtrancl_inv[OF stream_run_steps[OF v(2)]] assms(6) by (simp add: unique_sids_def)
  with v(1) assms(7) show ?thesis by (simp add: unique_sids_def)
qed

theorem worker_round_unique_sids_witness:
  "\<forall>sid. count (cached_sids (abs_state mem_docs
     (snd (worker_round mem_lib 0 (mem_busy [create_event ''a'' ''s'' ''d'' ''x'' 0, create_event ''a'' ''s'' ''d'' ''x'' 0]))))) sid \<le> 1"
proof (rule worker_round_unique_sids)
  let ?q = "[create_event ''a'' ''s'' ''d'' ''x'' 0, create_event ''a'' ''s'' ''d'' ''x'' 0]"
  show "lib_laws mem_lib mem_docs" by (rule mem_lib_laws)
  show "server_ok mem_lib mem_docs (mem_busy ?q)" "0 < length (w_workers (mem_busy ?q))"
    "worker_ready (w_workers (mem_busy ?q) ! 0)" by (rule mem_busy_ok)+
  show "\<forall>ev\<in>set (wc_queue (w_workers (mem_busy ?q) ! 0)). ev_type ev \<noteq> EV_TERMINATE_PROCESS"
    by (simp add: mem_busy_ok create_event_def)
  show "\<forall>sid. count (cached_sids (abs_state mem_docs (mem_busy ?q))) sid \<le> 1"
    by (simp add: cached_sids_def mem_busy_def mem_world_def)
  show "worker_round mem_lib 0 (mem_busy ?q) =
      (fst (worker_round mem_lib 0 (mem_busy ?q)), snd (worker_round mem_lib 0 (mem_busy ?q)))" by simp
qed

section \<open>From a request to a process\<close>

lemma create_step_accepted:
  assumes "stream_step True ev s rv t" "ev_type ev = EV_CREATE_PROCESS"
    and "c_str (pi_sid (ev_process ev)) \<notin># cached_sids s"
    and "ss_forks s = r # rs" "0 < r" "ss_exec s"
  shows "ss_procs t = ss_procs s @ [\<lparr>pr_pid = r, pr_pgid = ss_pgid s, pr_image = Shell (ffmpeg_cmd (ev_process ev))\<rparr>] \<and>
         ss_cache t = add_mset (stream_entry (ev_process ev) r (ss_self s)) (ss_cache s) \<and> rv = err ERROR_OK"
  using assms by cases (auto simp: fork_spec_def)

text \<open>
  C2 (from a request to a process). A request to \<open>/pull/inject/start\<close> that asks for a stream not
  yet cached, followed by a pass of the worker whose queue it went to, on a server where the
  fork, the \<open>execl\<close> and the insert succeed: the reply is 200, one new child runs a shell on the
  first 2046 bytes of the \<open>ffmpeg\<close> command, into which the urls of the request are pasted as
  they are, and the cache has gained one entry for the stream, with the pid of this child.
\<close>

theorem create_request_runs_ffmpeg:
  assumes "lib_laws L docs" "server_ok L docs w" "driver_ok L (cache_coll w)" "pool_ready w"
    and "worker_ready (w_workers w ! nat (w_index w))" "wc_queue (w_workers w ! nat (w_index w)) = []"
    and "asks L ''/pull/inject/start'' (ad_host data) b (create_event (ad_host data) src dest sid ty)"
    and "c_str sid \<notin># cached_sids (abs_state docs w)" "w_forks w = r # rs" "0 < r" "w_exec_ok w"
  shows "\<exists>reply w1 w2. start L (Some data) (Some b) w = (Returned reply, w1) \<and> hr_code reply = 200 \<and>
           worker_round L (nat (w_index w)) w1 = (Returned (), w2) \<and>
           w_procs w2 = w_procs w @ [\<lparr>pr_pid = r, pr_pgid = w_pgid w,
             pr_image = Shell (take 2046 (''ffmpeg -v quiet -i '' @ c_str src @ '' -c copy -f flv '' @ c_str dest))\<rparr>] \<and>
           ss_cache (abs_state docs w2) = add_mset
             \<lparr>pi_sid = c_str sid, pi_pid = Some r, pi_ppid = Some (w_self w), pi_src_url = c_str src,
              pi_dest_url = c_str dest, pi_type = ty, pi_status = ''active'', pi_host = c_str (ad_host data)\<rparr>
             (ss_cache (abs_state docs w))"
proof -
  let ?ev = "create_event (ad_host data) src dest sid ty" and ?i = "nat (w_index w)"
  let ?w1 = "enqueue ?ev w"
  obtain reply where st: "start L (Some data) (Some b) w = (Returned reply, ?w1)" "hr_code reply = 200"
    using start_answers[OF assms(4), of "Some b" L data] assms(7)
    by (cases "start L (Some data) (Some b) w") (auto simp: answers_def asks_def create_event_def)
  have i: "?i < length (w_workers ?w1)" using assms(4) by (auto simp: pool_ready_def enqueue_sel nat_less_iff)
  have w1: "server_ok L docs ?w1" "abs_state docs ?w1 = abs_state docs w" "cache_coll ?w1 = cache_coll w"
    using assms(2) by (simp_all add: enqueue_def server_ok_def abs_state_def cache_coll_def cache_up_def)
  have q: "wc_queue (w_workers ?w1 ! ?i) = [?ev]" "worker_ready (w_workers ?w1 ! ?i)"
    using enqueue_grows[OF assms(4)] assms(5,6) i by (simp_all add: enqueue_nth enqueue_sel queue_push_def)
  have "\<forall>ev\<in>set [?ev]. ev_type ev \<noteq> EV_TERMINATE_PROCESS" by (simp add: create_event_def)
  from worker_drain_simulates[OF assms(1) w1(1) i q(2,1) this]
  obtain w2 where w2: "worker_drain L ?i (length [?ev]) ?w1 = (Returned (), w2)"
    "stream_run True [?ev] (abs_state docs w) (abs_state docs w2)"
    using assms(3) w1 by auto
  then obtain rv where step: "stream_step True ?ev (abs_state docs w) rv (abs_state docs w2)"
    by auto
  have "worker_round L ?i ?w1 = (Returned (), w2)"
    using w2(1) q i by (simp add: worker_round_def worker_ready_def)
  with st create_step_accepted[OF step] assms(8-) show ?thesis
    by (auto simp: create_event_def stream_entry_def ffmpeg_cmd_def ffmpeg_text_def snprintf_def
        FFMPEG_PARAM_MAX_LEN_def process_info_new_def)
qed

text \<open>A start request, and the streams it asks for.\<close>

definition mem_start :: "string \<Rightarrow> string \<Rightarrow> string \<Rightarrow> int \<Rightarrow> string" where
  "mem_start src dest sid ty =
     mem_body [(''src'', Utf8 src), (''dest'', Utf8 dest), (''sid'', Utf8 sid), (''type'', Int32 ty)]"

lemma mem_start_parse:
  "l_parse mem_lib (c_str (mem_start src dest sid ty)) =
     Some (Document [(''src'', Utf8 src), (''dest'', Utf8 dest), (''sid'', Utf8 sid), (''type'', Int32 ty)])"
proof -
  let ?x = "[(''src'', Utf8 src), (''dest'', Utf8 dest), (''sid'', Utf8 sid), (''type'', Int32 ty)]"
  have "dec_doc (length (enc_doc ?x)) (enc_doc ?x) = ?x" by (subst dec_enc_doc) simp_all
  then show ?thesis
    unfolding mem_start_def mem_body_def c_str_enc by (simp add: mem_lib_def mem_parse_def del: enc_doc.simps)
qed

lemma mem_fields:
  "map_of x k = Some (Utf8 s) \<Longrightarrow> str_field mem_lib (Document x) k = Some s"
  "map_of x k = Some (Int32 n) \<Longrightarrow> int_field mem_lib (Document x) k = Some n"
  by (simp_all add: str_field_def int_field_def json_string_def json_int_def
      mem_lib_def mem_member_def mem_as_string_def mem_as_int_def)

lemma mem_start_asks:
  "src \<noteq> [] \<Longrightarrow> dest \<noteq> [] \<Longrightarrow> sid \<noteq> [] \<Longrightarrow> ty = 0 \<or> ty = 1 \<Longrightarrow>
   asks mem_lib ''/pull/inject/start'' h (mem_start src dest sid ty) (create_event h src dest sid ty)"
  by (simp add: asks_def mem_start_parse mem_fields)

theorem create_request_runs_ffmpeg_witness:
  "\<exists>reply w1 w2. start mem_lib (Some \<lparr>ad_host = ''a'', ad_port = 80\<rparr>) (Some (mem_start ''s;id'' ''d'' ''x'' 0)) (mem_world 1 []) =
       (Returned reply, w1) \<and> hr_code reply = 200 \<and>
     worker_round mem_lib 0 w1 = (Returned (), w2) \<and>
     w_procs w2 = [\<lparr>pr_pid = 101, pr_pgid = 10, pr_image = Shell ''ffmpeg -v quiet -i s;id -c copy -f flv d''\<rparr>]"
proof -
  have "\<exists>reply w1 w2. start mem_lib (Some \<lparr>ad_host = ''a'', ad_port = 80\<rparr>) (Some (mem_start ''s;id'' ''d'' ''x'' 0))
         (mem_world 1 []) = (Returned reply, w1) \<and> hr_code reply = 200 \<and>
       worker_round mem_lib (nat (w_index (mem_world 1 []))) w1 = (Returned (), w2) \<and>
       w_procs w2 = w_procs (mem_world 1 []) @ [\<lparr>pr_pid = 101, pr_pgid = w_pgid (mem_world 1 []),
         pr_image = Shell (take 2046 (''ffmpeg -v quiet -i '' @ c_str ''s;id'' @ '' -c copy -f flv '' @ c_str ''d''))\<rparr>] \<and>
       ss_cache (abs_state mem_docs w2) = add_mset
             \<lparr>pi_sid = c_str ''x'', pi_pid = Some 101, pi_ppid = Some (w_self (mem_world 1 [])), pi_src_url = c_str ''s;id'',
              pi_dest_url = c_str ''d'', pi_type = 0, pi_status = ''active'',
              pi_host = c_str (ad_host \<lparr>ad_host = ''a'', ad_port = 80\<rparr>)\<rparr>
             (ss_cache (abs_state mem_docs (mem_world 1 [])))"
    by (rule create_request_runs_ffmpeg[OF mem_lib_laws mem_world_ok mem_driver_ok pool_ready_mem_world,
          where rs = "[102, 103]"])
      (simp_all add: mem_start_asks cached_sids_def mem_world_def)
  then show ?thesis
    by (simp add: mem_world_def c_str_def NUL_def) blast
qed

lemma reload_keeps_procs:
  assumes "stream_step acc ev s rv t" "ev_type ev = EV_RELOAD_PROCESS"
    and "c_str (pi_sid (ev_process ev)) \<in># cached_sids s" "ss_forks s = r # rs" "0 < r"
  shows "\<exists>img. ss_procs t = ss_procs s @ [\<lparr>pr_pid = r, pr_pgid = ss_pgid s, pr_image = img\<rparr>]"
  using assms by cases (auto simp: fork_spec_def)

lemma remove_kills_one:
  assumes "stream_step acc ev s rv t" "ev_type ev = EV_REMOVE_PROCESS"
  shows "\<exists>pid. \<forall>p\<in>set (ss_procs s). pr_pid p \<noteq> pid \<longrightarrow> p \<in> set (ss_procs t)"
  using assms by cases (auto simp: kill_spec_def)

text \<open>
  C38 (a reload leaves the old process behind). \<open>process_reload\<close> starts a second \<open>ffmpeg\<close> for a
  stream without stopping the first, and the removal of the stream kills one of the two: a
  process that was alive before is alive after both calls, or the one the reload started is.
\<close>

theorem reload_leaks_process:
  assumes "lib_laws L docs" "server_ok L docs w" "c_str sid \<in># cached_sids (abs_state docs w)"
    and "old \<in> set (pids w)" "w_forks w = r # rs" "0 < r" "r \<noteq> old"
  shows "\<exists>a w1 b w2. process_reload L sid w = (Returned a, w1) \<and>
           remove_process L info w1 = (Returned b, w2) \<and>
           {old, r} \<subseteq> set (pids w1) \<and> {old, r} \<inter> set (pids w2) \<noteq> {}"
proof -
  let ?ev = "\<lparr>ev_process = process_info_new\<lparr>pi_sid := sid\<rparr>, ev_type = EV_RELOAD_PROCESS\<rparr>"
  obtain a w1 where 1: "process_reload L sid w = (Returned a, w1)"
    "stream_step (driver_ok L (cache_coll w)) ?ev (abs_state docs w) a (abs_state docs w1)"
    "server_ok L docs w1"
    using process_reload_simulates[OF assms(1,2), of ?ev sid]
    by (cases "process_reload L sid w") (auto simp: simulates_def)
  obtain b w2 where 2: "remove_process L info w1 = (Returned b, w2)"
    "stream_step (driver_ok L (cache_coll w1)) \<lparr>ev_process = info, ev_type = EV_REMOVE_PROCESS\<rparr>
       (abs_state docs w1) b (abs_state docs w2)"
    using remove_process_simulates[OF assms(1) 1(3), of info]
    by (cases "remove_process L info w1") (auto simp: simulates_def)
  have in1: "{old, r} \<subseteq> set (pids w1)"
    using reload_keeps_procs[OF 1(2)] assms(3-6) by (auto simp: pids_def)
  obtain pid where "\<forall>p\<in>set (w_procs w1). pr_pid p \<noteq> pid \<longrightarrow> p \<in> set (w_procs w2)"
    using remove_kills_one[OF 2(2)] by auto
  then have "q \<in> set (pids w2)" if "q \<in> set (pids w1)" "q \<noteq> pid" for q
    using that by (auto simp: pids_def)
  with in1 assms(7) have "old \<in> set (pids w2) \<or> r \<in> set (pids w2)" by (cases "old = pid") auto
  with 1(1) 2(1) in1 show ?thesis by auto
qed

text \<open>
  A server of one worker with the streams \<open>xs\<close> cached, each a stream id and a pid, and with the
  children \<open>ps\<close>.
\<close>

definition mem_stream :: "string \<Rightarrow> int \<Rightarrow> bson" where
  "mem_stream sid pid =
     [(''sid'', Utf8 sid), (''pid'', Int32 pid), (''ppid'', Int32 10), (''src_url'', Utf8 ''s''),
      (''dest_url'', Utf8 ''d''), (''type'', Int32 0), (''status'', Utf8 ''active''), (''host'', Utf8 ''a'')]"

definition mem_coll :: coll where
  "mem_coll = (''mongodb://a'', MONGODB_DATABASE, MONGODB_COLLECTION_PROCESS)"

definition mem_serving :: "(string \<times> int) list \<Rightarrow> int list \<Rightarrow> mem_db world" where
  "mem_serving xs ps =
     (mem_world 1 (map (\<lambda>(s, p). (mem_coll, mem_stream s p)) xs))
       \<lparr>w_procs := map (\<lambda>p. \<lparr>pr_pid = p, pr_pgid = 10, pr_image = Shell []\<rparr>) ps\<rparr>"

lemma mem_serving_coll: "cache_coll (mem_serving xs ps) = mem_coll"
  by (simp add: cache_coll_def mem_serving_def mem_world_def mem_coll_def c_str_def NUL_def)

lemma mem_stream_doc: "NUL \<notin> set s \<Longrightarrow> stream_doc (mem_stream s p)"
  by (simp add: stream_doc_def mem_stream_def)

lemma mem_serving_docs:
  "mem_docs (w_db (mem_serving xs ps)) mem_coll = mset (map (\<lambda>(s, p). mem_stream s p) xs)"
  by (induction xs) (auto simp: mem_serving_def mem_world_def)

lemma mem_stream_info: "pi_sid (info_of (mem_stream s p)) = s" "pi_pid (info_of (mem_stream s p)) = Some p"
  by (simp_all add: info_of_sel mem_stream_def doc_str_def doc_int_def)

lemma mem_serving_sids:
  "cached_sids (abs_state mem_docs (mem_serving xs ps)) = mset (map fst xs)"
proof -
  have "cached_sids (abs_state mem_docs (mem_serving xs ps)) =
      image_mset pi_sid (image_mset info_of (mset (map (\<lambda>(s, p). mem_stream s p) xs)))"
    by (simp add: cached_sids_def mem_serving_coll mem_serving_docs)
  also have "\<dots> = mset (map fst xs)" by (induction xs) (auto simp: mem_stream_info)
  finally show ?thesis .
qed

lemma mem_serving_sel [simp]:
  "w_self (mem_serving xs ps) = 10" "w_forks (mem_serving xs ps) = [101, 102, 103]"
  "w_chld_ignored (mem_serving xs ps)" "pids (mem_serving xs ps) = ps"
  by (simp_all add: mem_serving_def mem_world_def pids_def comp_def)

lemma mem_serving_ok:
  assumes "\<forall>(s, p)\<in>set xs. NUL \<notin> set s \<and> 0 < p \<and> p \<noteq> 10"
  shows "server_ok mem_lib mem_docs (mem_serving xs ps)"
proof -
  let ?w = "mem_serving xs ps"
  have docs: "x \<in># mem_docs (w_db ?w) (cache_coll ?w) \<longleftrightarrow> (\<exists>(s, p)\<in>set xs. x = mem_stream s p)" for x
    by (auto simp: mem_serving_coll mem_serving_docs)
  have "cache_up mem_lib ?w"
    using mem_world_up(1)[of 1] unfolding mem_serving_def by (simp add: cache_up_def)
  moreover have "\<forall>p\<in>set (w_procs ?w). pr_image p \<noteq> Zombie" by (auto simp: mem_serving_def)
  moreover have "own_pid 10 i" if i: "i \<in># ss_cache (abs_state mem_docs ?w)" for i
  proof -
    obtain s p where sp: "(s, p) \<in> set xs" "i = info_of (mem_stream s p)" using i docs by auto
    then have "0 < p \<and> p \<noteq> 10" using assms by blast
    with sp show ?thesis by (simp add: own_pid_def mem_stream_info)
  qed
  moreover have "stream_doc x" if "x \<in># mem_docs (w_db ?w) (cache_coll ?w)" for x
    using that docs assms mem_stream_doc by fastforce
  ultimately show ?thesis by (simp add: server_ok_def sound_pids_def)
qed

theorem reload_leaks_process_witness:
  "\<exists>a w1 b w2. process_reload mem_lib ''x'' (mem_serving [(''x'', 50)] [50]) = (Returned a, w1) \<and>
     remove_process mem_lib (process_info_new\<lparr>pi_sid := ''x''\<rparr>) w1 = (Returned b, w2) \<and>
     {50, 101} \<subseteq> set (pids w1) \<and> {50, 101} \<inter> set (pids w2) \<noteq> {}"
  by (rule reload_leaks_process[OF mem_lib_laws, where rs = "[102, 103]"])
    (simp_all add: mem_serving_ok mem_serving_sids c_str_def NUL_def)

end
