(* ===== verification/Detect.thy ===== *)
theory Detect
  imports Pool
begin

text \<open>
  The schedule thread: a round of \<open>process_alive_detect\<close> restarts what has died. Each entry of
  the list it read either is left alone or is a reload step of the specification.
\<close>

section \<open>One entry\<close>

definition alive :: "stream_state \<Rightarrow> int \<Rightarrow> bool" where
  "alive s n \<longleftrightarrow> n = ss_self s \<or> (\<exists>p\<in>set (ss_procs s). pr_pid p = n)"

lemma alive_abs: "alive (abs_state docs w) n \<longleftrightarrow> n = w_self w \<or> n \<in> set (pids w)"
  by (auto simp: alive_def pids_def)

text \<open>What the body of the loop may do for the pid \<open>n\<close>, \<open>i\<close> being the entry it finds.\<close>

inductive detect_step :: "bool \<Rightarrow> int \<Rightarrow> stream_state \<Rightarrow> stream_state \<Rightarrow> bool" where
  detect_skip: "alive s n \<or> (\<forall>i. i \<in># ss_cache s \<longrightarrow> pi_pid i \<noteq> Some n) \<Longrightarrow> detect_step acc n s s"
| detect_restart: "\<not> alive s n \<Longrightarrow> i \<in># ss_cache s \<Longrightarrow> pi_pid i = Some n \<Longrightarrow>
    ev_type ev = EV_RELOAD_PROCESS \<Longrightarrow> c_str (pi_sid (ev_process ev)) = pi_sid i \<Longrightarrow>
    stream_step acc ev s rv t \<Longrightarrow> detect_step acc n s t"

lemma stream_doc_c_str: "stream_doc x \<Longrightarrow> c_str (doc_str x ''sid'') = doc_str x ''sid''"
  by (auto simp: stream_doc_def doc_str_def c_str_id)

text \<open>What \<open>lookup_doc\<close> says of a lookup by pid.\<close>

lemma find_pid:
  assumes "lib_laws L docs" "server_ok L docs w"
  obtains (none) item where "\<forall>i. i \<in># ss_cache (abs_state docs w) \<longrightarrow> pi_pid i \<noteq> Some n"
      "lookup_one L MONGODB_COLLECTION_PROCESS [(''pid'', Int32 n)] w =
         (Returned (err REC_ERROR_PORCESS_INFO_NONE, item), w\<lparr>w_cursors := w_cursors w + 1\<rparr>)"
    | (some) item x where "x \<in># docs (w_db w) (cache_coll w)" "stream_doc x" "pi_pid (info_of x) = Some n"
      "\<And>info. parser L item info = (err ERROR_OK, info_of x)"
      "lookup_one L MONGODB_COLLECTION_PROCESS [(''pid'', Int32 n)] w =
         (Returned (err ERROR_OK, item), w\<lparr>w_cursors := w_cursors w + 1\<rparr>)"
proof -
  have sd: "stream_doc x" if "x \<in># docs (w_db w) (cache_coll w)" for x
    using assms(2) that by (simp add: server_ok_def)
  then have pid: "has_field ''pid'' (Int32 n) x \<longleftrightarrow> pi_pid (info_of x) = Some n" if "x \<in># docs (w_db w) (cache_coll w)" for x
    using that has_field_pid by (auto simp: info_of_sel)
  obtain rv item where "lookup_one L MONGODB_COLLECTION_PROCESS [(''pid'', Int32 n)] w =
      (Returned (rv, item), w\<lparr>w_cursors := w_cursors w + 1\<rparr>)"
    and "rv = err REC_ERROR_PORCESS_INFO_NONE \<and>
            (\<forall>x. x \<in># docs (w_db w) (cache_coll w) \<longrightarrow> \<not> has_field ''pid'' (Int32 n) x) \<or>
          rv = err ERROR_OK \<and> (\<exists>x. x \<in># docs (w_db w) (cache_coll w) \<and> has_field ''pid'' (Int32 n) x \<and>
            (\<forall>info. parser L item info = (err ERROR_OK, info_of x)))"
    using lookup_doc[OF assms, of "Int32 n" "''pid''"] by auto
  then show thesis
    by (elim disjE exE conjE) (rule none some; use sd pid in auto)+
qed

lemma detect_one_simulates:
  assumes "lib_laws L docs" "server_ok L docs w" "pi_pid p = Some n" "0 < n"
  shows "\<exists>w'. detect_one L p w = (Returned (), w') \<and>
           detect_step (driver_ok L (cache_coll w)) n (abs_state docs w) (abs_state docs w') \<and>
           server_ok L docs w' \<and> w_workers w' = w_workers w \<and> cache_coll w' = cache_coll w \<and>
           w_max w' = w_max w \<and> w_index w' = w_index w"
proof (cases "alive (abs_state docs w) n")
  case True
  then have "detect_one L p w = (Returned (), w)"
    using assms(3,4)
    by (auto simp: detect_one_def check_system_process_exist_def read_int_def bindP_def
        kill0_alive ret_def alive_abs)
  with True assms(2) show ?thesis by (auto intro: detect_skip)
next
  case False
  let ?w = "w\<lparr>w_cursors := w_cursors w + 1\<rparr>" and ?acc = "driver_ok L (cache_coll w)"
  have chk: "check_system_process_exist (Some n) w = (Returned False, w)"
    using False assms(4)
    by (simp add: check_system_process_exist_def read_int_def bindP_def kill0_alive ret_def alive_abs)
  have one: "detect_one L p w = bindP (is_process_exist_pid L n process_info_new)
      (\<lambda>(ex, info). if ex then bindP (spawn_process_i L info) (\<lambda>_. ret ()) else ret ()) w"
    by (simp add: detect_one_def assms(3) bindP_Returned[where m = "check_system_process_exist _", OF chk]
        read_int_def)
  from assms(1,2) show ?thesis
  proof (cases rule: find_pid[where n = n])
    case (none item)
    then have "detect_step ?acc n (abs_state docs w) (abs_state docs ?w)" by (auto intro: detect_skip)
    moreover have "detect_one L p w = (Returned (), ?w)"
      unfolding one by (simp add: is_process_exist_pid_def bindP_def none(2) ret_def)
    ultimately show ?thesis using assms(2) by (intro exI[of _ ?w]) simp
  next
    case (some item x)
    let ?sid = "doc_str x ''sid''"
    let ?ev = "\<lparr>ev_process = process_info_new\<lparr>pi_sid := ?sid\<rparr>, ev_type = EV_RELOAD_PROCESS\<rparr>"
    have s: "c_str ?sid = ?sid" using stream_doc_c_str[OF some(2)] .
    have ok: "server_ok L docs ?w" "x \<in># docs (w_db ?w) (cache_coll ?w)" using assms(2) some(1) by simp_all
    have "simulates L docs ?ev ?w (bindP (spawn_process_i L (info_of x)) (\<lambda>_. ret (err ERROR_OK)) ?w)"
      by (rule respawn_simulates[OF assms(1) ok, of ?sid]) (simp_all add: s)
    then obtain a v where v: "spawn_process_i L (info_of x) ?w = (Returned a, v)"
      and st: "stream_step ?acc ?ev (abs_state docs w) (err ERROR_OK) (abs_state docs v)"
      and fin: "server_ok L docs v" "w_workers v = w_workers w" "cache_coll v = cache_coll w"
        "w_max v = w_max w" "w_index v = w_index w"
      by (auto simp: simulates_def bindP_def ret_def split: prod.splits outcome.splits)
    have "detect_one L p w = (Returned (), v)"
      unfolding one
      by (simp add: is_process_exist_pid_def bindP_assoc bindP_Returned[where m = "lookup_one _ _ _", OF some(5)] some(4)
          bindP_Returned[where m = "spawn_process_i _ _", OF v] ret_def)
    moreover have "detect_step ?acc n (abs_state docs w) (abs_state docs v)"
      using False st s some(1,3) by (intro detect_restart[where i = "info_of x"]) (simp_all add: info_of_sel)
    ultimately show ?thesis using fin by auto
  qed
qed

section \<open>A round\<close>

lemma detect_step_sids: "detect_step acc n s t \<Longrightarrow> unique_sids s \<Longrightarrow> unique_sids t"
  by (auto elim!: detect_step.cases intro: unique_sids_step)

text \<open>
  The effect of one accepted step with a process to spare: an entry with a dead pid is replaced
  by one with the new pid, all others stay.
\<close>

lemma detect_step_accepted:
  assumes "detect_step True n s t" "unique_sids s" "ss_forks s = r # rs" "0 < r"
  shows "t = s \<and> (alive s n \<or> (\<forall>i. i \<in># ss_cache s \<longrightarrow> pi_pid i \<noteq> Some n)) \<or>
         \<not> alive s n \<and> alive t r \<and> ss_forks t = rs \<and> (\<forall>m. alive s m \<longrightarrow> alive t m) \<and>
         (\<exists>i M. ss_cache s = add_mset i M \<and> pi_pid i = Some n \<and> ss_cache t = add_mset (i\<lparr>pi_pid := Some r\<rparr>) M)"
  using assms(1)
proof cases
  case detect_skip
  then show ?thesis by auto
next
  case (detect_restart i ev rv)
  obtain M where M: "ss_cache s = add_mset i M" using detect_restart(2) by (blast dest: multi_member_split)
  have single: "j = i" if "j \<in># ss_cache s" "pi_sid j = pi_sid i" for j
  proof (rule ccontr)
    assume "j \<noteq> i"
    with that(1) M have "j \<in># M" by auto
    then have "pi_sid i \<in># image_mset pi_sid M" using that(2) by (metis imageI set_image_mset)
    then have "0 < count (image_mset pi_sid M) (pi_sid i)" by (simp only: count_greater_zero_iff)
    moreover have "count (cached_sids s) (pi_sid i) = Suc (count (image_mset pi_sid M) (pi_sid i))"
      by (simp add: cached_sids_def M)
    moreover have "count (cached_sids s) (pi_sid i) \<le> 1" using assms(2) unfolding unique_sids_def by blast
    ultimately show False by linarith
  qed
  have c: "pi_sid i \<in># cached_sids s" using detect_restart(2) by (auto simp: cached_sids_def)
  from detect_restart(6,4,5) show ?thesis
  proof cases
    case (reload_new j r' u old)
    then have "old = i" "j = i" using single detect_restart(5) by auto
    with reload_new M assms(3,4) detect_restart(1,3) show ?thesis
      by (auto simp: fork_spec_def alive_def)
  qed (use c assms(3,4) in \<open>auto simp: fork_spec_def\<close>)
qed

definition live :: "stream_state \<Rightarrow> process_info \<Rightarrow> bool" where
  "live s i \<longleftrightarrow> (\<exists>n. pi_pid i = Some n \<and> alive s n)"

text \<open>
  The invariant of the loop, \<open>ps\<close> being the entries still to come: every cached entry lives or
  is among them, no dead pid is cached twice, and there are forks for all of them.
\<close>

definition loop_inv :: "process_info list \<Rightarrow> stream_state \<Rightarrow> bool" where
  "loop_inv ps s \<longleftrightarrow>
     unique_sids s \<and> (\<forall>i. i \<in># ss_cache s \<longrightarrow> live s i \<or> i \<in> set ps) \<and>
     (\<forall>n. \<not> alive s n \<longrightarrow> count (image_mset pi_pid (ss_cache s)) (Some n) \<le> 1) \<and>
     length ps \<le> length (ss_forks s) \<and> (\<forall>r\<in>set (ss_forks s). 0 < r)"

text \<open>What a part of the loop does: the streams stay the same, and what lives stays.\<close>

definition revives :: "stream_state \<Rightarrow> stream_state \<Rightarrow> bool" where
  "revives s t \<longleftrightarrow>
     cached_sids t = cached_sids s \<and> (\<forall>m. alive s m \<longrightarrow> alive t m) \<and>
     (\<forall>i. i \<in># ss_cache s \<longrightarrow> live s i \<longrightarrow> i \<in># ss_cache t)"

lemma revives_refl: "revives s s"
  by (simp add: revives_def)

lemma revives_trans: "revives s t \<Longrightarrow> revives t u \<Longrightarrow> revives s u"
  unfolding revives_def live_def by metis

text \<open>A restart: the entry \<open>i\<close> with the dead pid \<open>n\<close> gets the live pid \<open>r\<close>.\<close>

lemma restart_covers:
  assumes c: "ss_cache s = add_mset i M" "ss_cache t = add_mset (i\<lparr>pi_pid := Some r\<rparr>) M"
    and n: "pi_pid i = Some n" "count (image_mset pi_pid (ss_cache s)) (Some n) \<le> 1"
    and r: "alive t r" "\<forall>m. alive s m \<longrightarrow> alive t m" and p: "pi_pid p = Some n"
    and cov: "\<And>j. j \<in># ss_cache s \<Longrightarrow> live s j \<or> j = p \<or> j \<in> set ps" and j: "j \<in># ss_cache t"
  shows "live t j \<or> j \<in> set ps"
proof (cases "j = i\<lparr>pi_pid := Some r\<rparr>")
  case False
  with j c(2) have jm: "j \<in># M" by auto
  then obtain K where "M = add_mset j K" by (blast dest: multi_member_split)
  then have "pi_pid j \<noteq> Some n" using n c(1) by auto
  then have "j \<noteq> p" using p by auto
  moreover have "live s j \<or> j = p \<or> j \<in> set ps" using cov c(1) jm by simp
  ultimately show ?thesis using r(2) by (auto simp: live_def)
qed (use r(1) in \<open>simp add: live_def\<close>)

lemma loop_inv_step:
  assumes "loop_inv (p # ps) s" "pi_pid p = Some n" "detect_step True n s t"
  shows "loop_inv ps t \<and> revives s t"
proof -
  from assms(1) obtain r rs where f: "ss_forks s = r # rs" "0 < r" "length ps \<le> length rs" "\<forall>r\<in>set rs. 0 < r"
    by (cases "ss_forks s") (auto simp: loop_inv_def)
  have u: "unique_sids s" and cov: "\<And>i. i \<in># ss_cache s \<Longrightarrow> live s i \<or> i = p \<or> i \<in> set ps"
    and once: "\<And>m. \<not> alive s m \<Longrightarrow> count (image_mset pi_pid (ss_cache s)) (Some m) \<le> 1"
    using assms(1) by (auto simp: loop_inv_def)
  consider (same) "t = s" "alive s n \<or> (\<forall>i. i \<in># ss_cache s \<longrightarrow> pi_pid i \<noteq> Some n)"
    | (new) i M where "\<not> alive s n" "alive t r" "ss_forks t = rs" "\<forall>m. alive s m \<longrightarrow> alive t m"
      "ss_cache s = add_mset i M" "ss_cache t = add_mset (i\<lparr>pi_pid := Some r\<rparr>) M" "pi_pid i = Some n"
    using detect_step_accepted[OF assms(3) u f(1,2)] by blast
  then show ?thesis
  proof cases
    case same
    then have "live s i \<or> i \<in> set ps" if "i \<in># ss_cache s" for i
      using cov[OF that] that assms(2) by (auto simp: live_def)
    with same(1) u f once show ?thesis by (simp add: loop_inv_def revives_refl)
  next
    case (new i M)
    note d = new(1) and r = new(2,3) and mono = new(4) and M = new(5-7)
    have "live t j \<or> j \<in> set ps" if "j \<in># ss_cache t" for j
      by (rule restart_covers[OF M once[OF d] r(1) mono assms(2) cov that])
    moreover have "count (image_mset pi_pid (ss_cache t)) (Some m) \<le> 1" if "\<not> alive t m" for m
    proof -
      have "m \<noteq> r" "\<not> alive s m" using that r(1) mono by auto
      then show ?thesis using once[of m] M by (auto split: if_splits)
    qed
    moreover have "unique_sids t" using assms(3) u by (rule detect_step_sids)
    moreover have "revives s t"
      using M mono d by (auto simp: revives_def cached_sids_def live_def)
    ultimately show ?thesis using f r(2) by (simp add: loop_inv_def)
  qed
qed

lemma detect_loop:
  assumes "lib_laws L docs" "driver_ok L (cache_coll w)" "server_ok L docs w"
    and "loop_inv ps (abs_state docs w)" "\<forall>p\<in>set ps. \<exists>n. pi_pid p = Some n \<and> 0 < n"
  shows "\<exists>w'. forP (detect_one L) ps w = (Returned (), w') \<and> server_ok L docs w' \<and>
           cache_coll w' = cache_coll w \<and> w_workers w' = w_workers w \<and>
           loop_inv [] (abs_state docs w') \<and> revives (abs_state docs w) (abs_state docs w')"
  using assms(2-)
proof (induction ps arbitrary: w)
  case Nil
  then show ?case by (simp add: revives_refl)
next
  case (Cons p ps)
  obtain n where n: "pi_pid p = Some n" "0 < n" using Cons.prems(4) by auto
  obtain v where v: "detect_one L p w = (Returned (), v)" "server_ok L docs v" "w_workers v = w_workers w"
    "cache_coll v = cache_coll w" "detect_step True n (abs_state docs w) (abs_state docs v)"
    using detect_one_simulates[OF assms(1) Cons.prems(2) n] Cons.prems(1) by auto
  have i: "loop_inv ps (abs_state docs v)" "revives (abs_state docs w) (abs_state docs v)"
    using loop_inv_step[OF Cons.prems(3) n(1) v(5)] by simp_all
  have "\<exists>w'. forP (detect_one L) ps v = (Returned (), w') \<and> server_ok L docs w' \<and>
           cache_coll w' = cache_coll v \<and> w_workers w' = w_workers v \<and>
           loop_inv [] (abs_state docs w') \<and> revives (abs_state docs v) (abs_state docs w')"
    using v i Cons.prems(1,4) by (intro Cons.IH) simp_all
  then show ?case
    using v(3,4) i(2) by (auto simp: bindP_Returned[where m = "detect_one _ _", OF v(1)] intro: revives_trans)
qed

lemma sound_pid_pos:
  "sound_pids s \<Longrightarrow> i \<in># ss_cache s \<Longrightarrow> \<exists>n. pi_pid i = Some n \<and> 0 < n"
  by (auto simp: sound_pids_def own_pid_def split: option.splits)

lemma detect_reads:
  assumes "lib_laws L docs" "server_ok L docs w"
  shows "\<exists>ps. set ps = set_mset (ss_cache (abs_state docs w)) \<and> length ps = size (ss_cache (abs_state docs w)) \<and>
           find_all_process L [] w = (Returned (0, ps), w\<lparr>w_cursors := w_cursors w + 1\<rparr>)"
proof -
  let ?found = "l_find L (cache_coll w) [] (w_db w)"
  have m: "mset ?found = docs (w_db w) (cache_coll w)"
    using lib_lawsD(1)[OF assms(1)] unfolding find_law_def by blast
  then have mem: "x \<in> set ?found \<longleftrightarrow> x \<in># docs (w_db w) (cache_coll w)" for x
    by (metis set_mset_mset)
  have all: "\<forall>x\<in>set ?found. stream_doc x \<and> l_as_json L x \<noteq> None"
    using assms(2) lib_lawsD(6)[OF assms(1)] mem unfolding server_ok_def text_law_def by blast
  then have "parse_all L (map (\<lambda>d. c_str (the (l_as_json L d))) ?found) process_info_new = map info_of ?found"
    by (intro parse_all_info_of[OF lib_lawsD(5)[OF assms(1)]])
  moreover have "\<forall>x\<in>set ?found. l_as_json L x \<noteq> None" using all by blast
  ultimately have "find_all_process L [] w =
      (Returned (0, map info_of ?found), w\<lparr>w_cursors := w_cursors w + 1\<rparr>)"
    using find_all_process_up[OF server_cache_up[OF assms(2)], of "[]"] by simp
  moreover have "set (map info_of ?found) = set_mset (ss_cache (abs_state docs w))" using mem by auto
  moreover have "length (map info_of ?found) = size (ss_cache (abs_state docs w))"
    using m by (metis abs_state_sel(6) length_map size_image_mset size_mset)
  ultimately show ?thesis by blast
qed

text \<open>
  C27 (the schedule thread revives what died). One round of \<open>process_alive_detect\<close>, run alone on
  a server whose cache has distinct ids and pids, with a fork for every cached stream and an
  accepting driver: it returns 0, afterwards the pid of every cached stream is alive, the
  streams are the same, and an entry that was alive has not been touched.
\<close>

theorem process_alive_detect_revives:
  assumes "lib_laws L docs" "server_ok L docs w" "driver_ok L (cache_coll w)"
    and "\<forall>sid. count (cached_sids (abs_state docs w)) sid \<le> 1"
    and "\<forall>p. count (image_mset pi_pid (ss_cache (abs_state docs w))) p \<le> 1"
    and "size (ss_cache (abs_state docs w)) \<le> length (w_forks w)" "\<forall>r\<in>set (w_forks w). 0 < r"
  shows "\<exists>w'. process_alive_detect L w = (Returned 0, w') \<and>
           (\<forall>i. i \<in># ss_cache (abs_state docs w') \<longrightarrow>
              (\<exists>n. pi_pid i = Some n \<and> (n = w_self w' \<or> n \<in> set (pids w')))) \<and>
           cached_sids (abs_state docs w') = cached_sids (abs_state docs w) \<and>
           (\<forall>i n. i \<in># ss_cache (abs_state docs w) \<longrightarrow> pi_pid i = Some n \<longrightarrow> n \<in> set (pids w) \<longrightarrow>
              i \<in># ss_cache (abs_state docs w'))"
proof -
  let ?w = "w\<lparr>w_cursors := w_cursors w + 1\<rparr>"
  obtain ps where ps: "set ps = set_mset (ss_cache (abs_state docs w))"
    "length ps = size (ss_cache (abs_state docs w))" and f: "find_all_process L [] w = (Returned (0, ps), ?w)"
    using detect_reads[OF assms(1,2)] by blast
  have "loop_inv ps (abs_state docs ?w)"
    using assms(4-7) ps by (auto simp: loop_inv_def unique_sids_def)
  moreover have "\<forall>p\<in>set ps. \<exists>n. pi_pid p = Some n \<and> 0 < n"
  proof
    fix p assume "p \<in> set ps"
    then show "\<exists>n. pi_pid p = Some n \<and> 0 < n"
      using assms(2) ps(1) by (intro sound_pid_pos[of "abs_state docs w"]) (simp_all add: server_ok_def)
  qed
  ultimately obtain w' where w': "forP (detect_one L) ps ?w = (Returned (), w')"
    "loop_inv [] (abs_state docs w')" "revives (abs_state docs w) (abs_state docs w')"
    using detect_loop[OF assms(1), of ?w ps] assms(2,3) by auto
  have "process_alive_detect L w = (Returned 0, w')"
    by (simp add: process_alive_detect_def bindP_Returned[where m = "find_all_process _ _", OF f]
        bindP_Returned[where m = "forP _ _", OF w'(1)] ret_def)
  with w'(2,3) show ?thesis
    by (auto simp: loop_inv_def revives_def live_def alive_abs simp del: abs_state_sel)
qed

theorem process_alive_detect_revives_witness:
  "\<exists>w'. process_alive_detect mem_lib (mem_serving [(''x'', 50), (''y'', 51)] [51]) = (Returned 0, w') \<and>
     (\<forall>i. i \<in># ss_cache (abs_state mem_docs w') \<longrightarrow>
        (\<exists>n. pi_pid i = Some n \<and> (n = w_self w' \<or> n \<in> set (pids w')))) \<and>
     cached_sids (abs_state mem_docs w') = {#''x'', ''y''#}"
proof -
  let ?w = "mem_serving [(''x'', 50), (''y'', 51)] [51]"
  have c: "image_mset pi_pid (ss_cache (abs_state mem_docs ?w)) = {#Some 50, Some 51#}"
    by (simp add: mem_serving_coll mem_serving_docs mem_stream_info)
  have "size (ss_cache (abs_state mem_docs ?w)) = 2"
    by (simp add: mem_serving_coll mem_serving_docs)
  then have "\<exists>w'. process_alive_detect mem_lib ?w = (Returned 0, w') \<and>
           (\<forall>i. i \<in># ss_cache (abs_state mem_docs w') \<longrightarrow>
              (\<exists>n. pi_pid i = Some n \<and> (n = w_self w' \<or> n \<in> set (pids w')))) \<and>
           cached_sids (abs_state mem_docs w') = cached_sids (abs_state mem_docs ?w) \<and>
           (\<forall>i n. i \<in># ss_cache (abs_state mem_docs ?w) \<longrightarrow> pi_pid i = Some n \<longrightarrow> n \<in> set (pids ?w) \<longrightarrow>
              i \<in># ss_cache (abs_state mem_docs w'))"
    by (intro process_alive_detect_revives[OF mem_lib_laws _ mem_driver_ok])
      (simp_all add: mem_serving_ok mem_serving_sids c NUL_def del: abs_state_sel)
  then show ?thesis by (simp add: mem_serving_sids) blast
qed

end
