(* ===== verification/Races.thy ===== *)
theory Races
  imports Detect
begin

text \<open>
  Several workers at once. No lock covers the check and the insert of \<open>spawn_process\<close>, and the
  events of one stream go to different queues: a small-step relation over the shared state
  interleaves the workers, with the check and the fork of a creation as separate steps.
\<close>

section \<open>Interleaved workers\<close>

text \<open>Where a worker stands: between two events, or past the check of \<open>spawn_process\<close>.\<close>

datatype phase = Between | Checked process_info

text \<open>
  What worker \<open>i\<close> does next: a creation in two steps, the lookup and the rest, which compose to
  \<open>spawn_process\<close>; every other event in one.
\<close>

definition spawn_check :: "('db, 'j) lib \<Rightarrow> process_info \<Rightarrow> ('db world, bool) prog" where
  "spawn_check L param =
     bindP (is_process_exist_sid L (pi_sid param) process_info_new) (\<lambda>(ex, temp). ret ex)"

lemma spawn_process_two_steps:
  "spawn_process L p =
     bindP (spawn_check L p) (\<lambda>ex. if ex then ret (err ERROR_STREAM_EXIST) else spawn_fork L p)"
  by (simp add: spawn_process_def spawn_check_def bindP_assoc split_def)

inductive worker_move :: "('db, 'j) lib \<Rightarrow> nat \<Rightarrow> 'db world \<times> phase list \<Rightarrow> 'db world \<times> phase list \<Rightarrow> bool"
  for L i where
  check_free:
  "i < length (w_workers w) \<Longrightarrow> ph ! i = Between \<Longrightarrow> wc_queue (w_workers w ! i) = ev # q \<Longrightarrow>
   ev_type ev = EV_CREATE_PROCESS \<Longrightarrow> fn_spawn (w_workers w ! i) = SpawnProcess \<Longrightarrow>
   spawn_check L (ev_process ev) w = (Returned False, w') \<Longrightarrow>
   worker_move L i (w, ph) (w', ph[i := Checked (ev_process ev)])"
| check_taken:
  "i < length (w_workers w) \<Longrightarrow> ph ! i = Between \<Longrightarrow> wc_queue (w_workers w ! i) = ev # q \<Longrightarrow>
   ev_type ev = EV_CREATE_PROCESS \<Longrightarrow> fn_spawn (w_workers w ! i) = SpawnProcess \<Longrightarrow>
   spawn_check L (ev_process ev) w = (Returned True, w') \<Longrightarrow>
   worker_move L i (w, ph) (snd (pop_queue i w'), ph)"
| fork_stream:
  "i < length (w_workers w) \<Longrightarrow> ph ! i = Checked p \<Longrightarrow> spawn_fork L p w = (Returned rv, w') \<Longrightarrow>
   worker_move L i (w, ph) (snd (pop_queue i w'), ph[i := Between])"
| other_event:
  "i < length (w_workers w) \<Longrightarrow> ph ! i = Between \<Longrightarrow> wc_queue (w_workers w ! i) = ev # q \<Longrightarrow>
   ev_type ev \<noteq> EV_CREATE_PROCESS \<Longrightarrow> worker_step L i w = (Returned (), w') \<Longrightarrow>
   worker_move L i (w, ph) (w', ph)"

definition pool_step :: "('db, 'j) lib \<Rightarrow> 'db world \<times> phase list \<Rightarrow> 'db world \<times> phase list \<Rightarrow> bool" where
  "pool_step L s t \<longleftrightarrow> (\<exists>i. worker_move L i s t)"

lemma pool_stepI: "worker_move L i s t \<Longrightarrow> pool_step L s t"
  by (auto simp: pool_step_def)

section \<open>Two workers create the same stream\<close>

lemma spawn_check_result:
  assumes "lib_laws L docs" "server_ok L docs w"
  shows "spawn_check L p w =
    (Returned (c_str (pi_sid p) \<in># cached_sids (abs_state docs w)), w\<lparr>w_cursors := w_cursors w + 1\<rparr>)"
  using assms
proof (cases rule: find_stream[where s = "c_str (pi_sid p)"])
  case (none item)
  then show ?thesis by (simp add: spawn_check_def is_process_exist_sid_def bindP_def ret_def)
next
  case (some item x)
  then have "c_str (pi_sid p) \<in># cached_sids (abs_state docs w)" by (auto simp: cached_sids_abs)
  with some(3,4) show ?thesis by (simp add: spawn_check_def is_process_exist_sid_def bindP_def ret_def)
qed

text \<open>The fork and the insert, taken whether or not the stream is cached by now.\<close>

lemma spawn_fork_inserts:
  assumes "lib_laws L docs" "server_ok L docs w" "driver_ok L (cache_coll w)"
    and "w_forks w = r # rs" "0 < r"
  shows "\<exists>w'. spawn_fork L p w = (Returned (err ERROR_OK), w') \<and>
           w_workers w' = w_workers w \<and> w_forks w' = rs \<and> pids w' = pids w @ [r] \<and> cache_coll w' = cache_coll w \<and>
           server_ok L docs w' \<and>
           cached_sids (abs_state docs w') = add_mset (c_str (pi_sid p)) (cached_sids (abs_state docs w))"
proof -
  obtain t where f: "fork_spec p (abs_state docs w) = (r, t)"
    and t: "ss_forks t = rs" "map pr_pid (ss_procs t) = pids w @ [r]"
    using assms(4,5) by (auto simp: fork_spec_def pids_def)
  obtain rv v where v: "spawn_fork L p w = (Returned rv, v)" "server_ok L docs v" "w_workers v = w_workers w"
    "cache_coll v = cache_coll w"
    by (rule spawn_fork_keeps[OF assms(1,2)])
  from assms(1,2) f show ?thesis
  proof (cases rule: spawn_fork_runs)
    case (inserted d)
    have "ss_cache (abs_state docs v) = cached_in docs d w" "w_forks v = rs" "pids v = pids w @ [r]"
      using v(1) inserted(2,3) t by (auto simp: forked_def pids_def)
    moreover have "cached_in docs d w = add_mset (stream_entry p r (w_self w)) (ss_cache (abs_state docs w))"
      using inserted(5) assms(3) by blast
    ultimately show ?thesis using v inserted(2)
      by (intro exI[of _ v]) (simp add: cached_sids_def stream_entry_def del: abs_state_sel(6))
  qed (use assms(5) in simp)
qed

lemma pop_queue_sel:
  "abs_state docs (snd (pop_queue i w)) = abs_state docs w"
  "server_ok L docs (snd (pop_queue i w)) = server_ok L docs w"
  "cache_coll (snd (pop_queue i w)) = cache_coll w" "pids (snd (pop_queue i w)) = pids w"
  "w_forks (snd (pop_queue i w)) = w_forks w"
  "length (w_workers (snd (pop_queue i w))) = length (w_workers w)"
  by (simp_all add: pop_queue_def modP_def pids_def)

text \<open>
  C34 (the race of two creations). Two workers whose next events create the same stream, not
  yet cached: the interleaving in which both check before either inserts starts two processes
  and caches the stream twice.
\<close>

theorem create_race_duplicates:
  assumes "lib_laws L docs" "server_ok L docs w" "driver_ok L (cache_coll w)"
    and "i \<noteq> j" "i < length (w_workers w)" "j < length (w_workers w)" "length ph = length (w_workers w)"
    and "ph ! i = Between" "ph ! j = Between"
    and "wc_queue (w_workers w ! i) = e # q" "ev_type e = EV_CREATE_PROCESS" "fn_spawn (w_workers w ! i) = SpawnProcess"
    and "wc_queue (w_workers w ! j) = f # q'" "ev_type f = EV_CREATE_PROCESS" "fn_spawn (w_workers w ! j) = SpawnProcess"
    and "c_str (pi_sid (ev_process e)) = sid" "c_str (pi_sid (ev_process f)) = sid"
    and "sid \<notin># cached_sids (abs_state docs w)" "w_forks w = r # r' # rs" "0 < r" "0 < r'"
  shows "\<exists>w' ph'. (pool_step L)\<^sup>*\<^sup>* (w, ph) (w', ph') \<and>
           count (cached_sids (abs_state docs w')) sid = 2 \<and> pids w' = pids w @ [r, r']"
proof -
  let ?w1 = "w\<lparr>w_cursors := w_cursors w + 1\<rparr>" and ?p1 = "ph[i := Checked (ev_process e)]"
  let ?w2 = "?w1\<lparr>w_cursors := w_cursors ?w1 + 1\<rparr>" and ?p2 = "?p1[j := Checked (ev_process f)]"
  have 1: "pool_step L (w, ph) (?w1, ?p1)"
    using assms spawn_check_result[OF assms(1,2), of "ev_process e"] by (intro pool_stepI[of _ i] check_free) simp_all
  have 2: "pool_step L (?w1, ?p1) (?w2, ?p2)"
    using assms spawn_check_result[OF assms(1), of ?w1 "ev_process f"] by (intro pool_stepI[of _ j] check_free) simp_all
  obtain v where v: "spawn_fork L (ev_process e) ?w2 = (Returned (err ERROR_OK), v)" "w_workers v = w_workers w"
    "w_forks v = r' # rs" "pids v = pids w @ [r]" "cache_coll v = cache_coll w" "server_ok L docs v"
    "cached_sids (abs_state docs v) = add_mset sid (cached_sids (abs_state docs w))"
    using spawn_fork_inserts[OF assms(1), of ?w2 r "r' # rs" "ev_process e"] assms by (auto simp: pids_def)
  let ?w3 = "snd (pop_queue i v)" and ?p3 = "?p2[i := Between]"
  have 3: "pool_step L (?w2, ?p2) (?w3, ?p3)"
    using assms v(1) by (intro pool_stepI[of _ i] fork_stream[where p = "ev_process e"]) simp_all
  obtain u where u: "spawn_fork L (ev_process f) ?w3 = (Returned (err ERROR_OK), u)"
    "w_workers u = w_workers ?w3" "pids u = pids ?w3 @ [r']"
    "cached_sids (abs_state docs u) = add_mset sid (cached_sids (abs_state docs ?w3))"
    using spawn_fork_inserts[OF assms(1), of ?w3 r' rs "ev_process f"] v assms by (auto simp: pop_queue_sel)
  let ?w4 = "snd (pop_queue j u)" and ?p4 = "?p3[j := Between]"
  have 4: "pool_step L (?w3, ?p3) (?w4, ?p4)"
    using assms u(1) v(2) by (intro pool_stepI[of _ j] fork_stream[where p = "ev_process f"]) (simp_all add: pop_queue_sel)
  have "(pool_step L)\<^sup>*\<^sup>* (w, ph) (?w4, ?p4)"
    using 1 2 3 4 by (meson converse_rtranclp_into_rtranclp r_into_rtranclp)
  moreover have "count (cached_sids (abs_state docs w)) sid = 0"
    using assms(18) by (simp add: not_in_iff)
  ultimately show ?thesis
    using u v by (intro exI[of _ ?w4] exI[of _ ?p4]) (simp add: pop_queue_sel)
qed

definition mem_pair :: "rec_event list \<Rightarrow> rec_event list \<Rightarrow> mem_db world" where
  "mem_pair q q' = (mem_world 2 [])\<lparr>w_workers :=
     [(new_context 0)\<lparr>wc_queue := q\<rparr>, (new_context 1)\<lparr>wc_queue := q'\<rparr>]\<rparr>"

lemma mem_pair_ok: "server_ok mem_lib mem_docs (mem_pair q q')"
  using mem_world_ok[of 2] by (simp add: mem_pair_def)

lemma new_context_spawn [simp]: "fn_spawn (new_context i) = SpawnProcess"
  by (simp add: new_context_def)

theorem create_race_duplicates_witness:
  "\<exists>w' ph'. (pool_step mem_lib)\<^sup>*\<^sup>*
      (mem_pair [create_event ''a'' ''s'' ''d'' ''x'' 0] [create_event ''a'' ''s'' ''d'' ''x'' 0], [Between, Between]) (w', ph') \<and>
     count (cached_sids (abs_state mem_docs w')) ''x'' = 2 \<and> pids w' = [101, 102]"
proof -
  let ?e = "create_event ''a'' ''s'' ''d'' ''x'' 0" and ?ph = "[Between, Between]"
  have "\<exists>w' ph'. (pool_step mem_lib)\<^sup>*\<^sup>* (mem_pair [?e] [?e], ?ph) (w', ph') \<and>
     count (cached_sids (abs_state mem_docs w')) ''x'' = 2 \<and> pids w' = pids (mem_pair [?e] [?e]) @ [101, 102]"
    by (rule create_race_duplicates[OF mem_lib_laws mem_pair_ok mem_driver_ok,
          where i = 0 and j = 1 and rs = "[103]" and q = "[]" and q' = "[]" and e = ?e and f = ?e])
      (simp_all add: mem_pair_def mem_world_def create_event_def cached_sids_def c_str_def NUL_def)
  then show ?thesis by (simp add: mem_pair_def mem_world_def pids_def)
qed

section \<open>A stop overtakes the start it follows\<close>

lemma asks_unique: "asks L path h b e \<Longrightarrow> asks L path h b f \<Longrightarrow> e = f"
  unfolding asks_def by auto

lemma remove_absent:
  assumes "stream_step acc ev s rv t" "ev_type ev = EV_REMOVE_PROCESS"
    and "c_str (pi_sid (ev_process ev)) \<notin># cached_sids s"
  shows "t = s"
  using assms by cases (auto simp: cached_sids_def image_iff)

lemma start_queues:
  assumes "pool_ready w" "asks L ''/pull/inject/start'' (ad_host data) b ev"
  shows "\<exists>reply. start L (Some data) (Some b) w = (Returned reply, enqueue ev w) \<and> hr_code reply = 200"
proof -
  have "(\<exists>c. Some b = Some c \<and> asks L ''/pull/inject/start'' (ad_host data) c f) \<longleftrightarrow> f = ev" for f
    using assms(2) asks_unique by blast
  then have a: "answers w (\<lambda>f. f = ev) (start L (Some data) (Some b) w)"
    using start_answers[OF assms(1), of "Some b" L data] by simp
  obtain res v where r: "start L (Some data) (Some b) w = (res, v)" by fastforce
  from a show ?thesis unfolding r answers_def by auto
qed

lemma stop_queues:
  assumes "pool_ready w" "asks L ''/pull/inject/stop'' (ad_host data) b ev"
  shows "\<exists>reply. stop L (Some data) (Some b) w = (Returned reply, enqueue ev w) \<and> hr_code reply = 200"
proof -
  have "(\<exists>c. Some b = Some c \<and> asks L ''/pull/inject/stop'' (ad_host data) c f) \<longleftrightarrow> f = ev" for f
    using assms(2) asks_unique by blast
  then have a: "answers w (\<lambda>f. f = ev) (stop L (Some data) (Some b) w)"
    using stop_answers[OF assms(1), of "Some b" L data] by simp
  obtain res v where r: "stop L (Some data) (Some b) w = (res, v)" by fastforce
  from a show ?thesis unfolding r answers_def by auto
qed

lemma enqueue_frame:
  "abs_state docs (enqueue ev w) = abs_state docs w" "server_ok L docs (enqueue ev w) = server_ok L docs w"
  "cache_coll (enqueue ev w) = cache_coll w" "w_max (enqueue ev w) = w_max w"
  by (simp_all add: enqueue_def abs_state_def server_ok_def cache_up_def cache_coll_def)

lemma worker_round_one:
  assumes "lib_laws L docs" "server_ok L docs w" "i < length (w_workers w)" "worker_ready (w_workers w ! i)"
    and "wc_queue (w_workers w ! i) = [ev]" "ev_type ev \<noteq> EV_TERMINATE_PROCESS"
  shows "\<exists>rv w'. worker_round L i w = (Returned (), w') \<and>
           stream_step (driver_ok L (cache_coll w)) ev (abs_state docs w) rv (abs_state docs w') \<and>
           server_ok L docs w' \<and> cache_coll w' = cache_coll w \<and>
           w_workers w' = (w_workers w)[i := (w_workers w ! i)\<lparr>wc_queue := []\<rparr>]"
proof -
  obtain rv v where v: "worker_step L i w = (Returned (), v)"
    "stream_step (driver_ok L (cache_coll w)) ev (abs_state docs w) rv (abs_state docs v)"
    "server_ok L docs v" "w_workers v = (w_workers w)[i := (w_workers w ! i)\<lparr>wc_queue := []\<rparr>]"
    "cache_coll v = cache_coll w"
    using worker_step_simulates[OF assms(1,2,4,5,6)] by blast
  have "worker_round L i w = (Returned (), v)"
    using assms(3,4,5) v(4)
    by (simp add: worker_round_def worker_ready_def bindP_Returned[where m = "worker_step _ _", OF v(1)])
  with v show ?thesis by blast
qed

text \<open>Two events put on a pool of at least two workers go to two queues.\<close>

lemma two_turns:
  fixes w :: "'db world" and e f :: rec_event
  assumes "pool_ready w" "2 \<le> w_max w"
  defines "w1 \<equiv> enqueue e w" and "w2 \<equiv> enqueue f (enqueue e w)"
  defines "i \<equiv> nat (w_index w)" and "j \<equiv> nat (w_index (enqueue e w))"
  shows "i < length (w_workers w)" "j < length (w_workers w)" "i \<noteq> j"
    and "w_workers w2 ! i = queue_push e (w_workers w ! i)" "w_workers w2 ! j = queue_push f (w_workers w ! j)"
    and "\<And>k. k < length (w_workers w) \<Longrightarrow> k \<noteq> i \<Longrightarrow> k \<noteq> j \<Longrightarrow> w_workers w2 ! k = w_workers w ! k"
    and "length (w_workers w2) = length (w_workers w)"
proof -
  let ?n = "length (w_workers w)"
  have n: "w_max w = int ?n" "0 \<le> w_index w" "w_index w < int ?n"
    using assms(1) by (auto simp: pool_ready_def)
  show i: "i < ?n" using n by (simp add: i_def nat_less_iff)
  have "w_index w1 = (if w_index w + 1 = int ?n then 0 else w_index w + 1)"
    using n by (simp add: w1_def enqueue_sel)
  then show j: "j < ?n" and ij: "i \<noteq> j"
    using n assms(2) by (auto simp: i_def j_def w1_def nat_less_iff)
  show "w_workers w2 ! i = queue_push e (w_workers w ! i)" "w_workers w2 ! j = queue_push f (w_workers w ! j)"
    "\<And>k. k < ?n \<Longrightarrow> k \<noteq> i \<Longrightarrow> k \<noteq> j \<Longrightarrow> w_workers w2 ! k = w_workers w ! k" "length (w_workers w2) = ?n"
    using i j ij by (simp_all add: w2_def i_def j_def enqueue_nth enqueue_sel(1))
qed

text \<open>
  C35 (a stop can overtake the start it follows). On an idle pool of at least two workers a
  client starts a new stream and, after the reply 200, stops it and is answered 200 again. The
  two events are in different queues; when the second worker is the faster, both workers drain
  their queues and the stopped stream is running and cached.
\<close>

theorem stop_overtakes_start:
  assumes "lib_laws L docs" "server_ok L docs w" "driver_ok L (cache_coll w)"
    and "pool_ready w" "2 \<le> w_max w" "\<forall>c\<in>set (w_workers w). worker_ready c \<and> wc_queue c = []"
    and "asks L ''/pull/inject/start'' (ad_host data) b (create_event (ad_host data) src dest sid ty)"
    and "asks L ''/pull/inject/stop'' (ad_host data) b' (remove_event sid)"
    and "c_str sid \<notin># cached_sids (abs_state docs w)" "w_forks w = r # rs" "0 < r" "w_exec_ok w"
  shows "\<exists>r1 w1 r2 w2 w3 w4.
           start L (Some data) (Some b) w = (Returned r1, w1) \<and> hr_code r1 = 200 \<and>
           stop L (Some data) (Some b') w1 = (Returned r2, w2) \<and> hr_code r2 = 200 \<and>
           worker_round L (nat (w_index w1)) w2 = (Returned (), w3) \<and>
           worker_round L (nat (w_index w)) w3 = (Returned (), w4) \<and>
           (\<forall>c\<in>set (w_workers w4). wc_queue c = []) \<and>
           c_str sid \<in># cached_sids (abs_state docs w4) \<and> r \<in> set (pids w4)"
proof -
  let ?e = "create_event (ad_host data) src dest sid ty" and ?f = "remove_event sid"
  let ?w1 = "enqueue ?e w" let ?w2 = "enqueue ?f ?w1"
  let ?i = "nat (w_index w)" and ?j = "nat (w_index ?w1)" and ?n = "length (w_workers w)"
  note p1 = pool_ready_enqueue[OF assms(4), of ?e]
  note q2 = two_turns(4-6)[OF assms(4,5), where e = ?e and f = ?f] and ij = two_turns(1)[OF assms(4,5)] two_turns(2,3)[OF assms(4,5), where e = ?e]
  have idle: "worker_ready (w_workers w ! k) \<and> wc_queue (w_workers w ! k) = []" if "k < ?n" for k
    using assms(6) that by simp
  have push: "worker_ready (queue_push e c) = worker_ready c" "wc_queue (queue_push e c) = wc_queue c @ [e]" for e c
    by (simp_all add: queue_push_def)
  have et: "ev_type ?e \<noteq> EV_TERMINATE_PROCESS" "ev_type ?f \<noteq> EV_TERMINATE_PROCESS"
    by (simp_all add: create_event_def remove_event_def)
  obtain a w3 where w3: "worker_round L ?j ?w2 = (Returned (), w3)"
    "stream_step True ?f (abs_state docs w) a (abs_state docs w3)" "server_ok L docs w3" "cache_coll w3 = cache_coll w"
    "w_workers w3 = (w_workers ?w2)[?j := (w_workers ?w2 ! ?j)\<lparr>wc_queue := []\<rparr>]"
    using worker_round_one[OF assms(1), of ?w2 ?j ?f] assms(2,3) ij idle
    by (auto simp: enqueue_frame enqueue_sel(1) q2 push et)
  have same: "abs_state docs w3 = abs_state docs w"
    using remove_absent[OF w3(2)] assms(9) by (simp add: remove_event_def)
  have q3: "w_workers w3 ! ?i = queue_push ?e (w_workers w ! ?i)" "length (w_workers w3) = ?n"
    using w3(5) ij q2 by (simp_all add: enqueue_sel(1))
  obtain b w4 where w4: "worker_round L ?i w3 = (Returned (), w4)"
    "stream_step True ?e (abs_state docs w) b (abs_state docs w4)"
    "w_workers w4 = (w_workers w3)[?i := (w_workers w3 ! ?i)\<lparr>wc_queue := []\<rparr>]"
    using worker_round_one[OF assms(1) w3(3), of ?i ?e] assms(3) ij idle w3(4) same
    by (auto simp: q3 push et)
  have "c_str sid \<in># cached_sids (abs_state docs w4) \<and> r \<in> set (pids w4)"
    using create_step_accepted[OF w4(2)] assms(9-12)
    by (simp add: create_event_def cached_sids_def stream_entry_def pids_def)
  moreover have "wc_queue (w_workers w4 ! k) = []" if "k < ?n" for k
    using w4(3) w3(5) q2 q3(2) ij idle that
    by (cases "k = ?i"; cases "k = ?j") (simp_all add: enqueue_sel(1))
  then have "\<forall>c\<in>set (w_workers w4). wc_queue c = []"
    using w4(3) q3(2) by (auto simp: in_set_conv_nth)
  ultimately show ?thesis
    using start_queues[OF assms(4,7)] stop_queues[OF p1 assms(8)] w3(1) w4(1) by blast
qed

lemma mem_stop_asks:
  "sid \<noteq> [] \<Longrightarrow> asks mem_lib ''/pull/inject/stop'' h (mem_body [(''sid'', Utf8 sid)]) (remove_event sid)"
proof -
  assume "sid \<noteq> []"
  let ?x = "[(''sid'', Utf8 sid)]"
  have "dec_doc (length (enc_doc ?x)) (enc_doc ?x) = ?x" by (subst dec_enc_doc) simp_all
  then have "l_parse mem_lib (c_str (mem_body ?x)) = Some (Document ?x)"
    unfolding mem_body_def c_str_enc by (simp add: mem_lib_def mem_parse_def del: enc_doc.simps)
  with \<open>sid \<noteq> []\<close> show ?thesis by (simp add: asks_def mem_fields)
qed

theorem stop_overtakes_start_witness:
  "\<exists>r1 w1 r2 w2 w3 w4.
     start mem_lib (Some \<lparr>ad_host = ''a'', ad_port = 80\<rparr>) (Some (mem_start ''s'' ''d'' ''x'' 0)) (mem_world 2 []) = (Returned r1, w1) \<and>
     stop mem_lib (Some \<lparr>ad_host = ''a'', ad_port = 80\<rparr>) (Some (mem_body [(''sid'', Utf8 ''x'')])) w1 = (Returned r2, w2) \<and>
     worker_round mem_lib (nat (w_index w1)) w2 = (Returned (), w3) \<and>
     worker_round mem_lib (nat (w_index (mem_world 2 []))) w3 = (Returned (), w4) \<and>
     c_str ''x'' \<in># cached_sids (abs_state mem_docs w4) \<and> 101 \<in> set (pids w4)"
proof -
  have c: "\<forall>c\<in>set (w_workers (mem_world 2 [])). worker_ready c \<and> wc_queue c = []"
    by (simp add: mem_world_def)
  have w: "w_forks (mem_world 2 []) = 101 # [102, 103]" "w_exec_ok (mem_world 2 [])" "2 \<le> w_max (mem_world 2 [])"
    "c_str ''x'' \<notin># cached_sids (abs_state mem_docs (mem_world 2 []))"
    by (simp_all add: mem_world_def cached_sids_def)
  show ?thesis
    using stop_overtakes_start[OF mem_lib_laws mem_world_ok mem_driver_ok pool_ready_mem_world w(3) c _ _ w(4,1) _ w(2),
        where data = "\<lparr>ad_host = ''a'', ad_port = 80\<rparr>" and b = "mem_start ''s'' ''d'' ''x'' 0" and src = "''s''"
          and dest = "''d''" and ty = 0 and b' = "mem_body [(''sid'', Utf8 ''x'')]"]
      mem_start_asks[of "''s''" "''d''" "''x''" 0 "''a''"] mem_stop_asks[of "''x''" "''a''"]
    by fastforce
qed

end
