(* ===== verification/Server.thy ===== *)
theory Server
  imports Races
begin

text \<open>
  The running server as one state machine: the HTTP callbacks, the workers, the schedule thread
  and the deaths of the children, in any order. What keeps its type in every state the server
  reaches, that no queued event is lost, and that every worker can go on.
\<close>

section \<open>The state and its steps\<close>

text \<open>
  The shared state, where each worker stands, and two histories that no code reads: the events
  sent to each worker, and those it has handled.
\<close>

record 'db srv =
  sr_world :: "'db world"
  sr_phase :: "phase list"
  sr_sent :: "rec_event list list"
  sr_done :: "rec_event list list"

abbreviation queue_of :: "'db srv \<Rightarrow> nat \<Rightarrow> rec_event list" where
  "queue_of s i \<equiv> wc_queue (w_workers (sr_world s) ! i)"

abbreviation n_workers :: "'db srv \<Rightarrow> nat" where
  "n_workers s \<equiv> length (w_workers (sr_world s))"

definition log_at :: "nat \<Rightarrow> 'a list \<Rightarrow> 'a list list \<Rightarrow> 'a list list" where
  "log_at i evs hist = hist[i := hist ! i @ evs]"

text \<open>What a move of worker \<open>i\<close> took from the front of its queue.\<close>

definition handled :: "nat \<Rightarrow> 'db world \<Rightarrow> 'db world \<Rightarrow> rec_event list" where
  "handled i w w' =
     (let q = wc_queue (w_workers w ! i) in take (length q - length (wc_queue (w_workers w' ! i))) q)"

text \<open>
  A request runs the callback its path is routed to. The schedule thread looks at one of the
  entries it has read at a time. A child may end whenever it likes.
\<close>

inductive server_step :: "('db, 'j) lib \<Rightarrow> app_data \<Rightarrow> 'db srv \<Rightarrow> 'db srv \<Rightarrow> bool"
  for L data where
  request_taken:
  "route L path = Some h \<Longrightarrow> path \<noteq> ''/health/live'' \<Longrightarrow> asks L path (ad_host data) b ev \<Longrightarrow>
   h (Some data) (Some b) (sr_world s) = (Returned reply, w') \<Longrightarrow>
   server_step L data s
     (s\<lparr>sr_world := w', sr_sent := log_at (nat (w_index (sr_world s))) [ev] (sr_sent s)\<rparr>)"
| request_refused:
  "route L path = Some h \<Longrightarrow> path \<noteq> ''/health/live'' \<Longrightarrow>
   \<forall>b ev. body = Some b \<longrightarrow> \<not> asks L path (ad_host data) b ev \<Longrightarrow>
   h (Some data) body (sr_world s) = (Returned reply, w') \<Longrightarrow>
   server_step L data s (s\<lparr>sr_world := w'\<rparr>)"
| work:
  "worker_move L i (sr_world s, sr_phase s) (w', ph') \<Longrightarrow>
   server_step L data s
     (s\<lparr>sr_world := w', sr_phase := ph', sr_done := log_at i (handled i (sr_world s) w') (sr_done s)\<rparr>)"
| detect:
  "detect_one L p (sr_world s) = (Returned (), w') \<Longrightarrow> pi_pid p = Some n \<Longrightarrow> 0 < n \<Longrightarrow>
   server_step L data s (s\<lparr>sr_world := w'\<rparr>)"
| child_ends: "server_step L data s (s\<lparr>sr_world := child_exits pid (sr_world s)\<rparr>)"

text \<open>A server that has just started: idle workers, and a database it can work with.\<close>

definition server_started :: "('db, 'j) lib \<Rightarrow> ('db \<Rightarrow> coll \<Rightarrow> bson multiset) \<Rightarrow> 'db srv \<Rightarrow> bool" where
  "server_started L docs s \<longleftrightarrow>
     server_ok L docs (sr_world s) \<and> pool_ready (sr_world s) \<and>
     (\<forall>c\<in>set (w_workers (sr_world s)). worker_ready c \<and> wc_queue c = []) \<and>
     sr_phase s = replicate (n_workers s) Between \<and>
     sr_sent s = replicate (n_workers s) [] \<and> sr_done s = replicate (n_workers s) []"

section \<open>The invariant\<close>

text \<open>A worker past its check has the event it checked at the front of its queue.\<close>

definition phases_ok :: "'db srv \<Rightarrow> bool" where
  "phases_ok s \<longleftrightarrow> length (sr_phase s) = n_workers s \<and>
     (\<forall>i<n_workers s. \<forall>p. sr_phase s ! i = Checked p \<longrightarrow>
        (\<exists>ev q. queue_of s i = ev # q \<and> ev_type ev = EV_CREATE_PROCESS \<and> ev_process ev = p))"

text \<open>Every event sent to a worker has been handled or waits, in the order of the requests.\<close>

definition accounted :: "'db srv \<Rightarrow> bool" where
  "accounted s \<longleftrightarrow> length (sr_sent s) = n_workers s \<and> length (sr_done s) = n_workers s \<and>
     (\<forall>i<n_workers s. sr_sent s ! i = sr_done s ! i @ queue_of s i)"

definition server_inv :: "('db, 'j) lib \<Rightarrow> ('db \<Rightarrow> coll \<Rightarrow> bson multiset) \<Rightarrow> 'db srv \<Rightarrow> bool" where
  "server_inv L docs s \<longleftrightarrow>
     server_ok L docs (sr_world s) \<and> pool_ready (sr_world s) \<and>
     (\<forall>i<n_workers s. worker_ready (w_workers (sr_world s) ! i)) \<and> phases_ok s \<and> accounted s"

text \<open>What no step but the push and the pop of an event changes.\<close>

definition stays :: "('db, 'j) lib \<Rightarrow> ('db \<Rightarrow> coll \<Rightarrow> bson multiset) \<Rightarrow> 'db world \<Rightarrow> 'db world \<Rightarrow> bool" where
  "stays L docs w w' \<longleftrightarrow>
     server_ok L docs w' \<and> w_workers w' = w_workers w \<and> w_max w' = w_max w \<and> w_index w' = w_index w \<and>
     cache_coll w' = cache_coll w"

lemma inv_stays: "server_inv L docs s \<Longrightarrow> stays L docs (sr_world s) w' \<Longrightarrow> server_inv L docs (s\<lparr>sr_world := w'\<rparr>)"
  by (simp add: server_inv_def stays_def pool_ready_def phases_ok_def accounted_def)

lemma inv_check:
  assumes "server_inv L docs s" "i < n_workers s" "queue_of s i = ev # q" "ev_type ev = EV_CREATE_PROCESS"
  shows "server_inv L docs (s\<lparr>sr_phase := (sr_phase s)[i := Checked (ev_process ev)]\<rparr>)"
  using assms by (auto simp: server_inv_def phases_ok_def accounted_def nth_list_update)

lemma pop_queue_workers:
  "w_workers (snd (pop_queue i w)) = (w_workers w)[i := (w_workers w ! i)\<lparr>wc_queue := tl (wc_queue (w_workers w ! i))\<rparr>]"
  "w_max (snd (pop_queue i w)) = w_max w" "w_index (snd (pop_queue i w)) = w_index w"
  by (simp_all add: pop_queue_def modP_def)

lemma handled_pop:
  "i < length (w_workers w) \<Longrightarrow> wc_queue (w_workers w ! i) = ev # q \<Longrightarrow> w_workers w' = w_workers w \<Longrightarrow>
   handled i w (snd (pop_queue i w')) = [ev]"
  by (simp add: handled_def pop_queue_workers)

lemma inv_pop:
  assumes "server_inv L docs s" "i < n_workers s" "queue_of s i = ev # q"
  shows "server_inv L docs (s\<lparr>sr_world := snd (pop_queue i (sr_world s)),
           sr_phase := (sr_phase s)[i := Between], sr_done := log_at i [ev] (sr_done s)\<rparr>)"
  using assms
  by (auto simp: server_inv_def phases_ok_def accounted_def log_at_def pop_queue_workers pop_queue_sel
      pool_ready_def nth_list_update)

lemma inv_push:
  assumes "server_inv L docs s"
  shows "server_inv L docs (s\<lparr>sr_world := enqueue ev (sr_world s),
           sr_sent := log_at (nat (w_index (sr_world s))) [ev] (sr_sent s)\<rparr>)"
proof -
  have p: "pool_ready (sr_world s)" using assms by (simp add: server_inv_def)
  then have i: "nat (w_index (sr_world s)) < n_workers s" by (auto simp: pool_ready_def nat_less_iff)
  have "phases_ok (s\<lparr>sr_world := enqueue ev (sr_world s), sr_sent := hist\<rparr>)" for hist
    using assms by (fastforce simp: server_inv_def phases_ok_def enqueue_nth enqueue_sel queue_push_def)
  moreover have "accounted (s\<lparr>sr_world := enqueue ev (sr_world s),
      sr_sent := log_at (nat (w_index (sr_world s))) [ev] (sr_sent s)\<rparr>)"
    using assms i by (auto simp: server_inv_def accounted_def log_at_def enqueue_nth enqueue_sel queue_push_def
        nth_list_update)
  moreover have "worker_ready (w_workers (enqueue ev (sr_world s)) ! k)" if "k < n_workers s" for k
    using assms that by (simp add: server_inv_def enqueue_nth queue_push_def)
  ultimately show ?thesis
    using assms p by (simp add: server_inv_def enqueue_frame enqueue_sel pool_ready_enqueue)
qed

section \<open>Every step keeps the invariant\<close>

lemma stays_cursor: "server_ok L docs w \<Longrightarrow> stays L docs w (w\<lparr>w_cursors := n\<rparr>)"
  by (simp add: stays_def)

lemma stays_fork:
  assumes "lib_laws L docs" "server_ok L docs w" "spawn_fork L p w = (Returned rv, w')"
  shows "stays L docs w w'"
    and "cached_sids (abs_state docs w') \<subseteq># add_mset (c_str (pi_sid p)) (cached_sids (abs_state docs w))"
  by (rule spawn_fork_keeps[OF assms(1,2), of p]; use assms(3) in \<open>simp add: stays_def\<close>)+

lemma stays_detect:
  assumes "lib_laws L docs" "server_ok L docs w" "detect_one L p w = (Returned (), w')" "pi_pid p = Some n" "0 < n"
  shows "stays L docs w w'" and "detect_step (driver_ok L (cache_coll w)) n (abs_state docs w) (abs_state docs w')"
  using detect_one_simulates[OF assms(1,2,4,5)] assms(3) by (auto simp: stays_def)

lemma stays_child:
  assumes "server_ok L docs w"
  shows "stays L docs w (child_exits pid w)" "abs_state docs (child_exits pid w) = kill_spec pid (abs_state docs w)"
proof -
  have snd: "sound_pids (abs_state docs w)" "w_chld_ignored w" using assms by (simp_all add: server_ok_def)
  note c = child_exits_filter[OF snd, of pid]
  show "abs_state docs (child_exits pid w) = kill_spec pid (abs_state docs w)" by (rule c(2))
  then have "sound_pids (abs_state docs (child_exits pid w))" using sound_pids_kill[OF snd(1)] by simp
  with assms show "stays L docs w (child_exits pid w)" unfolding c(1) by (simp add: stays_def server_ok_def)
qed

text \<open>The switch of a worker for an event that is no creation; one without a case only returns when assertions are off.\<close>

lemma other_switch:
  assumes "lib_laws L docs" "server_ok L docs w" "worker_ready (w_workers w ! i)"
    and "wc_queue (w_workers w ! i) = ev # q" "worker_step L i w = (Returned (), w')"
  obtains v rv where "w' = snd (pop_queue i v)" "stays L docs w v"
    "ev_type ev = EV_TERMINATE_PROCESS \<and> abs_state docs v = abs_state docs w \<or>
     stream_step (driver_ok L (cache_coll w)) ev (abs_state docs w) rv (abs_state docs v)"
proof -
  obtain r v where v: "worker_switch L (w_workers w ! i) ev w = (r, v)" by fastforce
  with assms(4,5) have w': "w' = snd (pop_queue i v)" and r: "r = Returned ()"
    by (auto simp: worker_step_def Let_def bindP_def pop_queue_def modP_def split: outcome.splits)
  show thesis
  proof (cases "ev_type ev = EV_TERMINATE_PROCESS")
    case True
    with v r have "v = w" by (auto simp: worker_switch_def assert_then_def ret_def stop_with_def split: if_splits)
    then show thesis using w' assms(2) True by (intro that[of v]) (simp_all add: stays_def)
  next
    case False
    from worker_switch_simulates[OF assms(1-3) False] v
    obtain rv where "stream_step (driver_ok L (cache_coll w)) ev (abs_state docs w) rv (abs_state docs v)" "stays L docs w v"
      by (auto simp: stays_def)
    then show thesis using w' by (intro that[of v rv]) simp_all
  qed
qed

lemma move_inv:
  assumes "lib_laws L docs" "server_inv L docs s" "worker_move L i (sr_world s, sr_phase s) (w', ph')"
  shows "server_inv L docs
    (s\<lparr>sr_world := w', sr_phase := ph', sr_done := log_at i (handled i (sr_world s) w') (sr_done s)\<rparr>)"
proof -
  have ok: "server_ok L docs (sr_world s)" using assms(2) by (simp add: server_inv_def)
  have pop: "server_inv L docs (s\<lparr>sr_world := snd (pop_queue i v), sr_phase := (sr_phase s)[i := Between],
      sr_done := log_at i (handled i (sr_world s) (snd (pop_queue i v))) (sr_done s)\<rparr>)"
    if "stays L docs (sr_world s) v" "i < n_workers s" "queue_of s i = ev # q" for v ev q
    using inv_pop[OF inv_stays[OF assms(2) that(1)], of i ev q] that by (simp add: stays_def handled_pop)
  have same: "(sr_phase s)[i := Between] = sr_phase s" if "sr_phase s ! i = Between"
    using that by (metis list_update_id)
  from assms(3) show ?thesis
  proof cases
    case (check_free ev q)
    then have "w' = (sr_world s)\<lparr>w_cursors := w_cursors (sr_world s) + 1\<rparr>" using spawn_check_result[OF assms(1) ok] by simp
    moreover have "log_at i [] (sr_done s) = sr_done s" by (simp add: log_at_def)
    ultimately show ?thesis
      using inv_check[OF inv_stays[OF assms(2) stays_cursor[OF ok]], where i = i and ev = ev and q = q] check_free by (simp add: handled_def Let_def)
  next
    case (check_taken ev q v)
    then have "v = (sr_world s)\<lparr>w_cursors := w_cursors (sr_world s) + 1\<rparr>"
      using spawn_check_result[OF assms(1) ok, of "ev_process ev"] by simp
    then have "stays L docs (sr_world s) v" using stays_cursor[OF ok] by simp
    with pop[of v ev q] check_taken show ?thesis by (simp add: same)
  next
    case (fork_stream p rv v)
    then obtain ev q where "queue_of s i = ev # q" using assms(2) unfolding server_inv_def phases_ok_def by blast
    with pop[of v ev q] fork_stream stays_fork(1)[OF assms(1) ok] show ?thesis by simp
  next
    case (other_event ev q)
    have "worker_ready (w_workers (sr_world s) ! i)" using assms(2) other_event by (simp add: server_inv_def)
    from other_switch[OF assms(1) ok this other_event(4,6)] obtain v where "w' = snd (pop_queue i v)" "stays L docs (sr_world s) v"
      by metis
    with pop[of v ev q] other_event show ?thesis by (simp add: same)
  qed
qed

lemma request_effect:
  assumes "server_inv L docs s" "route L path = Some h" "path \<noteq> ''/health/live''"
    and "h (Some data) body (sr_world s) = (Returned reply, w')"
  shows "body = Some b \<Longrightarrow> asks L path (ad_host data) b ev \<Longrightarrow> w' = enqueue ev (sr_world s)"
    and "\<forall>b ev. body = Some b \<longrightarrow> \<not> asks L path (ad_host data) b ev \<Longrightarrow> w' = sr_world s"
  using callback_answers[OF assms(2,3), of "sr_world s" body data] assms(1,4) asks_unique[of L path "ad_host data"]
  by (auto simp: server_inv_def answers_def)

lemma server_step_inv:
  assumes "lib_laws L docs" "server_inv L docs s" "server_step L data s t"
  shows "server_inv L docs t"
proof -
  have ok: "server_ok L docs (sr_world s)" using assms(2) by (simp add: server_inv_def)
  from assms(3) show ?thesis
  proof cases
    case (request_taken path h b ev reply w')
    from request_effect(1)[OF assms(2) request_taken(2,3,5) refl request_taken(4)]
    have "w' = enqueue ev (sr_world s)" .
    then show ?thesis using inv_push[OF assms(2)] request_taken by simp
  next
    case (request_refused path h body reply w')
    then have "w' = sr_world s" by (intro request_effect(2)[OF assms(2)])
    then show ?thesis using assms(2) request_refused by simp
  next
    case (work i w' ph')
    then show ?thesis using move_inv[OF assms(1,2)] by simp
  next
    case (detect p w' n)
    then show ?thesis using inv_stays[OF assms(2) stays_detect(1)[OF assms(1) ok]] by simp
  next
    case (child_ends pid)
    then show ?thesis using inv_stays[OF assms(2) stays_child(1)[OF ok]] by simp
  qed
qed

lemma server_started_inv: "server_started L docs s \<Longrightarrow> server_inv L docs s"
  by (auto simp: server_started_def server_inv_def phases_ok_def accounted_def)

interpretation srv_sys: guarded_system
  "\<lambda>s. lib_laws L docs \<and> server_started L docs s" "server_step L data" "\<lambda>s. lib_laws L docs \<and> server_inv L docs s"
  by unfold_locales (auto intro: server_started_inv server_step_inv)

lemma server_run_inv:
  "lib_laws L docs \<Longrightarrow> server_inv L docs s \<Longrightarrow> (server_step L data)\<^sup>*\<^sup>* s t \<Longrightarrow> server_inv L docs t"
  using srv_sys.rtrancl_inv by blast

section \<open>Every worker can go on\<close>

text \<open>
  One event: whatever phase worker \<open>i\<close> is in, at most two of its moves take the event at the
  front of its queue and leave the other workers alone.
\<close>

lemma work_step:
  "worker_move L i (sr_world s, sr_phase s) (w', ph') \<Longrightarrow>
   server_step L data s (s\<lparr>sr_world := w', sr_phase := ph', sr_done := log_at i (handled i (sr_world s) w') (sr_done s)\<rparr>)"
  by (rule server_step.work)

lemma move_exists:
  assumes "lib_laws L docs" "server_inv L docs s" "i < n_workers s" "queue_of s i = ev # q"
    and "ev_type ev \<noteq> EV_TERMINATE_PROCESS"
  obtains (took) v ph' where "worker_move L i (sr_world s, sr_phase s) (snd (pop_queue i v), ph')" "stays L docs (sr_world s) v"
    | (checked) v where "sr_phase s ! i = Between" "ev_type ev = EV_CREATE_PROCESS" "stays L docs (sr_world s) v"
      "worker_move L i (sr_world s, sr_phase s) (v, (sr_phase s)[i := Checked (ev_process ev)])"
proof -
  let ?w = "sr_world s"
  have ok: "server_ok L docs ?w" and rdy: "worker_ready (w_workers ?w ! i)" using assms(2,3) by (auto simp: server_inv_def)
  show thesis
  proof (cases "sr_phase s ! i")
    case (Checked p)
    obtain rv v where "spawn_fork L p ?w = (Returned rv, v)" by (rule spawn_fork_keeps[OF assms(1) ok])
    then show thesis using took worker_move.fork_stream[OF assms(3) Checked] stays_fork(1)[OF assms(1) ok] by blast
  next
    case Between
    show thesis
    proof (cases "ev_type ev = EV_CREATE_PROCESS")
      case True
      have f: "fn_spawn (w_workers ?w ! i) = SpawnProcess" using rdy by (simp add: worker_ready_def)
      let ?v = "?w\<lparr>w_cursors := w_cursors ?w + 1\<rparr>"
      note r = spawn_check_result[OF assms(1) ok, of "ev_process ev"] and st = stays_cursor[OF ok, of "w_cursors ?w + 1"]
      show thesis
      proof (cases "c_str (pi_sid (ev_process ev)) \<in># cached_sids (abs_state docs ?w)")
        case True
        with worker_move.check_taken[OF assms(3) Between assms(4) \<open>ev_type ev = _\<close> f] r st show thesis
          by (intro took[of ?v]) simp_all
      next
        case False
        with worker_move.check_free[OF assms(3) Between assms(4) \<open>ev_type ev = _\<close> f] r st Between \<open>ev_type ev = _\<close>
        show thesis by (intro checked[of ?v]) simp_all
      qed
    next
      case False
      from worker_step_simulates[OF assms(1) ok rdy assms(4,5)] obtain v where v: "worker_step L i ?w = (Returned (), v)"
        by blast
      from other_switch[OF assms(1) ok rdy assms(4) v] obtain u where "v = snd (pop_queue i u)" "stays L docs ?w u" by metis
      then show thesis using took worker_move.other_event[OF assms(3) Between assms(4) False v] by blast
    qed
  qed
qed

lemma take_event:
  assumes "lib_laws L docs" "server_inv L docs s" "i < n_workers s" "queue_of s i = ev # q"
    and "ev_type ev \<noteq> EV_TERMINATE_PROCESS"
  shows "\<exists>t. (server_step L data)\<^sup>*\<^sup>* s t \<and> w_workers (sr_world t) = (w_workers (sr_world s))[i := (w_workers (sr_world s) ! i)\<lparr>wc_queue := q\<rparr>] \<and>
           sr_sent t = sr_sent s"
proof -
  have pop: "\<exists>t. server_step L data s t \<and> w_workers (sr_world t) = (w_workers (sr_world s))[i := (w_workers (sr_world s) ! i)\<lparr>wc_queue := q\<rparr>] \<and>
      sr_sent t = sr_sent s"
    if "worker_move L i (sr_world s, sr_phase s) (snd (pop_queue i v), ph')" "stays L docs (sr_world s) v" "queue_of s i = ev # q"
    for s v ph'
    using work_step[OF that(1)] that(2,3) by (force simp: stays_def pop_queue_workers)
  from assms show ?thesis
  proof (cases rule: move_exists)
    case (took v ph')
    then show ?thesis using pop assms(4) by (blast intro: r_into_rtranclp)
  next
    case (checked v)
    let ?s = "s\<lparr>sr_world := v, sr_phase := (sr_phase s)[i := Checked (ev_process ev)],
        sr_done := log_at i (handled i (sr_world s) v) (sr_done s)\<rparr>"
    have st: "server_step L data s ?s" by (rule work_step[OF checked(4)])
    have inv: "server_inv L docs ?s" by (rule server_step_inv[OF assms(1,2) st])
    have len: "i < length (sr_phase s)" using assms(2,3) by (simp add: server_inv_def phases_ok_def)
    have ws: "w_workers (sr_world ?s) = w_workers (sr_world s)" using checked(3) by (simp add: stays_def)
    then have "i < n_workers ?s" "queue_of ?s i = ev # q" using assms(3,4) by simp_all
    from assms(1) inv this assms(5) obtain t where
      "server_step L data ?s t" "w_workers (sr_world t) = (w_workers (sr_world ?s))[i := (w_workers (sr_world ?s) ! i)\<lparr>wc_queue := q\<rparr>]"
      "sr_sent t = sr_sent ?s"
    proof (cases rule: move_exists)
      case (took u ph')
      then show thesis using pop[of ?s u ph'] \<open>queue_of ?s i = ev # q\<close> that by blast
    qed (use len in simp)
    with st ws show ?thesis by (intro exI[of _ t]) (simp add: converse_rtranclp_into_rtranclp)
  qed
qed

section \<open>Properties of the running server\<close>

text \<open>A started server of \<open>n\<close> workers over the in-memory database, and the same server after one request.\<close>

definition mem_server :: "nat \<Rightarrow> mem_db srv" where
  "mem_server n = \<lparr>sr_world = mem_world n [], sr_phase = replicate n Between,
     sr_sent = replicate n [], sr_done = replicate n []\<rparr>"

abbreviation mem_create :: rec_event where
  "mem_create \<equiv> create_event ''a'' ''s'' ''d'' ''x'' 0"

abbreviation mem_asked :: "nat \<Rightarrow> mem_db srv" where
  "mem_asked n \<equiv> (mem_server n)\<lparr>sr_world := enqueue mem_create (mem_world n []),
     sr_sent := log_at 0 [mem_create] (replicate n [])\<rparr>"

lemma mem_server_started: "0 < n \<Longrightarrow> server_started mem_lib mem_docs (mem_server n)"
proof -
  have "\<forall>c\<in>set (w_workers (mem_world n [])). worker_ready c \<and> wc_queue c = []" "length (w_workers (mem_world n [])) = n"
    by (auto simp: mem_world_def)
  then show "0 < n \<Longrightarrow> server_started mem_lib mem_docs (mem_server n)"
    using mem_world_ok[of n] pool_ready_mem_world[of n] by (simp add: server_started_def mem_server_def)
qed

lemma mem_server_asked:
  assumes "0 < n"
  shows "(server_step mem_lib \<lparr>ad_host = ''a'', ad_port = 80\<rparr>)\<^sup>*\<^sup>* (mem_server n) (mem_asked n)"
proof -
  have a: "asks mem_lib ''/pull/inject/start'' (ad_host \<lparr>ad_host = ''a'', ad_port = 80\<rparr>) (mem_start ''s'' ''d'' ''x'' 0) mem_create"
    by (simp add: mem_start_asks)
  from start_queues[OF pool_ready_mem_world[OF assms] a] obtain reply where
    "start mem_lib (Some \<lparr>ad_host = ''a'', ad_port = 80\<rparr>) (Some (mem_start ''s'' ''d'' ''x'' 0)) (sr_world (mem_server n)) =
       (Returned reply, enqueue mem_create (mem_world n []))" by (auto simp: mem_server_def)
  from server_step.request_taken[where h = "start mem_lib" and data = "\<lparr>ad_host = ''a'', ad_port = 80\<rparr>", OF _ _ a this] show ?thesis
    by (intro r_into_rtranclp) (simp add: route_def mem_server_def mem_world_def)
qed

lemma mem_asked_queue:
  "0 < n \<Longrightarrow> 0 < n_workers (mem_asked n) \<and> queue_of (mem_asked n) 0 = [mem_create]"
  by (simp add: mem_world_def enqueue_def queue_push_def nth_list_update)


lemma create_one_answer:
  "create_one i w = (case w_threads w of
     [] \<Rightarrow> (Returned (), w\<lparr>w_workers := w_workers w @ [new_context i]\<rparr>)
   | r # rs \<Rightarrow> if r = 0 then (Returned (), w\<lparr>w_threads := rs, w_workers := w_workers w @ [new_context i]\<rparr>)
               else (Exited 1, w\<lparr>w_threads := rs\<rparr>))"
  by (simp add: create_one_def pthread_create_def bindP_def modP_def stop_with_def split: list.split)

lemma create_all:
  assumes "\<forall>r\<in>set (take (length is) (w_threads w)). r = 0"
  shows "forP create_one is w = (Returned (), w\<lparr>w_threads := drop (length is) (w_threads w),
           w_workers := w_workers w @ map new_context is\<rparr>)"
  using assms
proof (induction "is" arbitrary: w)
  case (Cons i "is")
  then show ?case by (cases "w_threads w") (simp_all add: bindP_def create_one_answer)
qed simp

lemma create_some_fails:
  assumes "\<exists>r\<in>set (take (length is) (w_threads w)). r \<noteq> 0"
  shows "fst (forP create_one is w) = Exited 1"
  using assms
proof (induction "is" arbitrary: w)
  case (Cons i "is")
  then obtain r rs where r: "w_threads w = r # rs" by (cases "w_threads w") auto
  with Cons show ?case by (cases "r = 0") (auto simp: bindP_def create_one_answer)
qed simp

text \<open>
  C13 (how a server starts). \<open>init\<close> with a positive number of workers, on a world without workers
  whose database the program can work with: when the system grants every thread it asks for, the
  result is a started server, with that many idle workers, all running, worker 0 next in turn, and \<open>SIGCHLD\<close>
  ignored; when it refuses one, the program exits with 1.
\<close>

theorem init_starts_server:
  assumes "0 < n" "w_workers w = []" "cache_up L w"
    and "\<forall>x. x \<in># docs (w_db w) (cache_coll w) \<longrightarrow> stream_doc x" "sound_pids (abs_state docs w)"
  shows "if \<forall>r\<in>set (take n (w_threads w)). r = 0
         then \<exists>w'. bindP Instance (\<lambda>_. biz_init (int n)) w = (Returned False, w') \<and> length (w_workers w') = n \<and>
                w_index w' = 0 \<and> w_chld_ignored w' \<and> (\<forall>c\<in>set (w_workers w'). wc_running c) \<and>
                server_started L docs \<lparr>sr_world = w', sr_phase = replicate n Between,
                  sr_sent = replicate n [], sr_done = replicate n []\<rparr>
         else fst (bindP Instance (\<lambda>_. biz_init (int n)) w) = Exited 1"
proof -
  let ?is = "map int [0..<n]"
  let ?v = "(snd (Instance w))\<lparr>w_chld_ignored := True, w_index := 0, w_max := int n\<rparr>"
  have v: "w_threads ?v = w_threads w" "w_workers ?v = []" "cache_up L ?v" "cache_coll ?v = cache_coll w"
    "w_db ?v = w_db w" "abs_state docs ?v = abs_state docs w"
    using assms(2,3) by (simp_all add: Instance_def modP_def cache_up_def cache_coll_def abs_state_def)
  have run: "bindP Instance (\<lambda>_. biz_init (int n)) w = bindP (forP create_one ?is) (\<lambda>_. ret False) ?v"
    by (simp add: Instance_def biz_init_def create_worker_thread_def bindP_assoc) (simp add: modP_def)
  show ?thesis
  proof (cases "\<forall>r\<in>set (take n (w_threads w)). r = 0")
    case True
    let ?u = "?v\<lparr>w_threads := drop n (w_threads w), w_workers := map new_context ?is\<rparr>"
    have c: "forP create_one ?is ?v = (Returned (), ?u)" using create_all[of ?is ?v] True v by simp
    have "server_ok L docs ?u" using assms(4,5) v by (simp add: server_ok_def cache_up_def cache_coll_def abs_state_def)
    then have "server_started L docs \<lparr>sr_world = ?u, sr_phase = replicate n Between,
        sr_sent = replicate n [], sr_done = replicate n []\<rparr>"
      using assms(1) by (auto simp: server_started_def pool_ready_def)
    moreover have "wc_running (new_context j)" for j by (simp add: new_context_def WorkerContext_new_def)
    ultimately show ?thesis using True c unfolding run by (simp add: bindP_def ret_def)
  next
    case False
    then have "fst (forP create_one ?is ?v) = Exited 1" using v by (intro create_some_fails) auto
    with False show ?thesis unfolding run by (cases "forP create_one ?is ?v") (auto simp: bindP_def)
  qed
qed

theorem init_starts_server_witness:
  "\<exists>w'. bindP Instance (\<lambda>_. biz_init 2) ((mem_world 0 [])\<lparr>w_threads := [0, 0, 1]\<rparr>) = (Returned False, w') \<and>
     length (w_workers w') = 2"
proof -
  let ?w = "(mem_world 0 [])\<lparr>w_threads := [0, 0, 1]\<rparr>"
  have "cache_up mem_lib ?w" "abs_state mem_docs ?w = abs_state mem_docs (mem_world 0 [])"
    "w_workers ?w = []" "\<forall>x. x \<in># mem_docs (w_db ?w) (cache_coll ?w) \<longrightarrow> stream_doc x"
    using mem_world_up(1)[of 0 "[]"] mem_world_ok[of 0]
    by (simp_all add: cache_up_def abs_state_def cache_coll_def server_ok_def) (simp_all add: mem_world_def)
  moreover have "sound_pids (abs_state mem_docs (mem_world 0 []))" using mem_world_ok[of 0] by (simp add: server_ok_def)
  ultimately show ?thesis using init_starts_server[of 2 ?w mem_lib mem_docs] by (auto simp: numeral_2_eq_2)
qed

text \<open>
  C9 (the server keeps its type and does not get stuck). In every state that requests, workers,
  the schedule thread and dying children can bring a started server to, in any order: the
  cached documents are complete records with pids that are neither the server's own nor
  negative, no child is a zombie, the index of the pool is in range, every context holds its
  four functions, a worker past its check still has the creation it checked at the front of
  its queue; and every worker with an event the \<open>switch\<close> has a case for can make its next move.
\<close>

theorem server_type_safe:
  assumes "lib_laws L docs" "server_started L docs s" "(server_step L data)\<^sup>*\<^sup>* s t"
  shows "server_ok L docs (sr_world t) \<and> pool_ready (sr_world t) \<and>
         (\<forall>c\<in>set (w_workers (sr_world t)). worker_ready c) \<and> phases_ok t \<and>
         (\<forall>i<n_workers t. queue_of t i \<noteq> [] \<longrightarrow> ev_type (hd (queue_of t i)) \<noteq> EV_TERMINATE_PROCESS \<longrightarrow>
            (\<exists>w' ph'. worker_move L i (sr_world t, sr_phase t) (w', ph')))"
proof -
  have inv: "server_inv L docs t" using server_run_inv[OF assms(1) server_started_inv assms(3)] assms(2) by blast
  have "\<exists>w' ph'. worker_move L i (sr_world t, sr_phase t) (w', ph')"
    if busy: "i < n_workers t" "queue_of t i \<noteq> []" "ev_type (hd (queue_of t i)) \<noteq> EV_TERMINATE_PROCESS" for i
  proof -
    obtain ev q where q: "queue_of t i = ev # q" "ev_type ev \<noteq> EV_TERMINATE_PROCESS"
      using busy(2,3) by (cases "queue_of t i") auto
    from assms(1) inv busy(1) q show ?thesis by (cases rule: move_exists) blast+
  qed
  with inv show ?thesis by (auto simp: server_inv_def in_set_conv_nth)
qed

theorem server_type_safe_witness:
  "server_ok mem_lib mem_docs (sr_world (mem_asked 2)) \<and> phases_ok (mem_asked 2) \<and>
   (\<exists>w' ph'. worker_move mem_lib 0 (sr_world (mem_asked 2), sr_phase (mem_asked 2)) (w', ph'))"
  using server_type_safe[OF mem_lib_laws mem_server_started mem_server_asked, of 2] mem_asked_queue[of 2]
  by (auto simp: create_event_def)

text \<open>
  C10 (no event is lost). However requests, workers, the schedule thread and dying children
  interleave: the events sent to a worker are those it has handled followed by those that wait
  in its queue, in the order in which the requests came.
\<close>

theorem no_event_lost:
  assumes "lib_laws L docs" "server_started L docs s" "(server_step L data)\<^sup>*\<^sup>* s t" "i < n_workers t"
  shows "sr_sent t ! i = sr_done t ! i @ queue_of t i"
  using server_run_inv[OF assms(1) server_started_inv assms(3)] assms(2,4)
  by (auto simp: server_inv_def accounted_def)

theorem no_event_lost_witness:
  "[mem_create] = sr_done (mem_asked 2) ! 0 @ queue_of (mem_asked 2) 0"
  using no_event_lost[OF mem_lib_laws mem_server_started mem_server_asked, of 2 0] mem_asked_queue[of 2]
  by (simp add: log_at_def)

text \<open>
  C11 (a worker catches up). From every state a started server can reach, a worker whose queue
  holds only events the \<open>switch\<close> has a case for can handle all of them: some continuation
  empties its queue, in which it has handled, in order, every event sent to it, and no other
  queue and no sent event has changed.
\<close>

theorem worker_catches_up:
  assumes "lib_laws L docs" "server_started L docs s" "(server_step L data)\<^sup>*\<^sup>* s t" "i < n_workers t"
    and "\<forall>ev\<in>set (queue_of t i). ev_type ev \<noteq> EV_TERMINATE_PROCESS"
  shows "\<exists>u. (server_step L data)\<^sup>*\<^sup>* t u \<and> queue_of u i = [] \<and> sr_done u ! i = sr_sent t ! i \<and>
           sr_sent u = sr_sent t \<and> (\<forall>k<n_workers t. k \<noteq> i \<longrightarrow> queue_of u k = queue_of t k)"
proof -
  have "\<exists>u. (server_step L data)\<^sup>*\<^sup>* t u \<and> queue_of u i = [] \<and> sr_sent u = sr_sent t \<and>
      n_workers u = n_workers t \<and> (\<forall>k<n_workers t. k \<noteq> i \<longrightarrow> queue_of u k = queue_of t k)"
    if "server_inv L docs t" "i < n_workers t" "\<forall>ev\<in>set (queue_of t i). ev_type ev \<noteq> EV_TERMINATE_PROCESS"
    using that
  proof (induction "queue_of t i" arbitrary: t)
    case (Cons ev q)
    have "ev_type ev \<noteq> EV_TERMINATE_PROCESS" using Cons.hyps(2) Cons.prems(3) by (metis list.set_intros(1))
    from take_event[OF assms(1) Cons.prems(1,2) Cons.hyps(2)[symmetric] this, of data] obtain v where
      v: "(server_step L data)\<^sup>*\<^sup>* t v" "sr_sent v = sr_sent t"
      and ws: "w_workers (sr_world v) = (w_workers (sr_world t))[i := (w_workers (sr_world t) ! i)\<lparr>wc_queue := q\<rparr>]"
      by blast
    have q: "queue_of v i = q" "n_workers v = n_workers t" "\<forall>k<n_workers t. k \<noteq> i \<longrightarrow> queue_of v k = queue_of t k"
      using ws Cons.prems(2) by simp_all
    have "set q \<subseteq> set (queue_of t i)" using Cons.hyps(2) by (metis set_subset_Cons)
    then have "\<exists>u. (server_step L data)\<^sup>*\<^sup>* v u \<and> queue_of u i = [] \<and> sr_sent u = sr_sent v \<and>
        n_workers u = n_workers v \<and> (\<forall>k<n_workers v. k \<noteq> i \<longrightarrow> queue_of u k = queue_of v k)"
      using Cons.prems q server_run_inv[OF assms(1) Cons.prems(1) v(1)] by (intro Cons.hyps(1)) auto
    then show ?case using v q by (metis rtranclp_trans)
  qed auto
  moreover have inv: "server_inv L docs t" using server_run_inv[OF assms(1) server_started_inv assms(3)] assms(2) by blast
  ultimately obtain u where u: "(server_step L data)\<^sup>*\<^sup>* t u" "queue_of u i = []" "sr_sent u = sr_sent t"
    "n_workers u = n_workers t" "\<forall>k<n_workers t. k \<noteq> i \<longrightarrow> queue_of u k = queue_of t k" using assms(4,5) by blast
  have "sr_sent u ! i = sr_done u ! i @ queue_of u i"
    using server_run_inv[OF assms(1) inv u(1)] assms(4) u(4) by (auto simp: server_inv_def accounted_def)
  with u show ?thesis by auto
qed

theorem worker_catches_up_witness:
  "\<exists>u. (server_step mem_lib \<lparr>ad_host = ''a'', ad_port = 80\<rparr>)\<^sup>*\<^sup>* (mem_asked 2) u \<and>
     queue_of u 0 = [] \<and> sr_done u ! 0 = [mem_create]"
  using worker_catches_up[OF mem_lib_laws mem_server_started mem_server_asked, of 2 0] mem_asked_queue[of 2]
  by (auto simp: log_at_def create_event_def)

section \<open>One worker is enough for distinct ids\<close>

text \<open>No stream is cached twice, and the one worker past its check is about to cache a stream that is not.\<close>

definition one_worker_inv :: "('db \<Rightarrow> coll \<Rightarrow> bson multiset) \<Rightarrow> 'db srv \<Rightarrow> bool" where
  "one_worker_inv docs s \<longleftrightarrow> n_workers s = 1 \<and> unique_sids (abs_state docs (sr_world s)) \<and>
     (\<forall>p. sr_phase s ! 0 = Checked p \<longrightarrow> c_str (pi_sid p) \<notin># cached_sids (abs_state docs (sr_world s)))"

lemma unique_sids_sub:
  "unique_sids s \<Longrightarrow> cached_sids t \<subseteq># add_mset x (cached_sids s) \<Longrightarrow> x \<notin># cached_sids s \<Longrightarrow> unique_sids t"
  unfolding unique_sids_def
  by (metis (no_types, opaque_lifting) count_add_mset le_trans mset_subset_eq_count not_in_iff One_nat_def order_refl)

text \<open>The schedule thread adds no stream id.\<close>

lemma detect_step_sub: "detect_step acc n s t \<Longrightarrow> cached_sids t \<subseteq># cached_sids s"
proof (erule detect_step.cases, simp)
  fix s' n' i ev acc' rv t'
  assume "s = s'" "t = t'" "i \<in># ss_cache s'" "c_str (pi_sid (ev_process ev)) = pi_sid i" "stream_step acc' ev s' rv t'"
  moreover from this have "c_str (pi_sid (ev_process ev)) \<in># cached_sids s'" by (auto simp: cached_sids_def)
  ultimately show "cached_sids t \<subseteq># cached_sids s" using stream_step_sids by blast
qed

lemma move_unique:
  assumes "lib_laws L docs" "server_inv L docs s" "one_worker_inv docs s"
    and "worker_move L i (sr_world s, sr_phase s) (w', ph')"
  shows "one_worker_inv docs (s\<lparr>sr_world := w', sr_phase := ph', sr_done := hist\<rparr>)"
proof -
  have ok: "server_ok L docs (sr_world s)" using assms(2) by (simp add: server_inv_def)
  have one: "n_workers s = 1" "length (sr_phase s) = 1" using assms(2,3) by (simp_all add: one_worker_inv_def server_inv_def phases_ok_def)
  from assms(4) show ?thesis
  proof cases
    case (check_free ev q)
    then show ?thesis using spawn_check_result[OF assms(1) ok, of "ev_process ev"] assms(3) one
      by (auto simp: one_worker_inv_def simp del: abs_state_sel)
  next
    case (check_taken ev q v)
    then show ?thesis using spawn_check_result[OF assms(1) ok, of "ev_process ev"] assms(3) one
      by (auto simp: one_worker_inv_def pop_queue_sel simp del: abs_state_sel)
  next
    case (fork_stream p rv v)
    with assms(3) one have "c_str (pi_sid p) \<notin># cached_sids (abs_state docs (sr_world s))" by (simp add: one_worker_inv_def)
    then have "unique_sids (abs_state docs v)"
      using stays_fork(2)[OF assms(1) ok] fork_stream assms(3) by (auto simp: one_worker_inv_def intro: unique_sids_sub)
    with fork_stream one stays_fork(1)[OF assms(1) ok] show ?thesis
      by (simp add: one_worker_inv_def pop_queue_sel stays_def)
  next
    case (other_event ev q)
    have "worker_ready (w_workers (sr_world s) ! i)" using assms(2) other_event by (simp add: server_inv_def)
    from other_switch[OF assms(1) ok this other_event(4,6)] assms(3) obtain v where
      "w' = snd (pop_queue i v)" "stays L docs (sr_world s) v" "unique_sids (abs_state docs v)"
      by (metis one_worker_inv_def unique_sids_step)
    with other_event one show ?thesis by (simp add: one_worker_inv_def pop_queue_sel stays_def)
  qed
qed

lemma server_step_unique:
  assumes "lib_laws L docs" "server_inv L docs s" "one_worker_inv docs s" "server_step L data s t"
  shows "one_worker_inv docs t"
proof -
  have ok: "server_ok L docs (sr_world s)" using assms(2) by (simp add: server_inv_def)
  from assms(4) show ?thesis
  proof cases
    case (request_taken path h b ev reply w')
    from request_effect(1)[OF assms(2) request_taken(2,3,5) refl request_taken(4)]
    show ?thesis using assms(3) request_taken(1) by (simp add: one_worker_inv_def enqueue_frame enqueue_sel)
  next
    case (request_refused path h body reply w')
    then have "w' = sr_world s" by (intro request_effect(2)[OF assms(2)])
    then show ?thesis using assms(3) request_refused by simp
  next
    case (work i w' ph')
    then show ?thesis using move_unique[OF assms(1-3)] by simp
  next
    case (detect p w' n)
    note d = stays_detect[OF assms(1) ok detect(2-4)]
    then show ?thesis using assms(3) detect(1) detect_step_sids[OF d(2)] detect_step_sub[OF d(2)]
      by (auto simp: one_worker_inv_def stays_def dest: mset_subset_eqD)
  next
    case (child_ends pid)
    then show ?thesis using assms(3) stays_child[OF ok, of pid] by (simp add: one_worker_inv_def unique_sids_def stays_def)
  qed
qed

interpretation one_worker: guarded_system
  "\<lambda>s. lib_laws L docs \<and> server_started L docs s \<and> one_worker_inv docs s" "server_step L data"
  "\<lambda>s. lib_laws L docs \<and> server_inv L docs s \<and> one_worker_inv docs s"
  by unfold_locales (auto intro: server_started_inv server_step_inv server_step_unique)

text \<open>
  C12 (one worker never caches a stream twice). A started server with one worker and distinct
  stream ids keeps them distinct in every state it reaches, whatever the clients ask for and
  however the schedule thread and dying children interleave with the two halves of a creation.
  With two workers this fails.
\<close>

theorem one_worker_unique_sids:
  assumes "lib_laws L docs" "server_started L docs s" "(server_step L data)\<^sup>*\<^sup>* s t"
    and "length (w_workers (sr_world s)) = 1" "\<forall>sid. count (cached_sids (abs_state docs (sr_world s))) sid \<le> 1"
  shows "\<forall>sid. count (cached_sids (abs_state docs (sr_world t))) sid \<le> 1"
proof -
  have "one_worker_inv docs s" using assms(2,4,5) by (simp add: one_worker_inv_def server_started_def unique_sids_def)
  then have "one_worker_inv docs t"
    using one_worker.rtrancl_inv[OF assms(3), of docs] server_started_inv[OF assms(2)] assms(1) by blast
  then show ?thesis by (simp add: one_worker_inv_def unique_sids_def)
qed

theorem one_worker_unique_sids_witness:
  "\<forall>sid. count (cached_sids (abs_state mem_docs (sr_world (mem_asked 1)))) sid \<le> 1"
proof (rule one_worker_unique_sids[OF mem_lib_laws mem_server_started mem_server_asked])
  show "length (w_workers (sr_world (mem_server 1))) = 1"
    "\<forall>sid. count (cached_sids (abs_state mem_docs (sr_world (mem_server 1)))) sid \<le> 1"
    by (simp_all add: mem_server_def mem_world_def cached_sids_def)
qed simp_all

end
