(* ===== verification/Machine.thy ===== *)
theory Machine
  imports Server
begin

text \<open>
  What the whole server promises, without the database, the requests' texts or the contexts: an
  abstract machine of streams, queues and workers between which the work is dealt out. The
  running server takes only its steps.
\<close>

section \<open>The abstract machine\<close>

record abs_machine =
  mc_streams :: stream_state
  mc_queues :: "rec_event list list"
  mc_turn :: nat
  mc_phase :: "phase list"

text \<open>What a creation past its check does to the streams; the insert may be lost unless the driver accepts.\<close>

inductive create_step :: "bool \<Rightarrow> process_info \<Rightarrow> stream_state \<Rightarrow> stream_state \<Rightarrow> bool" for acc p s where
  no_fork: "fork_spec p s = (r, t) \<Longrightarrow> r < 0 \<Longrightarrow> create_step acc p s t"
| cached: "fork_spec p s = (r, t) \<Longrightarrow> 0 \<le> r \<Longrightarrow>
    create_step acc p s (t\<lparr>ss_cache := add_mset (stream_entry p r (ss_self s)) (ss_cache s)\<rparr>)"
| insert_lost: "fork_spec p s = (r, t) \<Longrightarrow> 0 \<le> r \<Longrightarrow> \<not> acc \<Longrightarrow> create_step acc p s t"

text \<open>
  A request deals its event out; a worker checks a stream, creates it, or handles any other
  event at once; an event without a case may be dropped; the schedule thread looks at a pid; a
  process ends.
\<close>

inductive machine_step :: "bool \<Rightarrow> abs_machine \<Rightarrow> abs_machine \<Rightarrow> bool" for acc where
  ask:
  "machine_step acc m (m\<lparr>mc_queues := (mc_queues m)[mc_turn m := mc_queues m ! mc_turn m @ [ev]],
     mc_turn := Suc (mc_turn m) mod length (mc_queues m)\<rparr>)"
| check:
  "i < length (mc_queues m) \<Longrightarrow> mc_phase m ! i = Between \<Longrightarrow> mc_queues m ! i = ev # q \<Longrightarrow>
   ev_type ev = EV_CREATE_PROCESS \<Longrightarrow> c_str (pi_sid (ev_process ev)) \<notin># cached_sids (mc_streams m) \<Longrightarrow>
   machine_step acc m (m\<lparr>mc_phase := (mc_phase m)[i := Checked (ev_process ev)]\<rparr>)"
| create:
  "i < length (mc_queues m) \<Longrightarrow> mc_phase m ! i = Checked (ev_process ev) \<Longrightarrow> mc_queues m ! i = ev # q \<Longrightarrow>
   create_step acc (ev_process ev) (mc_streams m) t \<Longrightarrow>
   machine_step acc m (m\<lparr>mc_streams := t, mc_queues := (mc_queues m)[i := q], mc_phase := (mc_phase m)[i := Between]\<rparr>)"
| duplicate:
  "i < length (mc_queues m) \<Longrightarrow> mc_phase m ! i = Between \<Longrightarrow> mc_queues m ! i = ev # q \<Longrightarrow>
   ev_type ev = EV_CREATE_PROCESS \<Longrightarrow> c_str (pi_sid (ev_process ev)) \<in># cached_sids (mc_streams m) \<Longrightarrow>
   machine_step acc m (m\<lparr>mc_queues := (mc_queues m)[i := q]\<rparr>)"
| handle:
  "i < length (mc_queues m) \<Longrightarrow> mc_phase m ! i = Between \<Longrightarrow> mc_queues m ! i = ev # q \<Longrightarrow>
   stream_step acc ev (mc_streams m) rv t \<Longrightarrow> ev_type ev \<noteq> EV_CREATE_PROCESS \<Longrightarrow>
   machine_step acc m (m\<lparr>mc_streams := t, mc_queues := (mc_queues m)[i := q]\<rparr>)"
| dropped:
  "i < length (mc_queues m) \<Longrightarrow> mc_phase m ! i = Between \<Longrightarrow> mc_queues m ! i = ev # q \<Longrightarrow>
   ev_type ev = EV_TERMINATE_PROCESS \<Longrightarrow> machine_step acc m (m\<lparr>mc_queues := (mc_queues m)[i := q]\<rparr>)"
| look: "detect_step acc n (mc_streams m) t \<Longrightarrow> machine_step acc m (m\<lparr>mc_streams := t\<rparr>)"
| ends: "machine_step acc m (m\<lparr>mc_streams := kill_spec pid (mc_streams m)\<rparr>)"

section \<open>The server takes only its steps\<close>

definition machine_of :: "('db \<Rightarrow> coll \<Rightarrow> bson multiset) \<Rightarrow> 'db srv \<Rightarrow> abs_machine" where
  "machine_of docs s =
     \<lparr>mc_streams = abs_state docs (sr_world s), mc_queues = map wc_queue (w_workers (sr_world s)),
      mc_turn = nat (w_index (sr_world s)), mc_phase = sr_phase s\<rparr>"

lemma machine_of_sel [simp]:
  "mc_streams (machine_of docs s) = abs_state docs (sr_world s)"
  "mc_queues (machine_of docs s) = map wc_queue (w_workers (sr_world s))"
  "mc_turn (machine_of docs s) = nat (w_index (sr_world s))" "mc_phase (machine_of docs s) = sr_phase s"
  by (simp_all add: machine_of_def)

lemma machine_of_ghost [simp]:
  "machine_of docs (s\<lparr>sr_sent := h\<rparr>) = machine_of docs s" "machine_of docs (s\<lparr>sr_done := h\<rparr>) = machine_of docs s"
  "machine_of docs (s\<lparr>sr_phase := ph\<rparr>) = (machine_of docs s)\<lparr>mc_phase := ph\<rparr>"
  "(machine_of docs s)\<lparr>mc_streams := abs_state docs (sr_world s)\<rparr> = machine_of docs s"
  by (simp_all add: machine_of_def)

lemma machine_of_stays:
  "stays L docs (sr_world s) w' \<Longrightarrow>
   machine_of docs (s\<lparr>sr_world := w'\<rparr>) = (machine_of docs s)\<lparr>mc_streams := abs_state docs w'\<rparr>"
  by (simp add: machine_of_def stays_def)

lemma machine_of_pop:
  assumes "stays L docs (sr_world s) v" "i < n_workers s" "queue_of s i = ev # q"
  shows "machine_of docs (s\<lparr>sr_world := snd (pop_queue i v)\<rparr>) =
    (machine_of docs s)\<lparr>mc_streams := abs_state docs v, mc_queues := (mc_queues (machine_of docs s))[i := q]\<rparr>"
  using assms by (simp add: machine_of_def stays_def pop_queue_workers pop_queue_sel map_update)

lemma machine_of_push:
  assumes "pool_ready (sr_world s)"
  shows "machine_of docs (s\<lparr>sr_world := enqueue ev (sr_world s)\<rparr>) =
    (let m = machine_of docs s in m\<lparr>mc_queues := (mc_queues m)[mc_turn m := mc_queues m ! mc_turn m @ [ev]],
       mc_turn := Suc (mc_turn m) mod length (mc_queues m)\<rparr>)"
proof -
  let ?w = "sr_world s"
  have i: "nat (w_index ?w) < length (w_workers ?w)" "0 \<le> w_index ?w" "w_max ?w = int (length (w_workers ?w))"
    using assms by (auto simp: pool_ready_def nat_less_iff)
  then have "nat ((w_index ?w + 1) mod w_max ?w) = Suc (nat (w_index ?w)) mod length (w_workers ?w)"
    by (simp add: nat_mod_distrib nat_add_distrib)
  then show ?thesis using i(1)
    by (simp add: machine_of_def Let_def enqueue_frame enqueue_sel) (simp add: enqueue_def queue_push_def map_update)
qed

lemma spawn_fork_create_step:
  assumes "lib_laws L docs" "server_ok L docs w" "spawn_fork L p w = (Returned rv, w')"
  shows "create_step (driver_ok L (cache_coll w)) p (abs_state docs w) (abs_state docs w')"
proof -
  obtain r t where f: "fork_spec p (abs_state docs w) = (r, t)" by fastforce
  from assms(1,2) f show ?thesis
  proof (cases rule: spawn_fork_runs)
    case failed
    then show ?thesis using assms(3) f by (auto intro: create_step.no_fork)
  next
    case (inserted d)
    have w': "abs_state docs w' = t\<lparr>ss_cache := cached_in docs d w\<rparr>" using inserted(2,3) assms(3) by simp
    from inserted(5) show ?thesis
    proof (elim disjE conjE)
      assume c: "cached_in docs d w = ss_cache (abs_state docs w)" "\<not> driver_ok L (cache_coll w)"
      then have "abs_state docs w' = t" using w' fork_spec_sel[OF f] by simp
      then show ?thesis using create_step.insert_lost[OF f inserted(1) c(2)] by simp
    next
      assume c: "cached_in docs d w = add_mset (stream_entry p r (w_self w)) (ss_cache (abs_state docs w))"
      show ?thesis using create_step.cached[OF f inserted(1)] unfolding w' c by simp
    qed
  qed
qed

lemma move_machine:
  assumes "lib_laws L docs" "server_inv L docs s" "worker_move L i (sr_world s, sr_phase s) (w', ph')"
  shows "machine_step (driver_ok L (cache_coll (sr_world s))) (machine_of docs s)
           (machine_of docs (s\<lparr>sr_world := w', sr_phase := ph', sr_done := hist\<rparr>)) \<and> cache_coll w' = cache_coll (sr_world s)"
proof -
  have ok: "server_ok L docs (sr_world s)" using assms(2) by (simp add: server_inv_def)
  let ?m = "machine_of docs s" and ?v = "(sr_world s)\<lparr>w_cursors := w_cursors (sr_world s) + 1\<rparr>"
  from assms(3) show ?thesis
  proof cases
    case (check_free ev q)
    then have "w' = ?v" "c_str (pi_sid (ev_process ev)) \<notin># cached_sids (mc_streams ?m)"
      using spawn_check_result[OF assms(1) ok, of "ev_process ev"] by auto
    with check_free machine_step.check[of i ?m ev q "driver_ok L (cache_coll (sr_world s))"] show ?thesis
      by (simp add: machine_of_stays[OF stays_cursor[OF ok]])
  next
    case (check_taken ev q v)
    then have v: "v = ?v" and c: "c_str (pi_sid (ev_process ev)) \<in># cached_sids (mc_streams ?m)"
      using spawn_check_result[OF assms(1) ok, of "ev_process ev"] by auto
    then show ?thesis
      using check_taken machine_step.duplicate[of i ?m ev q "driver_ok L (cache_coll (sr_world s))"]
      by (simp add: machine_of_pop[OF stays_cursor[OF ok]] pop_queue_sel)
  next
    case (fork_stream p rv v)
    then obtain ev q where q: "queue_of s i = ev # q" "ev_process ev = p"
      using assms(2) unfolding server_inv_def phases_ok_def by blast
    note st = stays_fork(1)[OF assms(1) ok fork_stream(5)]
    from machine_step.create[of i ?m ev q, OF _ _ _ spawn_fork_create_step[OF assms(1) ok fork_stream(5), folded q(2), unfolded machine_of_sel(1)[symmetric]]] fork_stream q st
    show ?thesis by (simp add: machine_of_pop[OF st] pop_queue_sel stays_def)
  next
    case (other_event ev q)
    have "worker_ready (w_workers (sr_world s) ! i)" using assms(2) other_event by (simp add: server_inv_def)
    from other_switch[OF assms(1) ok this other_event(4,6)] obtain v rv where
      v: "w' = snd (pop_queue i v)" "stays L docs (sr_world s) v"
      and e: "ev_type ev = EV_TERMINATE_PROCESS \<and> abs_state docs v = abs_state docs (sr_world s) \<or>
        stream_step (driver_ok L (cache_coll (sr_world s))) ev (abs_state docs (sr_world s)) rv (abs_state docs v)" by metis
    then show ?thesis
      using machine_step.handle[of i ?m ev q] machine_step.dropped[of i ?m ev q] other_event
      by (auto simp: machine_of_pop[OF v(2)] pop_queue_sel stays_def)
  qed
qed

text \<open>A request that is refused is no step; every other step is one, and leaves the collection where it is.\<close>

lemma server_step_machine:
  assumes "lib_laws L docs" "server_inv L docs s" "server_step L data s t"
  shows "(machine_step (driver_ok L (cache_coll (sr_world s))))\<^sup>=\<^sup>= (machine_of docs s) (machine_of docs t) \<and>
         cache_coll (sr_world t) = cache_coll (sr_world s)"
proof -
  have ok: "server_ok L docs (sr_world s)" and rdy: "pool_ready (sr_world s)" using assms(2) by (simp_all add: server_inv_def)
  let ?m = "machine_of docs s"
  from assms(3) show ?thesis
  proof cases
    case (request_taken path h b ev reply w')
    from request_effect(1)[OF assms(2) request_taken(2,3,5) refl request_taken(4)]
    show ?thesis using machine_step.ask[of _ ?m ev] machine_of_push[OF rdy, of docs ev] request_taken(1)
      by (simp add: Let_def enqueue_frame)
  next
    case (request_refused path h body reply w')
    then have "w' = sr_world s" by (intro request_effect(2)[OF assms(2)])
    then show ?thesis using request_refused by simp
  next
    case (work i w' ph')
    then show ?thesis using move_machine[OF assms(1,2)] by simp
  next
    case (detect p w' n)
    note d = stays_detect[OF assms(1) ok detect(2-4)]
    have "cache_coll w' = cache_coll (sr_world s)" using d(1) by (simp add: stays_def)
    then show ?thesis using machine_step.look[of _ n ?m] d detect(1) by (simp add: machine_of_stays)
  next
    case (child_ends pid)
    have "cache_coll (child_exits pid (sr_world s)) = cache_coll (sr_world s)" using stays_child(1)[OF ok] by (simp add: stays_def)
    then show ?thesis using machine_step.ends[of _ ?m pid] stays_child[OF ok, of pid] child_ends by (simp add: machine_of_stays)
  qed
qed

interpretation srv_machine: refined_system
  "\<lambda>s. lib_laws L docs \<and> server_started L docs s \<and> cache_coll (sr_world s) = c" "server_step L data"
  "\<lambda>s. lib_laws L docs \<and> server_inv L docs s \<and> cache_coll (sr_world s) = c"
  "machine_step (driver_ok L c)" "machine_of docs"
  by unfold_locales (metis server_started_inv server_step_inv server_step_machine)+

text \<open>
  C5 (the server implements its specification). Whatever the requests, the workers, the schedule
  thread and the dying children do, and in whatever order: a run of the code from a started
  server is a run of the abstract machine, which deals events out in turn, checks and creates
  streams in two steps, handles every other event in one step of the stream specification, and
  revives dead streams. Nothing of the database, the JSON texts, the handles or the contexts
  shows.
\<close>

theorem server_refines_machine:
  assumes "lib_laws L docs" "server_started L docs s" "(server_step L data)\<^sup>*\<^sup>* s t"
  shows "(machine_step (driver_ok L (cache_coll (sr_world s))))\<^sup>*\<^sup>* (machine_of docs s) (machine_of docs t)"
  using srv_machine.run_sim[OF assms(3)] server_started_inv[OF assms(2)] assms(1) by blast

theorem server_refines_machine_witness:
  "(machine_step True)\<^sup>*\<^sup>* (machine_of mem_docs (mem_server 2)) (machine_of mem_docs (mem_asked 2)) \<and>
   mc_queues (machine_of mem_docs (mem_asked 2)) = [[mem_create], []]"
proof -
  have "mc_queues (machine_of mem_docs (mem_asked 2)) = [[mem_create], []]"
    by (simp add: mem_world_def enqueue_def queue_push_def numeral_2_eq_2)
  then show ?thesis
    using server_refines_machine[OF mem_lib_laws mem_server_started mem_server_asked, of 2] by (simp add: mem_driver_ok)
qed

end
