(* ===== verification/Registry.thy ===== *)
theory Registry
  imports Races
begin

text \<open>
  The host registry, which admits one server per host, and the handles the operations open:
  clients and collections are given back, cursors are not.
\<close>

section \<open>What an operation does to the handles when it returns\<close>

definition frames :: "('w \<Rightarrow> 'w \<Rightarrow> bool) \<Rightarrow> ('w, 'a) prog \<Rightarrow> bool" where
  "frames R m \<longleftrightarrow> (\<forall>w x w'. m w = (Returned x, w') \<longrightarrow> R w w')"

lemma framesD: "frames R m \<Longrightarrow> m w = (Returned x, w') \<Longrightarrow> R w w'"
  unfolding frames_def by blast

lemma frames_bindP:
  "frames R m \<Longrightarrow> (\<And>x. frames R (k x)) \<Longrightarrow> transp R \<Longrightarrow> frames R (bindP m k)"
  unfolding frames_def bindP_eq_Returned by (metis transpD)

lemma frames_forP:
  assumes "\<And>x. frames R (f x)" "transp R" "reflp R"
  shows "frames R (forP f xs)"
proof (induction xs)
  case Nil
  then show ?case using assms(3) by (simp add: frames_def reflp_def)
next
  case (Cons x xs)
  have "frames R (bindP (f x) (\<lambda>_. forP f xs))" using assms(1) Cons assms(2) by (rule frames_bindP)
  then show ?case by (simp add: frames_def)
qed

text \<open>The clients and collections are as before, no cursor has been closed.\<close>

definition balanced :: "'db world \<Rightarrow> 'db world \<Rightarrow> bool" where
  "balanced w w' \<longleftrightarrow> w_clients w' = w_clients w \<and> w_colls w' = w_colls w \<and> w_cursors w \<le> w_cursors w'"

lemma balanced_trans: "transp balanced"
  by (auto simp: transp_def balanced_def)

lemma balanced_refl: "reflp balanced"
  by (simp add: reflp_def balanced_def)

lemma frames_ret [simp]: "frames balanced (ret x)"
  by (simp add: frames_def ret_def balanced_def)

lemma frames_stop [simp]:
  "frames balanced (stop_with Undefined)" "frames balanced (stop_with Aborted)"
  by (simp_all add: frames_def stop_with_def)

lemmas frames_seq = frames_bindP[OF _ _ balanced_trans]

lemma frames_small:
  "frames balanced bson_new" "frames balanced bson_destroy" "frames balanced sys_getpid"
  "frames balanced (driver_call f)" "frames balanced (sys_fork img)" "frames balanced (sys_kill pid sig)"
  "frames balanced (read_int i)" "frames balanced (open_cursor L c q)" "frames balanced (find_loop L lst docs)"
  by (auto simp: frames_def balanced_def bson_new_def bson_destroy_def modP_def sys_getpid_def getP_def
      driver_call_def sys_fork_def sys_kill_def Let_def read_int_def ret_def stop_with_def open_cursor_def
      find_loop_eq split: list.splits if_splits option.splits prod.splits)

lemma frames_assert: "frames balanced k \<Longrightarrow> frames balanced (assert_then L c k)"
  by (simp add: assert_then_def)

lemma frames_mongo:
  "frames balanced (mongo_insert L c q)" "frames balanced (mongo_update L c q u)" "frames balanced (mongo_remove L c q)"
  "frames balanced (mongo_find L c q lst)" "frames balanced (mongo_findOne L c q item)"
  unfolding mongo_insert_def mongo_update_def mongo_remove_def mongo_find_def mongo_findOne_def
  by (auto intro!: frames_assert frames_seq frames_small split: option.split list.split)

lemma frames_with_collection:
  assumes "\<And>c. frames balanced (body c)"
  shows "frames balanced (with_collection L db tb body)"
  unfolding frames_def
proof (intro allI impI)
  fix w x w'
  assume "with_collection L db tb body w = (Returned x, w')"
  then obtain conn w1 coll w2 w3 where
    c: "connect L (w_db_address w) w = (Returned conn, w1)"
    and k: "collection L conn db tb w1 = (Returned coll, w2)"
    and b: "body coll w2 = (Returned x, w3)"
    and r: "w' = snd (connect_close conn (snd (collection_release coll w3)))"
    by (auto simp: with_collection_def bindP_eq_Returned ret_def getP_def)
  have 1: "w_clients w1 = w_clients w + (if conn = None then 0 else 1)" "w_colls w1 = w_colls w"
    "w_cursors w1 = w_cursors w"
    using c by (auto simp: connect_def assert_then_def modP_def bindP_def ret_def stop_with_def Let_def split: if_splits)
  have 2: "w_clients w2 = w_clients w1" "w_colls w2 = w_colls w1 + (if coll = None then 0 else 1)"
    "w_cursors w2 = w_cursors w1"
    using k by (auto simp: collection_def assert_then_def modP_def bindP_def ret_def stop_with_def Let_def
        split: if_splits option.splits)
  have "balanced w2 w3" using assms b by (rule framesD)
  with 1 2 show "balanced w w'"
    by (auto simp: r balanced_def connect_close_def collection_release_def modP_def)
qed

lemma frames_cache:
  "frames balanced (lookup_one L tb q)" "frames balanced (remove_one L db tb q)"
  "frames balanced (add_process_to_cache L info)" "frames balanced (update_process_info L info)"
  "frames balanced (find_all_process L ps)"
  unfolding lookup_one_def remove_one_def add_process_to_cache_def update_process_info_def find_all_process_def
  by (auto intro!: frames_with_collection frames_seq frames_small frames_mongo split: prod.split)

lemma frames_process:
  "frames balanced (spawn_process_i L info)" "frames balanced (spawn_process L info)"
  "frames balanced (process_reload L sid)" "frames balanced (remove_process L info)"
  "frames balanced (detect_one L p)"
  unfolding spawn_process_i_def spawn_process_def spawn_fork_def process_reload_def remove_process_def detect_one_def
    is_process_exist_sid_def is_process_exist_pid_def get_process_info_def remove_process_by_stream_def
    check_system_process_exist_def
  by (auto intro!: frames_seq frames_small frames_cache split: prod.split option.split)

lemma find_all_cursor:
  assumes "l_asserts L" "find_all_process L ps w = (Returned x, w')"
  shows "w_cursors w + 1 \<le> w_cursors w'"
proof -
  let ?R = "\<lambda>w w'. w_cursors w \<le> w_cursors w'"
  from assms(2) obtain conn w1 coll w2 vec w3 w4 where
    c: "connect L (w_db_address w) w = (Returned conn, w1)"
    and k: "collection L conn MONGODB_DATABASE MONGODB_COLLECTION_PROCESS w1 = (Returned coll, w2)"
    and b: "mongo_find L coll [] [] (w2\<lparr>w_bsons := w_bsons w2 + 1\<rparr>) = (Returned vec, w3)"
    and r: "w_cursors w' = w_cursors w3"
    by (auto simp: find_all_process_def with_collection_def bindP_eq_Returned ret_def getP_def bson_new_def
        bson_destroy_def modP_def connect_close_def collection_release_def)
  have "w_cursors w1 = w_cursors w"
    using c by (auto simp: connect_def assert_then_def modP_def bindP_def ret_def stop_with_def Let_def split: if_splits)
  moreover have "w_cursors w2 = w_cursors w1"
    using k by (auto simp: collection_def assert_then_def modP_def bindP_def ret_def stop_with_def Let_def
        split: if_splits option.splits)
  moreover have "w_cursors w3 = w_cursors w2 + 1"
    using b assms(1) by (auto simp: mongo_find_def assert_then_def stop_with_def bindP_eq_Returned open_cursor_def
        find_loop_eq ret_def split: option.splits if_splits)
  ultimately show ?thesis using r by simp
qed

text \<open>
  The schedule thread leaks cursors. Any number of rounds of the schedule thread gives
  back every client and collection it opened, and leaves at least one cursor open per round:
  \<open>find\<close> and \<open>findOne\<close> never destroy theirs.
\<close>

theorem schedule_leaks_cursors:
  assumes "l_asserts L" "schedule_rounds L n w = (Returned (), w')"
  shows "w_clients w' = w_clients w \<and> w_colls w' = w_colls w \<and> w_cursors w + int n \<le> w_cursors w'"
  using assms(2)
proof (induction n arbitrary: w)
  case 0
  then show ?case by simp
next
  case (Suc n)
  then obtain rv v where v: "process_alive_detect L w = (Returned rv, v)"
    "schedule_rounds L n v = (Returned (), w')"
    by (auto simp: bindP_eq_Returned)
  then obtain ps u where u: "find_all_process L [] w = (Returned (rv, ps), u)"
    "forP (detect_one L) ps u = (Returned (), v)"
    by (auto simp: process_alive_detect_def bindP_eq_Returned ret_def)
  have "balanced w u" using frames_cache(5) u(1) by (rule framesD)
  moreover have "balanced u v"
    using frames_forP[of balanced "detect_one L", OF frames_process(5) balanced_trans balanced_refl] u(2)
    by (rule framesD)
  ultimately show ?case
    using Suc.IH[OF v(2)] find_all_cursor[OF assms(1) u(1)] by (simp add: balanced_def)
qed

lemma mem_two_rounds: "fst (schedule_rounds mem_lib 2 (mem_world 1 [])) = Returned ()"
  by code_simp

theorem schedule_leaks_cursors_witness:
  "w_clients (snd (schedule_rounds mem_lib 2 (mem_world 1 []))) = 0 \<and>
   2 \<le> w_cursors (snd (schedule_rounds mem_lib 2 (mem_world 1 [])))"
  using schedule_leaks_cursors[of mem_lib 2 "mem_world 1 []" "snd (schedule_rounds mem_lib 2 (mem_world 1 []))"]
    mem_two_rounds
  by (cases "schedule_rounds mem_lib 2 (mem_world 1 [])") (simp add: mem_lib_def mem_world_def)

section \<open>One server per host\<close>

definition host_docs :: "('db \<Rightarrow> coll \<Rightarrow> bson multiset) \<Rightarrow> 'db world \<Rightarrow> string \<Rightarrow> bson multiset" where
  "host_docs docs w h = filter_mset (has_field ''host'' (Utf8 h)) (docs (w_db w) (host_coll w))"

lemma find_empty:
  assumes "find_law L docs" "scalar v"
  shows "l_find L c [(k, v)] d = [] \<longleftrightarrow> filter_mset (has_field k v) (docs d c) = {#}"
  using find_lawD[OF assms] by (metis mset_zero_iff)

lemma is_host_exist_up:
  assumes "lib_laws L docs" "hosts_up L w"
  shows "is_host_exist L h w =
     (Returned (host_docs docs w (c_str h) \<noteq> {#}), w\<lparr>w_cursors := w_cursors w + 1\<rparr>)"
proof -
  let ?found = "l_find L (host_coll w) [(''host'', Utf8 (c_str h))] (w_db w)"
  have m: "mset ?found = host_docs docs w (c_str h)"
    unfolding host_docs_def by (rule find_lawD[OF lib_lawsD(1)[OF assms(1)]]) simp
  have "set ?found \<subseteq> set_mset (docs (w_db w) (host_coll w))"
    using m by (metis host_docs_def multiset_filter_subset set_mset_mono set_mset_mset)
  then have "\<forall>doc\<in>set ?found. l_as_json L doc \<noteq> None"
    using lib_lawsD(6)[OF assms(1)] unfolding text_law_def by blast
  then have "lookup_one L MONGODB_COLLECTION_HOSTINFO [(''host'', Utf8 (c_str h))] w =
      (Returned (case ?found of [] \<Rightarrow> (err REC_ERROR_PORCESS_INFO_NONE, [])
         | doc # _ \<Rightarrow> (err ERROR_OK, c_str (the (l_as_json L doc)))), w\<lparr>w_cursors := w_cursors w + 1\<rparr>)"
    using lookup_one_up[of L w MONGODB_COLLECTION_HOSTINFO "[(''host'', Utf8 (c_str h))]"] assms(2)
    by (simp add: hosts_up_def host_coll_def)
  then show ?thesis
    using m by (cases ?found) (auto simp: is_host_exist_def bindP_def ret_def)
qed

lemma register_up:
  assumes "hosts_up L w"
    and "l_insert L (host_coll w) [(''host'', Utf8 (c_str h)), (''port'', Int32 port)] (w_db w) = (ok, d)"
  shows "register_host_to_cache L h port w =
     (Returned (if ok then err ERROR_OK else err REC_ERROR_MONGODB),
      w\<lparr>w_host := h, w_port := port, w_db := d\<rparr>)"
  using assms
  by (simp add: register_host_to_cache_def hosts_up_def db_up_def host_coll_def connect_def collection_def
      assert_then_def Let_def bindP_def ret_def modP_def getP_def mongo_insert_def driver_call_def bson_new_def
      bson_destroy_def collection_release_def connect_close_def)

lemma host_register_taken:
  assumes "lib_laws L docs" "hosts_up L w" "host_docs docs w (c_str h) \<noteq> {#}"
  shows "host_register L h port w = (Returned False, w\<lparr>w_cursors := w_cursors w + 1\<rparr>)"
  using is_host_exist_up[OF assms(1,2)] assms(3) by (simp add: host_register_def bindP_def ret_def)

lemma host_register_free:
  assumes "lib_laws L docs" "hosts_up L w" "host_docs docs w (c_str h) = {#}"
  obtains w' where "host_register L h port w = (Returned True, w')" "hosts_up L w'" "w_host w' = h" "w_port w' = port"
    and "w_db_address w' = w_db_address w" "driver_ok L (host_coll w) \<Longrightarrow> size (host_docs docs w' (c_str h)) = 1"
    and "size (host_docs docs w' (c_str h)) \<le> 1"
proof -
  let ?x = "[(''host'', Utf8 (c_str h)), (''port'', Int32 port)]"
  let ?w = "w\<lparr>w_cursors := w_cursors w + 1\<rparr>"
  obtain ok d where i: "l_insert L (host_coll w) ?x (w_db w) = (ok, d)" by fastforce
  let ?v = "?w\<lparr>w_host := h, w_port := port, w_db := d\<rparr>"
  have up: "hosts_up L ?w" "hosts_up L ?v" using assms(2) by (simp_all add: hosts_up_def)
  have "register_host_to_cache L h port ?w = (Returned (if ok then err ERROR_OK else err REC_ERROR_MONGODB), ?v)"
    using register_up[OF up(1), of h port ok d] i by (simp add: host_coll_def)
  then have r: "host_register L h port w = (Returned True, ?v)"
    using is_host_exist_up[OF assms(1,2)] assms(3) by (simp add: host_register_def bindP_def ret_def)
  have "size (host_docs docs ?v (c_str h)) = 1" if "driver_ok L (host_coll w)"
  proof -
    have ok: "ok" using that i unfolding driver_ok_def by (metis fst_conv)
    obtain y where y: "same_fields ?x y" "docs d = (docs (w_db w))(host_coll w := add_mset y (docs (w_db w) (host_coll w)))"
      using lib_lawsD(2)[OF assms(1)] i ok unfolding insert_law_def by metis
    then show ?thesis using assms(3) by (simp add: host_docs_def host_coll_def same_fields_def has_field_def)
  qed
  moreover have "size (host_docs docs ?v (c_str h)) \<le> 1"
  proof -
    have "docs d = docs (w_db w) \<or>
        (\<exists>y. same_fields ?x y \<and> docs d = (docs (w_db w))(host_coll w := add_mset y (docs (w_db w) (host_coll w))))"
      using lib_lawsD(2)[OF assms(1)] i unfolding insert_law_def by metis
    then have "docs d (host_coll w) = docs (w_db w) (host_coll w) \<or> (\<exists>y. docs d (host_coll w) = add_mset y (docs (w_db w) (host_coll w)))"
      by (metis fun_upd_same)
    moreover have "filter_mset (has_field ''host'' (Utf8 (c_str h))) (docs (w_db w) (host_coll w)) = {#}"
      using assms(3) unfolding host_docs_def .
    moreover have "host_docs docs ?v (c_str h) = filter_mset (has_field ''host'' (Utf8 (c_str h))) (docs d (host_coll w))"
      by (simp add: host_docs_def host_coll_def)
    ultimately show ?thesis by (elim disjE exE) (simp_all only: filter_mset_add_mset size_empty, simp_all)
  qed
  ultimately show thesis using r up(2) by (intro that[of ?v]) simp_all
qed

text \<open>
  C14 (one server per host). \<open>host_register\<close> refuses a host that has a record and writes
  nothing; for a host without one it says yes, whether or not the insert succeeded, and when it
  did, a second registration of the host is refused until the record is removed.
\<close>

theorem host_register_once:
  assumes "lib_laws L docs" "hosts_up L w"
  shows "\<exists>b w'. host_register L h port w = (Returned b, w') \<and>
           (b \<longleftrightarrow> host_docs docs w (c_str h) = {#}) \<and>
           (\<not> b \<longrightarrow> docs (w_db w') = docs (w_db w)) \<and>
           (b \<longrightarrow> w_host w' = h \<and> w_port w' = port) \<and>
           (driver_ok L (host_coll w) \<longrightarrow> fst (host_register L h port' w') = Returned False)"
proof (cases "host_docs docs w (c_str h) = {#}")
  case False
  let ?w = "w\<lparr>w_cursors := w_cursors w + 1\<rparr>"
  have "hosts_up L ?w" "host_docs docs ?w (c_str h) \<noteq> {#}"
    using assms(2) False by (simp_all add: hosts_up_def host_docs_def host_coll_def)
  then show ?thesis
    using False host_register_taken[OF assms False] host_register_taken[OF assms(1), of ?w] by (intro exI[of _ False]) simp
next
  case True
  obtain w' where w': "host_register L h port w = (Returned True, w')" "hosts_up L w'" "w_host w' = h" "w_port w' = port"
    and one: "driver_ok L (host_coll w) \<Longrightarrow> size (host_docs docs w' (c_str h)) = 1"
    using host_register_free[OF assms True, of port] by metis
  have "host_docs docs w' (c_str h) \<noteq> {#}" if "driver_ok L (host_coll w)"
    using one[OF that] by (metis size_empty zero_neq_one)
  then show ?thesis using w' True host_register_taken[OF assms(1), of w'] by auto
qed

theorem host_register_once_witness:
  "\<exists>w'. host_register mem_lib ''a'' 80 (mem_world 1 []) = (Returned True, w') \<and>
        fst (host_register mem_lib ''a'' 81 w') = Returned False"
proof -
  have "host_docs mem_docs (mem_world 1 []) (c_str ''a'') = {#}" "driver_ok mem_lib (host_coll (mem_world 1 []))"
    by (simp_all add: host_docs_def mem_world_def mem_driver_ok)
  then show ?thesis
    using host_register_once[OF mem_lib_laws mem_world_up(2), of "''a''" 80 1 "[]" 81] by auto
qed

lemma remove_one_elsewhere:
  assumes "remove_law L docs" "remove_one L db tb [(k, v)] w = (Returned r, w')" "scalar v"
    and "c_str db \<noteq> fst (snd c)"
  shows "docs (w_db w') c = docs (w_db w) c"
proof -
  from assms(2) obtain conn w1 col w2 ok w3 where
    cn: "connect L (w_db_address w) w = (Returned conn, w1)"
    and k: "collection L conn db tb w1 = (Returned col, w2)"
    and m: "mongo_remove L col [(k, v)] (w2\<lparr>w_bsons := w_bsons w2 + 1\<rparr>) = (Returned ok, w3)"
    and w': "w_db w' = w_db w3"
    by (auto simp: remove_one_def with_collection_def bindP_eq_Returned ret_def getP_def bson_new_def
        bson_destroy_def modP_def connect_close_def collection_release_def)
  have 1: "w_db w1 = w_db w"
    using cn by (auto simp: connect_def assert_then_def modP_def bindP_def ret_def stop_with_def Let_def split: if_splits)
  have 2: "w_db w2 = w_db w1" "\<And>h. col = Some h \<Longrightarrow> fst (snd h) = c_str db"
    using k by (auto simp: collection_def assert_then_def modP_def bindP_def ret_def stop_with_def Let_def
        split: if_splits option.splits)
  show ?thesis
  proof (cases col)
    case None
    then show ?thesis
      using m 1 2 w' by (auto simp: mongo_remove_def assert_then_def ret_def stop_with_def split: if_splits)
  next
    case (Some h)
    obtain b d where rm: "l_remove L h [(k, v)] (w_db w2) = (b, d)" by fastforce
    have "w_db w3 = d" using m Some rm by (auto simp: mongo_remove_def assert_then_def driver_call_def)
    moreover have "h \<noteq> c" using 2(2)[OF Some] assms(4) by auto
    then have "docs d c = docs (w_db w2) c"
      using assms(1,3) rm unfolding remove_law_def by (metis fun_upd_apply)
    ultimately show ?thesis using w' 1 2(1) by simp
  qed
qed

text \<open>
  Removal by pid looks in the wrong place. Whenever \<open>remove_process_by_id\<close> returns, with
  whatever result and for whichever pid, the stream cache holds the documents it held before:
  the function works on the database \<open>rec_distribute\<close>.
\<close>

theorem remove_process_by_id_misses_cache:
  assumes "lib_laws L docs" "remove_process_by_id L pid w = (Returned r, w')"
  shows "docs (w_db w') (cache_coll w) = docs (w_db w) (cache_coll w)"
proof (rule remove_one_elsewhere[OF lib_lawsD(4)[OF assms(1)]])
  show "remove_one L ''rec_distribute'' ''process_info'' [(''pid'', Int32 pid)] w = (Returned r, w')"
    using assms(2) by (simp add: remove_process_by_id_def Let_def)
  show "c_str ''rec_distribute'' \<noteq> fst (snd (cache_coll w))"
    by (simp add: cache_coll_def MONGODB_DATABASE_def c_str_def NUL_def)
qed simp

theorem remove_process_by_id_misses_cache_witness:
  "mem_docs (w_db (snd (remove_process_by_id mem_lib 50 (mem_serving [(''x'', 50)] [50])))) mem_coll =
     {#mem_stream ''x'' 50#}"
proof -
  let ?w = "mem_serving [(''x'', 50)] [50]"
  have "fst (remove_process_by_id mem_lib 50 ?w) = Returned 0"
    by code_simp
  then obtain v where "remove_process_by_id mem_lib 50 ?w = (Returned 0, v)"
    by (cases "remove_process_by_id mem_lib 50 ?w") auto
  then show ?thesis
    using remove_process_by_id_misses_cache[OF mem_lib_laws, of 50 ?w 0 v]
    by (simp add: mem_serving_coll mem_serving_docs)
qed

end
