(* ===== verification/Sys.thy ===== *)
theory Sys
  imports CLib
begin

text \<open>
  The operating system as far as the two daemons look at it besides the process table: files,
  descriptors, advisory locks, the session and the answers of the calls that may fail. The
  definitions are those of the POSIX calls the code uses; what the system decides (may a file
  be opened, does a write succeed) is a field of the state.
\<close>

section \<open>State\<close>

text \<open>What \<open>fork\<close> answers: it fails, or one looks at the parent, or at the child with its pid.\<close>

datatype fork_side = ForkFails | ParentSide | ChildSide int

text \<open>
  \<open>os_fds\<close> are the open descriptors with the file each refers to; \<open>os_locks\<close> gives the process
  that holds the lock on a file; \<open>os_dirs\<close> are the paths that exist besides the files.
\<close>

record os =
  os_pid :: int
  os_files :: "string \<rightharpoonup> string"
  os_locks :: "string \<rightharpoonup> int"
  os_fds :: "(int \<times> string) list"
  os_denied :: "string \<Rightarrow> bool"
  os_full :: bool
  os_fork :: fork_side
  os_session :: int
  os_setsid_ok :: bool
  os_umask :: int
  os_dup_ok :: bool
  os_ifaddr :: "string \<rightharpoonup> string"
  os_socket_ok :: bool

section \<open>Calls\<close>

text \<open>The lowest descriptor that is free.\<close>

definition fresh_fd :: "(int \<times> string) list \<Rightarrow> int" where
  "fresh_fd fds = hd (filter (\<lambda>n. n \<notin> set (map fst fds)) (map int [0..<Suc (length fds)]))"

definition fd_file :: "(int \<times> string) list \<Rightarrow> int \<Rightarrow> string option" where
  "fd_file fds fd = map_of fds fd"

definition os_getpid :: "(os, int) prog" where
  "os_getpid = getP os_pid"

text \<open>\<open>open\<close>, with \<open>O_CREAT\<close> or without; no \<open>O_TRUNC\<close>.\<close>

definition sys_open :: "string \<Rightarrow> bool \<Rightarrow> (os, int) prog" where
  "sys_open path create s =
     (if os_denied s path \<or> (os_files s path = None \<and> \<not> create) then (Returned (- 1), s)
      else (let fd = fresh_fd (os_fds s) in
            (Returned fd,
             s\<lparr>os_files := (if os_files s path = None then (os_files s)(path \<mapsto> []) else os_files s),
               os_fds := (fd, path) # os_fds s\<rparr>)))"

text \<open>
  \<open>close\<close>: a process that closes any descriptor of a file loses its locks on that file.
\<close>

definition drop_lock :: "string \<Rightarrow> os \<Rightarrow> os" where
  "drop_lock f s = (if os_locks s f = Some (os_pid s) then s\<lparr>os_locks := (os_locks s)(f := None)\<rparr> else s)"

definition sys_close :: "int \<Rightarrow> (os, int) prog" where
  "sys_close fd s =
     (case fd_file (os_fds s) fd of
        None \<Rightarrow> (Returned (- 1), s)
      | Some f \<Rightarrow> (Returned 0, drop_lock f (s\<lparr>os_fds := filter (\<lambda>e. fst e \<noteq> fd) (os_fds s)\<rparr>)))"

text \<open>\<open>lockf(fd, F_TLOCK, 0)\<close> and \<open>lockf(fd, F_ULOCK, 0)\<close>.\<close>

definition sys_tlock :: "int \<Rightarrow> (os, int) prog" where
  "sys_tlock fd s =
     (case fd_file (os_fds s) fd of
        None \<Rightarrow> (Returned (- 1), s)
      | Some f \<Rightarrow>
          (case os_locks s f of
             None \<Rightarrow> (Returned 0, s\<lparr>os_locks := (os_locks s)(f \<mapsto> os_pid s)\<rparr>)
           | Some p \<Rightarrow> (Returned (if p = os_pid s then 0 else - 1), s)))"

definition sys_ulock :: "int \<Rightarrow> (os, int) prog" where
  "sys_ulock fd s =
     (case fd_file (os_fds s) fd of
        None \<Rightarrow> (Returned (- 1), s)
      | Some f \<Rightarrow> (Returned 0, drop_lock f s))"

text \<open>The first \<open>write\<close> and the first \<open>read\<close> on a descriptor just opened, at offset 0.\<close>

definition sys_write :: "int \<Rightarrow> string \<Rightarrow> (os, int) prog" where
  "sys_write fd b s =
     (case fd_file (os_fds s) fd of
        None \<Rightarrow> (Returned (- 1), s)
      | Some f \<Rightarrow>
          if os_full s then (Returned (- 1), s)
          else (let old = (case os_files s f of None \<Rightarrow> [] | Some t \<Rightarrow> t) in
                (Returned (int (length b)),
                 s\<lparr>os_files := (os_files s)(f \<mapsto> b @ drop (length b) old)\<rparr>)))"

definition sys_read :: "int \<Rightarrow> nat \<Rightarrow> (os, string option) prog" where
  "sys_read fd n s =
     (case fd_file (os_fds s) fd of
        None \<Rightarrow> (Returned None, s)
      | Some f \<Rightarrow> (Returned (Some (take n (case os_files s f of None \<Rightarrow> [] | Some t \<Rightarrow> t))), s))"

text \<open>\<open>dup2(fd, to)\<close>, which closes \<open>to\<close> first, and does nothing when the two are the same.\<close>

definition sys_dup2 :: "int \<Rightarrow> int \<Rightarrow> (os, int) prog" where
  "sys_dup2 fd to s =
     (case fd_file (os_fds s) fd of
        None \<Rightarrow> (Returned (- 1), s)
      | Some f \<Rightarrow>
          if \<not> os_dup_ok s then (Returned (- 1), s)
          else if fd = to then (Returned to, s)
          else (Returned to,
                (case fd_file (os_fds s) to of None \<Rightarrow> id | Some g \<Rightarrow> drop_lock g)
                  (s\<lparr>os_fds := (to, f) # filter (\<lambda>e. fst e \<noteq> to) (os_fds s)\<rparr>)))"

definition sys_setsid :: "(os, int) prog" where
  "sys_setsid s =
     (if os_setsid_ok s then (Returned (os_pid s), s\<lparr>os_session := os_pid s\<rparr>) else (Returned (- 1), s))"

text \<open>The child of a \<open>fork\<close> holds no lock and is a process of its own.\<close>

definition os_fork_call :: "(os, int) prog" where
  "os_fork_call s =
     (case os_fork s of
        ForkFails \<Rightarrow> (Returned (- 1), s)
      | ParentSide \<Rightarrow> (Returned 1, s)
      | ChildSide p \<Rightarrow> (Returned 0, s\<lparr>os_pid := p\<rparr>))"

definition sys_unlink :: "string \<Rightarrow> (os, unit) prog" where
  "sys_unlink path = modP (\<lambda>s. s\<lparr>os_files := (os_files s)(path := None)\<rparr>)"

text \<open>A part of the state, worked on by a program for that part.\<close>

definition zoom :: "('w \<Rightarrow> 's) \<Rightarrow> ('s \<Rightarrow> 'w \<Rightarrow> 'w) \<Rightarrow> ('s, 'a) prog \<Rightarrow> ('w, 'a) prog" where
  "zoom g p m w = (case m (g w) of (r, s) \<Rightarrow> (r, p s w))"

lemma zoom_Returned: "m (g w) = (Returned x, s) \<Longrightarrow> zoom g p m w = (Returned x, p s w)"
  by (simp add: zoom_def)

section \<open>What a process leaves to the others\<close>

text \<open>
  Between \<open>o1\<close> and \<open>o2\<close> the process has deleted no file and has taken no lock, though it may have lost
  some of its own; the locks of the others are theirs as before.
\<close>

definition os_kept :: "os \<Rightarrow> os \<Rightarrow> bool" where
  "os_kept o1 o2 \<longleftrightarrow>
     os_denied o2 = os_denied o1 \<and> os_pid o2 = os_pid o1 \<and> dom (os_files o1) \<subseteq> dom (os_files o2) \<and>
     (\<forall>g. os_locks o2 g = os_locks o1 g \<or> os_locks o1 g = Some (os_pid o1) \<and> os_locks o2 g = None)"

lemma os_kept_refl [simp, intro]: "os_kept o1 o1"
  by (simp add: os_kept_def)

lemma os_kept_trans [trans]: "os_kept o1 o2 \<Longrightarrow> os_kept o2 o3 \<Longrightarrow> os_kept o1 o3"
  unfolding os_kept_def by (metis subset_trans)

lemma os_kept_ran: "os_kept o1 o2 \<Longrightarrow> ran (os_locks o2) \<subseteq> ran (os_locks o1)"
proof
  fix q assume k: "os_kept o1 o2" and "q \<in> ran (os_locks o2)"
  then obtain g where g: "os_locks o2 g = Some q" by (auto simp: ran_def)
  have "os_locks o2 g = os_locks o1 g \<or> os_locks o2 g = None" using k unfolding os_kept_def by iprover
  with g have "os_locks o1 g = Some q" by auto
  then show "q \<in> ran (os_locks o1)" by (auto simp: ran_def)
qed

lemma os_kept_other: "os_kept o1 o2 \<Longrightarrow> os_locks o1 g = Some q \<Longrightarrow> q \<noteq> os_pid o1 \<Longrightarrow> os_locks o2 g = Some q"
  unfolding os_kept_def by (metis option.inject)

lemma os_kept_sel: "os_kept o1 o2 \<Longrightarrow> os_denied o2 = os_denied o1 \<and> os_pid o2 = os_pid o1"
  by (simp add: os_kept_def)

lemma os_kept_calls:
  "os_kept s (snd (sys_close fd s))" "os_kept s (snd (sys_ulock fd s))" "os_kept s (snd (sys_open f c s))"
  "os_kept s (drop_lock f s)"
  by (auto simp: os_kept_def sys_close_def sys_ulock_def sys_open_def drop_lock_def Let_def split: option.split)

lemma os_kept_runs:
  "\<exists>v o'. sys_close fd s = (Returned v, o') \<and> os_kept s o'" "\<exists>v o'. sys_ulock fd s = (Returned v, o') \<and> os_kept s o'"
  using os_kept_calls(1,2)[where s = s and fd = fd]
  by (auto simp: sys_close_def sys_ulock_def split: option.splits)

text \<open>A process only takes and loses locks of its own, and deletes no file.\<close>

definition own_only :: "os \<Rightarrow> os \<Rightarrow> bool" where
  "own_only o1 o2 \<longleftrightarrow>
     os_pid o2 = os_pid o1 \<and> dom (os_files o1) \<subseteq> dom (os_files o2) \<and>
     (\<forall>g. os_locks o2 g = os_locks o1 g \<or> {os_locks o1 g, os_locks o2 g} \<subseteq> {None, Some (os_pid o1)})"

lemma own_only_frame: "transp own_only" "reflp own_only"
proof -
  show "transp own_only"
  proof (rule transpI)
    fix o1 o2 o3 assume a: "own_only o1 o2" "own_only o2 o3"
    then have "os_locks o3 g = os_locks o1 g \<or> {os_locks o1 g, os_locks o3 g} \<subseteq> {None, Some (os_pid o1)}" for g
      unfolding own_only_def by (metis insert_subset empty_subsetI)
    with a show "own_only o1 o3" unfolding own_only_def by (metis subset_trans)
  qed
qed (simp add: reflp_def own_only_def)

lemma own_only_calls:
  "keeps own_only (ret x)" "keeps own_only (stop_with r)" "keeps own_only os_getpid" "keeps own_only (sys_open g c)"
  "keeps own_only (sys_tlock fd)" "keeps own_only (sys_write fd b)" "keeps own_only sys_setsid"
  "keeps own_only (modP (\<lambda>s. s\<lparr>os_umask := n\<rparr>))" "keeps own_only (sys_close fd)" "keeps own_only (sys_dup2 fd to)"
  by (auto simp: keeps_def own_only_def ret_def stop_with_def os_getpid_def getP_def modP_def sys_open_def sys_tlock_def
      sys_write_def sys_setsid_def sys_close_def sys_dup2_def drop_lock_def Let_def split: option.split)

lemmas own_only_seq = keeps_bindP[OF _ _ own_only_frame(1)] keeps_if own_only_calls

lemma own_only_lock:
  assumes "own_only o1 o2"
  shows "(if os_locks o2 g = Some (os_pid o1) then None else os_locks o2 g) =
         (if os_locks o1 g = Some (os_pid o1) then None else os_locks o1 g)"
proof -
  have "(if y = Some p then None else y) = (if x = Some p then None else x)"
    if "y = x \<or> {x, y} \<subseteq> {None, Some p}" for x y :: "int option" and p
    using that by auto
  moreover have "os_locks o2 g = os_locks o1 g \<or> {os_locks o1 g, os_locks o2 g} \<subseteq> {None, Some (os_pid o1)}"
    using assms unfolding own_only_def by iprover
  ultimately show ?thesis by iprover
qed

section \<open>Facts\<close>

lemma fresh_fd_hd:
  "fresh_fd fds \<in> set (map int [0..<Suc (length fds)]) \<and> fresh_fd fds \<notin> set (map fst fds)"
proof -
  let ?ns = "map int [0..<Suc (length fds)]"
  have "card (set (map fst fds)) < card (set ?ns)"
  proof -
    have "card (set ?ns) = Suc (length fds)" by (simp add: card_image del: upt_Suc)
    then show ?thesis using card_length[of "map fst fds"] by simp
  qed
  then have "\<not> set ?ns \<subseteq> set (map fst fds)"
    using card_mono[of "set (map fst fds)" "set ?ns"] by (meson List.finite_set leD)
  then have "filter (\<lambda>n. n \<notin> set (map fst fds)) ?ns \<noteq> []" unfolding filter_empty_conv by blast
  then have "fresh_fd fds \<in> set (filter (\<lambda>n. n \<notin> set (map fst fds)) ?ns)"
    unfolding fresh_fd_def by (rule hd_in_set)
  then show ?thesis unfolding set_filter by blast
qed

lemma fresh_fd_nonneg: "0 \<le> fresh_fd fds"
  using fresh_fd_hd[of fds] by auto

lemma fresh_fd_not_minus [simp]: "fresh_fd fds \<noteq> - 1"
  using fresh_fd_nonneg[of fds] by simp

lemma fresh_fd_unused: "fresh_fd fds \<notin> fst ` set fds"
  using fresh_fd_hd[of fds] by simp

lemma fresh_fd_free: "fd_file fds (fresh_fd fds) = None"
  using fresh_fd_unused[of fds] by (simp add: fd_file_def map_of_eq_None_iff)

lemma fresh_fd_new: "(fresh_fd fds, f) \<notin> set fds"
  using fresh_fd_unused[of fds] by force

lemma fresh_fd_keep: "filter (\<lambda>e. fst e \<noteq> fresh_fd fds) fds = fds"
  using fresh_fd_new by (auto simp: filter_id_conv)

lemma hd_filter_least: "P x \<Longrightarrow> x \<in> set xs \<Longrightarrow> sorted xs \<Longrightarrow> hd (filter P xs) \<le> (x :: int)"
  by (induction xs) auto

lemma fresh_fd_least:
  assumes "0 \<le> n" "n < fresh_fd fds"
  shows "\<exists>f. fd_file fds n = Some f"
proof (rule ccontr)
  assume "\<nexists>f. fd_file fds n = Some f"
  then have n: "n \<notin> set (map fst fds)" by (auto simp: fd_file_def map_of_eq_None_iff image_iff dest: weak_map_of_SomeI)
  have s: "sorted (map int [0..<Suc (length fds)])" by (simp add: sorted_map del: upt_Suc)
  have "fresh_fd fds < int (Suc (length fds))" using fresh_fd_hd[of fds] by auto
  with assms have "n = int (nat n)" "nat n < Suc (length fds)" by simp_all
  then have "n \<in> set (map int [0..<Suc (length fds)])" by (metis atLeast_upt image_eqI lessThan_iff set_map)
  from hd_filter_least[of "\<lambda>n. n \<notin> set (map fst fds)", OF n this s] show False
    using assms(2) unfolding fresh_fd_def by simp
qed

lemmas sys_defs = sys_open_def sys_close_def sys_tlock_def sys_ulock_def sys_write_def sys_read_def
  sys_dup2_def sys_setsid_def os_fork_call_def os_getpid_def fd_file_def drop_lock_def

section \<open>A system\<close>

text \<open>
  A system on which every call succeeds, with the files \<open>fs\<close>, the locks \<open>ls\<close> and a terminal on
  the first three descriptors, seen from process 42, or from the child 43 of a fork.
\<close>

definition plain_os :: "(string \<rightharpoonup> string) \<Rightarrow> (string \<rightharpoonup> int) \<Rightarrow> os" where
  "plain_os fs ls =
     \<lparr>os_pid = 42, os_files = fs(''/dev/null'' \<mapsto> []), os_locks = ls,
      os_fds = [(0, ''tty''), (1, ''tty''), (2, ''tty'')], os_denied = (\<lambda>_. False), os_full = False,
      os_fork = ChildSide 43, os_session = 1, os_setsid_ok = True, os_umask = 18, os_dup_ok = True,
      os_ifaddr = [''eth0'' \<mapsto> ''10.0.0.7''], os_socket_ok = True\<rparr>"

end
