(* ===== verification/Utils.thy ===== *)
theory Utils
  imports Sys Common
begin

text \<open>
  \<open>pull/src/utils/utils.cpp\<close>: the paths, the pid file and the daemonisation of the server. Log
  output and the numbers printed to the terminal are left out; \<open>None\<close> is undefined behaviour.
\<close>

definition FILE_PATH_LEN_MAX :: nat where "FILE_PATH_LEN_MAX = 256"
definition IP_SIZE :: nat where "IP_SIZE = 16"
definition IFNAMSIZ :: nat where "IFNAMSIZ = 16"

section \<open>Directories\<close>

text \<open>
  The paths that exist, and \<open>mkdir_ok ex p\<close>: would \<open>mkdir\<close> of \<open>p\<close> succeed when \<open>ex\<close> are the
  paths that exist. A failed \<open>mkdir\<close> is ignored.
\<close>

definition make_missing :: "((string \<Rightarrow> bool) \<Rightarrow> string \<Rightarrow> bool) \<Rightarrow> string \<Rightarrow> (string \<Rightarrow> bool) \<Rightarrow> (string \<Rightarrow> bool)" where
  "make_missing mkdir_ok p ex =
     (if \<not> ex p \<and> mkdir_ok ex p then (\<lambda>q. q = p \<or> ex q) else ex)"

text \<open>The loop: a slash is overwritten by a NUL for the time of the two calls.\<close>

fun mkdir_loop :: "((string \<Rightarrow> bool) \<Rightarrow> string \<Rightarrow> bool) \<Rightarrow> char list \<Rightarrow> nat list \<Rightarrow> (string \<Rightarrow> bool) \<Rightarrow> (string \<Rightarrow> bool)" where
  "mkdir_loop ok str [] ex = ex"
| "mkdir_loop ok str (i # is) ex =
     (if str ! i = CHR ''/''
      then (let cut = str[i := NUL];
                ex' = make_missing ok (c_str cut) ex
            in mkdir_loop ok (cut[i := CHR ''/'']) is ex')
      else mkdir_loop ok str is ex)"

definition multi_mkdir :: "((string \<Rightarrow> bool) \<Rightarrow> string \<Rightarrow> bool) \<Rightarrow> string \<Rightarrow> (string \<Rightarrow> bool) \<Rightarrow> (string \<Rightarrow> bool) option" where
  "multi_mkdir ok dir ex =
     (case strncpy (zero_buf FILE_PATH_LEN_MAX) dir (FILE_PATH_LEN_MAX - 1) of
        None \<Rightarrow> None
      | Some str \<Rightarrow>
          (let len = length (c_str str);
               ex' = mkdir_loop ok str [0..<len] ex
           in Some (if 0 < len then make_missing ok (c_str str) ex' else ex')))"

section \<open>The directory of a path\<close>

text \<open>
  The \<open>do\<close> loop of \<open>get_cur_path\<close>, on the offset of \<open>pos\<close> in \<open>str\<close>; \<open>last\<close> is the offset of
  \<open>last_slash\<close>, \<open>None\<close> while it is \<open>NULL\<close>.
\<close>

function slash_loop :: "string \<Rightarrow> nat \<Rightarrow> nat option \<Rightarrow> nat option" where
  "slash_loop str pos last_slash =
     (case find_char (CHR ''/'') (drop pos str) of
        None \<Rightarrow> last_slash
      | Some k \<Rightarrow>
          if pos + k + 1 < length str then slash_loop str (pos + k + 1) (Some (pos + k))
          else Some (pos + k))"
  by pat_completeness auto

termination
  by (relation "measure (\<lambda>(str, pos, l). length str - pos)") auto

declare slash_loop.simps [simp del]

text \<open>\<open>last_slash - str\<close> of a null pointer is undefined.\<close>

definition get_cur_path :: "string \<Rightarrow> char list \<Rightarrow> int \<Rightarrow> (int \<times> char list) option" where
  "get_cur_path str o_path i_l =
     (case slash_loop (c_str str) 0 None of
        None \<Rightarrow> None
      | Some len \<Rightarrow>
          if int len > i_l - 1 then Some (- 1, o_path)
          else map_option (\<lambda>o'. (0, o')) (strncpy o_path str len))"

section \<open>The address of the host\<close>

definition get_local_ip :: "string \<Rightarrow> string \<Rightarrow> (os, int \<times> string) prog" where
  "get_local_ip eth_inf ip =
     bindP (getP id) (\<lambda>s.
     if \<not> os_socket_ok s then ret (- 1, ip)
     else (let ifr_name = take (IFNAMSIZ - 1) (c_str eth_inf) in
           case os_ifaddr s ifr_name of
             None \<Rightarrow> ret (- 1, ip)
           | Some a \<Rightarrow> ret (0, snprintf IP_SIZE a)))"

section \<open>The pid file\<close>

text \<open>
  \<open>atoi\<close> on an array of 64 bytes that may hold no NUL: defined when its scan stops inside.
\<close>

definition scan_stops :: "char list \<Rightarrow> bool" where
  "scan_stops b =
     (case dropWhile is_space b of
        [] \<Rightarrow> False
      | c # cs \<Rightarrow>
          dropWhile is_digit (if c = CHR ''-'' \<or> c = CHR ''+'' then cs else c # cs) \<noteq> [])"

definition atoi_buf :: "char list \<Rightarrow> int option" where
  "atoi_buf b = (if scan_stops b \<and> int_range (atoi_value b) then Some (atoi_value b) else None)"

definition get_pid_from_file :: "string \<Rightarrow> int \<Rightarrow> (os, int \<times> int) prog" where
  "get_pid_from_file file o_pid =
     bindP (sys_open (c_str file) False) (\<lambda>fd.
     if fd = - 1 then ret (err ERROR_OPEN_PID_FILE, o_pid)
     else bindP (sys_read fd 64) (\<lambda>got.
          case got of
            None \<Rightarrow> ret (err ERROR_OPEN_PID_FILE, o_pid)
          | Some b \<Rightarrow>
              (case atoi_buf (b @ replicate (64 - length b) NUL) of
                 None \<Rightarrow> stop_with Undefined
               | Some n \<Rightarrow> ret (err ERROR_OK, n))))"

definition write_pid_to_file :: "string \<Rightarrow> (os, unit) prog" where
  "write_pid_to_file file =
     bindP os_getpid (\<lambda>pid.
     bindP (sys_open (c_str file) True) (\<lambda>fd.
     if fd = - 1 then stop_with (Exited 0)
     else bindP (sys_tlock fd) (\<lambda>rv.
     if rv < 0 then stop_with (Exited 0)
     else (let line = int_dec pid @ [CHR 0x0A];
               buffer = snprintf 64 line;
               len = length line
           in bindP (sys_write fd (take len buffer)) (\<lambda>n.
              if n < 0 then stop_with (Exited 0) else ret ())))))"

definition daemon :: "string \<Rightarrow> (os, int \<times> int option) prog" where
  "daemon pid_path =
     bindP os_fork_call (\<lambda>ppid.
     if ppid = - 1 then ret (err REC_ERROR_INTERNAL, None)
     else if ppid \<noteq> 0 then stop_with (Exited 0)
     else
     bindP (write_pid_to_file pid_path) (\<lambda>_.
     bindP os_getpid (\<lambda>pid.
     bindP sys_setsid (\<lambda>sid.
     if sid = - 1 then ret (err REC_ERROR_INTERNAL, Some pid)
     else
     bindP (modP (\<lambda>s. s\<lparr>os_umask := 0\<rparr>)) (\<lambda>_.
     bindP (sys_open ''/dev/null'' False) (\<lambda>fd.
     if fd = - 1 then ret (err REC_ERROR_INTERNAL, Some pid)
     else
     bindP (sys_dup2 fd 0) (\<lambda>r0.
     if r0 = - 1 then ret (err REC_ERROR_INTERNAL, Some pid)
     else
     bindP (sys_dup2 fd 1) (\<lambda>r1.
     if r1 = - 1 then ret (err REC_ERROR_INTERNAL, Some pid)
     else if fd > 2
     then bindP (sys_close fd) (\<lambda>rc.
          if rc = - 1 then ret (err REC_ERROR_INTERNAL, Some pid)
          else ret (err ERROR_OK, Some pid))
     else ret (err ERROR_OK, Some pid)))))))))"

definition try_lock_file :: "string \<Rightarrow> (os, bool \<times> int) prog" where
  "try_lock_file file =
     bindP (sys_open (c_str file) True) (\<lambda>fd.
     if fd = - 1 then stop_with (Exited 0)
     else bindP (sys_tlock fd) (\<lambda>rv.
     if rv = 0 then ret (True, fd)
     else bindP (sys_close fd) (\<lambda>_. ret (False, fd))))"

section \<open>The directory part\<close>

lemma slash_loop_last:
  assumes "CHR ''/'' \<notin> set q" "pos \<le> length p"
  shows "slash_loop (p @ CHR ''/'' # q) pos l = Some (length p)"
  using assms(2)
proof (induction "length p - pos" arbitrary: pos l rule: less_induct)
  case less
  let ?s = "p @ CHR ''/'' # q"
  have d: "drop pos ?s = drop pos p @ CHR ''/'' # q" using less.prems by simp
  obtain k where k: "find_char (CHR ''/'') (drop pos ?s) = Some k"
    by (cases "find_char (CHR ''/'') (drop pos ?s)") (use d in simp_all)
  then have k': "(drop pos p @ CHR ''/'' # q) ! k = CHR ''/''" "k < length (drop pos p @ CHR ''/'' # q)"
    unfolding d find_char_Some by simp_all
  have le: "k \<le> length p - pos"
  proof (rule ccontr)
    assume "\<not> k \<le> length p - pos"
    then obtain j where j: "k = length p - pos + Suc j" by (metis less_iff_Suc_add not_le add_Suc_right)
    have lk: "\<not> k < length (drop pos p)" "k - length (drop pos p) = Suc j" using j by simp_all
    have "q ! j = CHR ''/''" using k'(1) unfolding nth_append by (simp only: lk if_False nth_Cons_Suc)
    moreover have "j < length q" using k'(2) j less.prems by simp
    ultimately have "CHR ''/'' \<in> set q" by (metis nth_mem)
    with assms(1) show False by simp
  qed
  show ?case
  proof (cases "k = length p - pos")
    case True
    have tail: "slash_loop ?s (Suc (length p)) (Some (length p)) = Some (length p)"
      using assms(1) by (subst slash_loop.simps) (auto split: option.split dest: find_char_mem)
    show ?thesis
      using True less.prems tail k by (subst slash_loop.simps) simp
  next
    case False
    then have "pos + k + 1 \<le> length p" "length p - (pos + k + 1) < length p - pos" using le less.prems by auto
    then have "slash_loop ?s (pos + k + 1) (Some (pos + k)) = Some (length p)" by (intro less.hyps) auto
    then show ?thesis
      using k \<open>pos + k + 1 \<le> length p\<close> by (subst slash_loop.simps) simp
  qed
qed

text \<open>
  The directory of the program. For a path \<open>p/q\<close> with no slash in \<open>q\<close>, \<open>get_cur_path\<close>
  into a zeroed buffer of \<open>i_l\<close> bytes returns 0 and leaves exactly \<open>p\<close> there, when \<open>p\<close> fits with
  its terminator; otherwise it returns -1 and leaves the buffer alone.
\<close>

theorem get_cur_path_directory:
  assumes "NUL \<notin> set p" "NUL \<notin> set q" "CHR ''/'' \<notin> set q" "0 < n"
  shows "if length p < n
         then \<exists>o'. get_cur_path (p @ CHR ''/'' # q) (zero_buf n) (int n) = Some (0, o') \<and> buf_str o' = Some p
         else get_cur_path (p @ CHR ''/'' # q) (zero_buf n) (int n) = Some (- 1, zero_buf n)"
proof -
  have c: "c_str (p @ CHR ''/'' # q) = p @ CHR ''/'' # q"
    using assms(1,2) by (intro c_str_id) (auto simp: NUL_def)
  have s: "slash_loop (p @ CHR ''/'' # q) 0 None = Some (length p)"
    using assms(3) by (intro slash_loop_last) simp_all
  show ?thesis
  proof (cases "length p < n")
    case True
    then obtain k where n: "n = length p + Suc k" by (metis less_iff_Suc_add add_Suc_right)
    have "strncpy (zero_buf n) (p @ CHR ''/'' # q) (length p) = Some (p @ replicate (Suc k) NUL)"
      using n by (simp add: strncpy_def c zero_buf_def replicate_add del: replicate_Suc)
    moreover have "buf_str (p @ replicate (Suc k) NUL) = Some p"
      using assms(1) by (simp add: buf_str_def c_str_append_nul)
    ultimately show ?thesis using True by (simp add: get_cur_path_def c s)
  next
    case False
    then show ?thesis by (simp add: get_cur_path_def c s)
  qed
qed

theorem get_cur_path_directory_witness:
  "\<exists>o'. get_cur_path ''/opt/sbin/pull'' (zero_buf 256) 256 = Some (0, o') \<and> buf_str o' = Some ''/opt/sbin''"
  using get_cur_path_directory[of "''/opt/sbin''" "''pull''" 256] by (simp add: NUL_def)

section \<open>All directories of a path\<close>

lemma c_str_cut:
  assumes "NUL \<notin> set dir" "i < length dir"
  shows "c_str ((dir @ rest)[i := NUL]) = take i dir"
proof -
  have "i < length (dir @ rest)" using assms(2) by simp
  then have "(dir @ rest)[i := NUL] = take i (dir @ rest) @ NUL # drop (Suc i) (dir @ rest)"
    by (rule upd_conv_take_nth_drop)
  also have "take i (dir @ rest) = take i dir" using assms(2) by simp
  finally have e: "(dir @ rest)[i := NUL] = take i dir @ NUL # drop (Suc i) (dir @ rest)" .
  have "NUL \<notin> set (take i dir)" using assms(1) by (meson in_set_takeD)
  then show ?thesis unfolding e by (rule c_str_append_nul)
qed

lemma mkdir_loop_fold:
  assumes "NUL \<notin> set dir" "\<forall>i\<in>set is. i < length dir"
  shows "mkdir_loop ok (dir @ rest) is ex =
     fold (\<lambda>i ex. if dir ! i = CHR ''/'' then make_missing ok (take i dir) ex else ex) is ex"
  using assms(2)
proof (induction "is" arbitrary: ex)
  case (Cons i js)
  have "((dir @ rest)[i := NUL])[i := CHR ''/''] = dir @ rest" if "dir ! i = CHR ''/''"
    using that Cons.prems by (simp add: list_update_same_conv nth_append)
  with Cons show ?case by (simp add: nth_append c_str_cut[OF assms(1)] Let_def)
qed simp

lemma make_missing_mono: "ex q \<Longrightarrow> make_missing ok p ex q"
  by (simp add: make_missing_def)

lemma mkdir_fold_mono:
  "ex q \<Longrightarrow> fold (\<lambda>i ex. if dir ! i = CHR ''/'' then make_missing ok (take i dir) ex else ex) is ex q"
  by (induction "is" arbitrary: ex) (auto simp: make_missing_mono)

text \<open>
  Every directory of the path. If \<open>mkdir\<close> creates a directory whose ancestors exist, then
  after \<open>multi_mkdir\<close> of a path shorter than 256 bytes the path and all its ancestors exist, and
  nothing that existed is gone.
\<close>

theorem multi_mkdir_creates:
  assumes "NUL \<notin> set dir" "length dir < 256" "dir \<noteq> []"
    and ok: "\<forall>ex p. p \<noteq> [] \<longrightarrow> (\<forall>i<length p. 0 < i \<longrightarrow> p ! i = CHR ''/'' \<longrightarrow> ex (take i p)) \<longrightarrow> mkdir_ok ex p"
  shows "\<exists>ex'. multi_mkdir mkdir_ok dir ex = Some ex' \<and> ex' dir \<and>
           (\<forall>i<length dir. 0 < i \<longrightarrow> dir ! i = CHR ''/'' \<longrightarrow> ex' (take i dir)) \<and> (\<forall>q. ex q \<longrightarrow> ex' q)"
proof -
  let ?step = "\<lambda>i ex. if dir ! i = CHR ''/'' then make_missing mkdir_ok (take i dir) ex else ex"
  let ?str = "dir @ replicate (256 - length dir) NUL"
  have buf: "strncpy (zero_buf FILE_PATH_LEN_MAX) dir (FILE_PATH_LEN_MAX - 1) = Some ?str"
  proof -
    have "256 - length dir = Suc (255 - length dir)" using assms(2) by simp
    then have "take 255 (dir @ replicate 255 NUL) @ [NUL] = ?str"
      using assms(2) by (simp add: replicate_append_same min_def)
    then show ?thesis
      using assms(1) by (simp add: strncpy_def FILE_PATH_LEN_MAX_def zero_buf_def c_str_id drop_replicate)
  qed
  have len: "c_str ?str = dir"
  proof -
    have "256 - length dir = Suc (255 - length dir)" using assms(2) by simp
    then show ?thesis using assms(1) by (simp add: c_str_append_nul)
  qed
  have inv: "\<forall>i<j. 0 < i \<longrightarrow> dir ! i = CHR ''/'' \<longrightarrow> fold ?step [0..<j] ex (take i dir)" if "j \<le> length dir" for j
    using that
  proof (induction j)
    case (Suc j)
    let ?e = "fold ?step [0..<j] ex"
    have IH: "\<forall>i<j. 0 < i \<longrightarrow> dir ! i = CHR ''/'' \<longrightarrow> ?e (take i dir)" using Suc by simp
    have "?step j ?e (take j dir)" if "0 < j" "dir ! j = CHR ''/''"
    proof -
      have "mkdir_ok ?e (take j dir)"
        using ok[rule_format, of "take j dir" ?e] IH Suc.prems that(1) assms(3) by (simp add: min_def)
      then show ?thesis using that by (simp add: make_missing_def)
    qed
    with IH show ?case by (auto simp: less_Suc_eq make_missing_mono)
  qed simp
  let ?e = "fold ?step [0..<length dir] ex"
  have all: "\<forall>i<length dir. 0 < i \<longrightarrow> dir ! i = CHR ''/'' \<longrightarrow> ?e (take i dir)" using inv by blast
  have "multi_mkdir mkdir_ok dir ex = Some (make_missing mkdir_ok dir ?e)"
    unfolding multi_mkdir_def buf option.case Let_def len
    using assms(1,3) by (simp add: mkdir_loop_fold)
  moreover have "make_missing mkdir_ok dir ?e dir"
    using ok[rule_format, of dir ?e] assms(3) all by (simp add: make_missing_def)
  ultimately show ?thesis
    using all mkdir_fold_mono[of ex] by (simp add: make_missing_mono)
qed

theorem multi_mkdir_creates_witness:
  "\<exists>ex'. multi_mkdir (\<lambda>ex p. \<forall>i\<in>set [0..<length p]. 0 < i \<longrightarrow> p ! i = CHR ''/'' \<longrightarrow> ex (take i p)) ''/var/log/pull''
          (\<lambda>q. q = ''/var'') = Some ex' \<and> ex' ''/var/log/pull'' \<and> ex' ''/var/log''"
proof -
  let ?ok = "\<lambda>ex p. \<forall>i\<in>set [0..<length p]. 0 < i \<longrightarrow> p ! i = CHR ''/'' \<longrightarrow> ex (take i p)"
  have "\<exists>ex'. multi_mkdir ?ok ''/var/log/pull'' (\<lambda>q. q = ''/var'') = Some ex' \<and> ex' ''/var/log/pull'' \<and>
      (\<forall>i<length ''/var/log/pull''. 0 < i \<longrightarrow> ''/var/log/pull'' ! i = CHR ''/'' \<longrightarrow> ex' (take i ''/var/log/pull'')) \<and>
      (\<forall>q. q = ''/var'' \<longrightarrow> ex' q)"
    by (rule multi_mkdir_creates) (simp_all add: NUL_def)
  then obtain ex' where e: "multi_mkdir ?ok ''/var/log/pull'' (\<lambda>q. q = ''/var'') = Some ex'" "ex' ''/var/log/pull''"
    and p: "\<And>i. i < length ''/var/log/pull'' \<Longrightarrow> 0 < i \<Longrightarrow> ''/var/log/pull'' ! i = CHR ''/'' \<Longrightarrow> ex' (take i ''/var/log/pull'')"
    by blast
  from p[of 8] have "ex' ''/var/log''" by simp
  with e show ?thesis by blast
qed

end
