(* ===== verification/PidFile.thy ===== *)
theory PidFile
  imports Utils
begin

text \<open>
  The pid file, the lock on it and the daemon of \<open>utils.cpp\<close>: what \<open>write_pid_to_file\<close>, \<open>try_lock_file\<close>,
  \<open>get_pid_from_file\<close> and \<open>daemon\<close> do together, and the contract of an operation that holds a pid file.
\<close>

section \<open>The pid file\<close>

lemma newline_no_digit: "\<not> is_digit (CHR 0x0A)"
  by (simp add: is_digit_def)

lemma scan_stops_number: "scan_stops (int_dec n @ CHR 0x0A # rest)"
proof -
  have dig: "dropWhile is_digit (nat_dec m @ CHR 0x0A # rest) = CHR 0x0A # rest" for m
    using nat_dec_digits by (subst dropWhile_append2) (auto simp: is_digit_def)
  obtain c cs where c: "nat_dec (nat n) = c # cs" by (cases "nat_dec (nat n)") (auto simp: nat_dec_not_Nil)
  then have "is_digit c" using nat_dec_digits[of c "nat n"] by simp
  with digit_not_special have s: "c \<noteq> CHR ''-''" "c \<noteq> CHR ''+''" "\<not> is_space c" by blast+
  show ?thesis
  proof (cases "n < 0")
    case True
    then have "dropWhile is_space (int_dec n @ CHR 0x0A # rest) = CHR ''-'' # nat_dec (nat (- n)) @ CHR 0x0A # rest"
      by (simp add: int_dec_def is_space_def)
    then show ?thesis unfolding scan_stops_def by (simp del: dropWhile_eq_Nil_conv add: dig)
  next
    case False
    then have "dropWhile is_digit (c # cs @ CHR 0x0A # rest) = CHR 0x0A # rest"
      using dig[of "nat n"] c by simp
    with False s c show ?thesis by (simp add: scan_stops_def int_dec_def)
  qed
qed

lemma write_pid_result:
  assumes "write_pid_to_file f s = (Returned (), t)"
  shows "int_range (os_pid s) \<Longrightarrow> \<exists>old. os_files t (c_str f) = Some (int_dec (os_pid s) @ CHR 0x0A # old)"
    and "os_locks s (c_str f) \<in> {None, Some (os_pid s)}"
    and "os_locks t (c_str f) = Some (os_pid s)" "os_denied t = os_denied s" "os_pid t = os_pid s"
    and "os_fds t = (fresh_fd (os_fds s), c_str f) # os_fds s"
proof -
  obtain fd t1 where o: "sys_open (c_str f) True s = (Returned fd, t1)" "fd \<noteq> - 1"
    using assms by (auto simp: write_pid_to_file_def bindP_eq_Returned os_getpid_def getP_def stop_with_def
        split: if_splits)
  then have t1: "t1 = s\<lparr>os_files := (if os_files s (c_str f) = None then (os_files s)(c_str f \<mapsto> []) else os_files s),
      os_fds := (fd, c_str f) # os_fds s\<rparr>" "fd_file (os_fds t1) fd = Some (c_str f)"
    by (auto simp: sys_open_def Let_def fd_file_def split: if_splits)
  let ?line = "int_dec (os_pid s) @ [CHR 0x0A]"
  obtain rv t2 where l: "sys_tlock fd t1 = (Returned rv, t2)" "\<not> rv < 0"
    and w: "sys_write fd (take (length ?line) (snprintf 64 ?line)) t2 \<in> {(Returned n, t) |n. \<not> n < 0}"
    using assms o
    by (auto simp: write_pid_to_file_def bindP_eq_Returned os_getpid_def getP_def stop_with_def Let_def ret_def
        split: if_splits)
  have t2: "os_files t2 = os_files t1" "os_fds t2 = os_fds t1" "os_locks t2 (c_str f) = Some (os_pid s)"
    "os_denied t2 = os_denied s" "os_pid t2 = os_pid s"
    using l t1 by (auto simp: sys_tlock_def split: option.splits if_splits)
  have t: "\<exists>old. t = t2\<lparr>os_files := (os_files t2)(c_str f \<mapsto> take (length ?line) (snprintf 64 ?line) @ old)\<rparr>"
    using w t1(2) t2(2) by (auto simp: sys_write_def Let_def split: if_splits)
  then show "os_locks t (c_str f) = Some (os_pid s)" "os_denied t = os_denied s" "os_pid t = os_pid s"
    using t2 by auto
  have "fd = fresh_fd (os_fds s)" using o by (auto simp: sys_open_def Let_def split: if_splits)
  then show "os_fds t = (fresh_fd (os_fds s), c_str f) # os_fds s" using t t2(2) t1(1) by auto
  show "os_locks s (c_str f) \<in> {None, Some (os_pid s)}"
    using l t1 by (auto simp: sys_tlock_def split: option.splits if_splits)
  assume "int_range (os_pid s)"
  then have "length ?line < 64" using length_int_dec[of "os_pid s"] by simp
  then have "snprintf 64 ?line = ?line" by (rule snprintf_id)
  with t show "\<exists>old. os_files t (c_str f) = Some (int_dec (os_pid s) @ CHR 0x0A # old)" by auto
qed

lemma pid_text_reads:
  assumes "os_files v (c_str f) = Some (int_dec p @ CHR 0x0A # old)" "int_range p" "\<not> os_denied v (c_str f)"
  shows "fst (get_pid_from_file f any v) = Returned (err ERROR_OK, p)"
proof -
  let ?b = "take 64 (int_dec p @ CHR 0x0A # old)"
  have len: "length (int_dec p) \<le> 11" using assms(2) by (rule length_int_dec)
  then obtain k where k: "64 - length (int_dec p) = Suc k"
    by (cases "64 - length (int_dec p)") auto
  have b: "?b @ replicate (64 - length ?b) NUL = int_dec p @ CHR 0x0A # (take k old @ replicate (64 - length ?b) NUL)"
    using len k by simp
  have "atoi_buf (?b @ replicate (64 - length ?b) NUL) = Some p"
    unfolding b atoi_buf_def using assms(2) scan_stops_number by (simp add: atoi_value_int_dec is_digit_def)
  then show ?thesis
    using assms fresh_fd_nonneg[of "os_fds v"]
    by (simp add: get_pid_from_file_def sys_open_def sys_read_def bindP_def Let_def fd_file_def ret_def)
qed

section \<open>Locks\<close>

text \<open>Opening a file another process has locked, and failing to lock it.\<close>

lemma probe_locked:
  assumes "\<not> os_denied s f" "os_locks s f = Some p" "p \<noteq> os_pid s"
  obtains fd s1 where "sys_open f True s = (Returned fd, s1)" "0 \<le> fd" "sys_tlock fd s1 = (Returned (- 1), s1)"
    and "sys_close fd s1 =
           (Returned 0, s\<lparr>os_files := (if os_files s f = None then (os_files s)(f \<mapsto> []) else os_files s)\<rparr>)"
    and "\<And>fs. sys_close fd (s\<lparr>os_files := fs\<rparr>) = (Returned (- 1), s\<lparr>os_files := fs\<rparr>)"
proof -
  let ?fd = "fresh_fd (os_fds s)"
  let ?t = "s\<lparr>os_files := (if os_files s f = None then (os_files s)(f \<mapsto> []) else os_files s), os_fds := (?fd, f) # os_fds s\<rparr>"
  have "map_of (os_fds s) ?fd = None" using fresh_fd_free[of "os_fds s"] by (simp add: fd_file_def)
  then show thesis
    using assms fresh_fd_nonneg[of "os_fds s"] fresh_fd_keep[of "os_fds s"]
    by (intro that[of ?fd ?t]) (simp_all add: sys_open_def sys_tlock_def sys_close_def drop_lock_def fd_file_def Let_def)
qed

text \<open>Opening and locking a file no other process has locked.\<close>

lemma probe_free:
  assumes "\<not> os_denied s f" "\<forall>p. os_locks s f = Some p \<longrightarrow> p = os_pid s"
  obtains fd s1 s2 s3 where "sys_open f True s = (Returned fd, s1)" "0 \<le> fd" "sys_tlock fd s1 = (Returned 0, s2)"
    and "sys_close fd s2 = (Returned 0, s3)" "os_kept s s3" "os_locks s3 f = None"
proof -
  let ?fd = "fresh_fd (os_fds s)"
  let ?t = "s\<lparr>os_files := (if os_files s f = None then (os_files s)(f \<mapsto> []) else os_files s), os_fds := (?fd, f) # os_fds s\<rparr>"
  let ?u = "?t\<lparr>os_locks := (os_locks s)(f \<mapsto> os_pid s)\<rparr>"
  have "sys_tlock ?fd ?t = (Returned 0, ?u)"
    using assms(2) fresh_fd_nonneg[of "os_fds s"]
    by (cases "os_locks s f") (auto simp: sys_tlock_def fd_file_def fun_upd_idem)
  moreover let ?v = "?u\<lparr>os_fds := filter (\<lambda>e. fst e \<noteq> ?fd) (os_fds ?u), os_locks := (os_locks s)(f := None)\<rparr>"
  have "sys_close ?fd ?u = (Returned 0, ?v)" by (simp add: sys_close_def fd_file_def drop_lock_def)
  moreover have "os_kept s ?v" "os_locks ?v f = None" using assms(2) by (cases "os_locks s f"; auto simp: os_kept_def)+
  ultimately show thesis
    using assms(1) fresh_fd_nonneg[of "os_fds s"]
    by (intro that[of ?fd ?t ?u ?v]) (simp_all add: sys_open_def Let_def)
qed

lemma try_lock_refused:
  assumes "\<not> os_denied s (c_str f)" "os_locks s (c_str f) = Some p" "p \<noteq> os_pid s"
  shows "\<exists>fd. try_lock_file f s =
           (Returned (False, fd), s\<lparr>os_files := (if os_files s (c_str f) = None then (os_files s)(c_str f \<mapsto> []) else os_files s)\<rparr>)"
proof -
  obtain fd s1 where "sys_open (c_str f) True s = (Returned fd, s1)" "0 \<le> fd" "sys_tlock fd s1 = (Returned (- 1), s1)"
    "sys_close fd s1 =
       (Returned 0, s\<lparr>os_files := (if os_files s (c_str f) = None then (os_files s)(c_str f \<mapsto> []) else os_files s)\<rparr>)"
    using probe_locked[OF assms] by metis
  then show ?thesis by (auto simp: try_lock_file_def bindP_def ret_def)
qed

section \<open>The daemon\<close>

lemma drop_lock_sel [simp]:
  "os_fds (drop_lock g s) = os_fds s" "os_pid (drop_lock g s) = os_pid s"
  "os_session (drop_lock g s) = os_session s" "os_umask (drop_lock g s) = os_umask s"
  "os_files (drop_lock g s) = os_files s" "f \<noteq> g \<Longrightarrow> os_locks (drop_lock g s) f = os_locks s f"
  by (simp_all add: drop_lock_def)

text \<open>What \<open>dup2\<close> and \<open>close\<close> leave alone, and what they do to the descriptors.\<close>

definition same_proc :: "os \<Rightarrow> os \<Rightarrow> bool" where
  "same_proc s t \<longleftrightarrow>
     os_pid t = os_pid s \<and> os_session t = os_session s \<and> os_umask t = os_umask s \<and> os_files t = os_files s"

lemma map_of_filter_other: "k \<noteq> j \<Longrightarrow> map_of (filter (\<lambda>e. fst e \<noteq> j) xs) k = map_of xs k"
  by (induction xs) auto

lemma dup2_result:
  assumes "sys_dup2 fd to s = (Returned r, t)" "r \<noteq> - 1"
  shows "same_proc s t" "fd_file (os_fds t) to = fd_file (os_fds s) fd" "k \<noteq> to \<Longrightarrow> fd_file (os_fds t) k = fd_file (os_fds s) k"
    and "os_locks t f = (if fd \<noteq> to \<and> fd_file (os_fds s) to = Some f \<and> os_locks s f = Some (os_pid s) then None else os_locks s f)"
  using assms
  by (auto simp: map_of_filter_other sys_dup2_def same_proc_def fd_file_def drop_lock_def split: option.splits if_splits)

lemma close_result:
  assumes "sys_close fd s = (Returned r, t)" "r \<noteq> - 1"
  shows "same_proc s t" "k \<noteq> fd \<Longrightarrow> fd_file (os_fds t) k = fd_file (os_fds s) k"
    and "os_locks t f = (if fd_file (os_fds s) fd = Some f \<and> os_locks s f = Some (os_pid s) then None else os_locks s f)"
  using assms
  by (auto simp: map_of_filter_other sys_close_def same_proc_def fd_file_def drop_lock_def split: option.splits if_splits)

text \<open>The file a descriptor refers to once the lowest free one refers to \<open>f\<close>.\<close>

lemma fd_file_opened: "fd_file ((fd, f) # fds) k = (if k = fd then Some f else fd_file fds k)"
  by (simp add: fd_file_def)

lemma fresh_fd_0: "fd_file fds 0 = None \<longleftrightarrow> fresh_fd fds = 0"
  using fresh_fd_least[of 0 fds] fresh_fd_nonneg[of fds] fresh_fd_free[of fds] by (cases "fresh_fd fds = 0") auto

lemma fresh_fd_1: "fd_file fds 0 \<noteq> None \<Longrightarrow> fd_file fds 1 = None \<longleftrightarrow> fresh_fd fds = 1"
  using fresh_fd_least[of 1 fds] fresh_fd_nonneg[of fds] fresh_fd_free[of fds] fresh_fd_0[of fds]
  by (cases "fresh_fd fds = 1") auto

text \<open>
  Standard input and output are open, on other files than the pid file. Otherwise the pid file is opened into
  one of them, or is one of them, and redirecting it gives up the lock.
\<close>

definition std_apart :: "string \<Rightarrow> os \<Rightarrow> bool" where
  "std_apart f s \<longleftrightarrow> c_str f \<noteq> ''/dev/null'' \<and> (\<forall>fd\<in>{0, 1}. \<exists>g. fd_file (os_fds s) fd = Some g \<and> g \<noteq> c_str f)"

text \<open>The two redirections of \<open>daemon\<close>, with the pid file \<open>f\<close> just opened and locked and the null device open at \<open>fd\<close>.\<close>

lemma redirect_result:
  assumes s4: "os_fds s4 = (fresh_fd fds1, ''/dev/null'') # fds1" "fds1 = (fresh_fd fds, f) # fds"
    and d0: "sys_dup2 (fresh_fd fds1) 0 s4 = (Returned r0, s5)" "r0 \<noteq> - 1"
    and d1: "sys_dup2 (fresh_fd fds1) 1 s5 = (Returned r1, s6)" "r1 \<noteq> - 1"
    and lk: "os_locks s4 f = Some (os_pid s4)" "f \<noteq> ''/dev/null''"
  shows "same_proc s4 s6" "fd_file (os_fds s6) 0 = Some ''/dev/null''" "fd_file (os_fds s6) 1 = Some ''/dev/null''"
    and "fd_file (os_fds s6) (fresh_fd fds1) = Some ''/dev/null''"
    and "os_locks s6 f = (if \<forall>k\<in>{0, 1}. \<exists>g. fd_file fds k = Some g \<and> g \<noteq> f then Some (os_pid s4) else None)"
proof -
  let ?fd = "fresh_fd fds1"
  note a = dup2_result[OF d0] and b = dup2_result[OF d1]
  have f1: "fd_file fds1 k = (if k = fresh_fd fds then Some f else fd_file fds k)" for k
    by (simp add: s4(2) fd_file_opened)
  have f4: "fd_file (os_fds s4) k = (if k = ?fd then Some ''/dev/null'' else fd_file fds1 k)" for k
    by (simp add: s4(1) fd_file_opened)
  have n0: "fd_file fds1 0 \<noteq> None" using fresh_fd_0[of fds] by (cases "fd_file fds 0") (simp_all add: f1)
  then have fd0: "?fd \<noteq> 0" using fresh_fd_0[of fds1] by simp
  show sp: "same_proc s4 s6" using a(1) b(1) by (simp add: same_proc_def)
  show "fd_file (os_fds s6) 0 = Some ''/dev/null''" "fd_file (os_fds s6) 1 = Some ''/dev/null''"
    "fd_file (os_fds s6) ?fd = Some ''/dev/null''"
    using a(2) a(3)[of ?fd] b(2) b(3)[of 0] b(3)[of ?fd] fd0 f4[of ?fd] by (cases "?fd = 1"; simp)+
  have pid: "os_pid s5 = os_pid s4" using a(1) by (simp add: same_proc_def)
  have l5: "os_locks s5 f = (if fd_file fds1 0 = Some f then None else Some (os_pid s4))"
    using a(4)[of f] fd0 lk(1) by (simp add: f4)
  have l6: "os_locks s6 f = (if ?fd \<noteq> 1 \<and> fd_file fds1 1 = Some f then None else os_locks s5 f)"
    using b(4)[of f] a(3)[of 1] l5 pid by (simp add: f4)
  have fd1: "?fd \<noteq> 1" if "fd_file fds1 1 \<noteq> None" using fresh_fd_1[OF n0] that by simp
  consider "fd_file fds 0 = None" | "fd_file fds 0 \<noteq> None" "fd_file fds 1 = None" | "fd_file fds 0 \<noteq> None" "fd_file fds 1 \<noteq> None"
    by blast
  then show "os_locks s6 f = (if \<forall>k\<in>{0, 1}. \<exists>g. fd_file fds k = Some g \<and> g \<noteq> f then Some (os_pid s4) else None)"
  proof cases
    case 1
    then show ?thesis using fresh_fd_0[of fds] l5 l6 by (simp add: f1)
  next
    case 2
    then have "fresh_fd fds = 1" "fd_file fds1 1 = Some f" using fresh_fd_1[OF 2(1)] by (simp_all add: f1)
    then show ?thesis using fd1 l6 2 by simp
  next
    case 3
    then have "fresh_fd fds \<noteq> 0" "fresh_fd fds \<noteq> 1" using fresh_fd_0[of fds] fresh_fd_1[OF 3(1)] by auto
    then have "fd_file fds1 0 = fd_file fds 0" "fd_file fds1 1 = fd_file fds 1" by (simp_all add: f1)
    then show ?thesis using fd1 l5 l6 3 by auto
  qed
qed

lemma daemon_result:
  assumes "daemon pid_path s = (Returned (err ERROR_OK, p), t)" "c_str pid_path \<noteq> ''/dev/null''"
  shows "os_locks s (c_str pid_path) \<in> {None, Some (os_pid t)} \<and>
         os_fork s = ChildSide (os_pid t) \<and> p = Some (os_pid t) \<and> os_session t = os_pid t \<and> os_umask t = 0 \<and>
         fd_file (os_fds t) 0 = Some ''/dev/null'' \<and> fd_file (os_fds t) 1 = Some ''/dev/null'' \<and>
         os_locks t (c_str pid_path) = (if std_apart pid_path s then Some (os_pid t) else None) \<and>
         (int_range (os_pid t) \<longrightarrow> (\<exists>old. os_files t (c_str pid_path) = Some (int_dec (os_pid t) @ CHR 0x0A # old)))"
proof -
  obtain c where fk: "os_fork s = ChildSide c"
    using assms(1) by (cases "os_fork s") (simp_all add: daemon_def os_fork_call_def bindP_def ret_def stop_with_def)
  let ?s0 = "s\<lparr>os_pid := c\<rparr>"
  obtain s1 where w: "write_pid_to_file pid_path ?s0 = (Returned (), s1)"
    using assms(1) fk by (auto simp: daemon_def os_fork_call_def bindP_def split: outcome.splits prod.splits)
  note w1 = write_pid_result[OF w]
  let ?s3 = "s1\<lparr>os_session := c, os_umask := 0\<rparr>"
  obtain fd s4 r0 s5 r1 s6 where o: "sys_open ''/dev/null'' False ?s3 = (Returned fd, s4)" "fd \<noteq> - 1"
    and d0: "sys_dup2 fd 0 s4 = (Returned r0, s5)" "r0 \<noteq> - 1"
    and d1: "sys_dup2 fd 1 s5 = (Returned r1, s6)" "r1 \<noteq> - 1"
    and e: "(if fd > 2 then bindP (sys_close fd) (\<lambda>rc. if rc = - 1 then ret (err REC_ERROR_INTERNAL, Some c)
              else ret (err ERROR_OK, Some c)) else ret (err ERROR_OK, Some c)) s6 = (Returned (err ERROR_OK, p), t)"
    using assms(1) fk w w1(5)
    by (auto simp: daemon_def os_fork_call_def bindP_Returned[where m = "write_pid_to_file _", OF w]
        bindP_eq_Returned os_getpid_def getP_def sys_setsid_def modP_def ret_def split: if_splits)
  have s4: "fd = fresh_fd (os_fds s1)" "s4 = ?s3\<lparr>os_fds := (fd, ''/dev/null'') # os_fds s1\<rparr>"
    using o by (auto simp: sys_open_def Let_def split: if_splits)
  have r: "same_proc s4 s6" "fd_file (os_fds s6) 0 = Some ''/dev/null''" "fd_file (os_fds s6) 1 = Some ''/dev/null''"
    "fd_file (os_fds s6) fd = Some ''/dev/null''"
    "os_locks s6 (c_str pid_path) =
       (if \<forall>k\<in>{0, 1}. \<exists>g. fd_file (os_fds s) k = Some g \<and> g \<noteq> c_str pid_path then Some (os_pid s4) else None)"
    using redirect_result[of s4 "os_fds s1" "os_fds s" "c_str pid_path"] d0 d1 s4 w1(3,5,6) assms(2) by simp_all
  have "same_proc s6 t \<and> fd_file (os_fds t) 0 = fd_file (os_fds s6) 0 \<and> fd_file (os_fds t) 1 = fd_file (os_fds s6) 1 \<and>
      os_locks t (c_str pid_path) = os_locks s6 (c_str pid_path) \<and> p = Some c"
  proof (cases "fd > 2")
    case True
    then obtain rc where cl: "sys_close fd s6 = (Returned rc, t)" "rc \<noteq> - 1" and p: "p = Some c"
      using e by (auto simp: bindP_eq_Returned ret_def split: if_splits)
    show ?thesis using close_result[OF cl] True r(4) assms(2) p by simp
  next
    case False
    then show ?thesis using e by (simp add: ret_def same_proc_def)
  qed
  moreover have "os_pid s4 = c" "os_session s4 = c" "os_umask s4 = 0" "os_files s4 = os_files s1" using s4(2) w1(5) by simp_all
  ultimately show ?thesis
    using fk r w1(1,2) assms(2) by (simp add: same_proc_def std_apart_def)
qed

text \<open>\<open>daemon\<close>, from the fork on.\<close>

lemma daemon_own_only:
  assumes "os_fork s = ChildSide p" "daemon f s = (r, t)"
  shows "own_only (s\<lparr>os_pid := p\<rparr>) t"
proof -
  have w: "keeps own_only (write_pid_to_file f)"
    unfolding write_pid_to_file_def Let_def by (intro own_only_seq)
  have "\<exists>k. daemon f = bindP os_fork_call k \<and> (\<forall>n. keeps own_only (k n))"
    unfolding daemon_def by (rule exI, rule conjI, rule refl) (intro allI own_only_seq w)
  then obtain k where k: "daemon f = bindP os_fork_call k" "keeps own_only (k 0)" by blast
  have "daemon f s = k 0 (s\<lparr>os_pid := p\<rparr>)"
    by (simp add: k(1) os_fork_call_def assms(1) bindP_def)
  then show ?thesis using assms(2) k(2) keepsD by metis
qed


text \<open>A system in which \<open>daemon\<close> has nothing to fail of, but the lock.\<close>

definition able :: "string \<Rightarrow> os \<Rightarrow> bool" where
  "able f s \<longleftrightarrow>
     \<not> os_denied s (c_str f) \<and> \<not> os_denied s ''/dev/null'' \<and> \<not> os_full s \<and> os_setsid_ok s \<and> os_dup_ok s \<and>
     c_str f \<noteq> ''/dev/null''"

lemma write_pid_succeeds:
  assumes "able f s" "os_locks s (c_str f) = None"
  obtains t where "write_pid_to_file f s = (Returned (), t)" "os_fds t = (fresh_fd (os_fds s), c_str f) # os_fds s"
    and "able f t" "dom (os_files s) \<subseteq> dom (os_files t)" "os_pid t = os_pid s"
proof -
  let ?fd = "fresh_fd (os_fds s)"
  let ?s1 = "s\<lparr>os_files := (if os_files s (c_str f) = None then (os_files s)(c_str f \<mapsto> []) else os_files s), os_fds := (?fd, c_str f) # os_fds s\<rparr>"
  let ?s2 = "?s1\<lparr>os_locks := (os_locks s)(c_str f \<mapsto> os_pid s)\<rparr>"
  have o: "sys_open (c_str f) True s = (Returned ?fd, ?s1)" using assms(1) by (simp add: sys_open_def able_def Let_def)
  have l: "sys_tlock ?fd ?s1 = (Returned 0, ?s2)" using assms(2) by (simp add: sys_tlock_def fd_file_def)
  let ?line = "int_dec (os_pid s) @ [CHR 0x0A]"
  let ?b = "take (length ?line) (snprintf 64 ?line)"
  have s2: "fd_file (os_fds ?s2) ?fd = Some (c_str f)" "\<not> os_full ?s2" using assms(1) by (simp_all add: fd_file_def able_def)
  define old where "old = (case os_files ?s2 (c_str f) of None \<Rightarrow> [] | Some x \<Rightarrow> x)"
  let ?s3 = "?s2\<lparr>os_files := (os_files ?s2)(c_str f \<mapsto> ?b @ drop (length ?b) old)\<rparr>"
  have w: "sys_write ?fd ?b ?s2 = (Returned (int (length ?b)), ?s3)"
    unfolding sys_write_def s2(1) option.case if_not_P[OF s2(2)] Let_def old_def ..
  have run: "write_pid_to_file f s = (Returned (), ?s3)"
    unfolding write_pid_to_file_def Let_def os_getpid_def bindP_getP bindP_Returned[where m = "sys_open _ _", OF o]
    using fresh_fd_nonneg[of "os_fds s"]
    by (simp add: bindP_Returned[where m = "sys_tlock _", OF l] bindP_Returned[where m = "sys_write _ _", OF w] ret_def
        del: take_append length_append)
  show thesis
    by (rule that[OF run]) (use assms(1) in \<open>auto simp: able_def\<close>)
qed


lemma dup2_succeeds:
  assumes "fd_file (os_fds s) fd = Some g" "os_dup_ok s"
  obtains t where "sys_dup2 fd to s = (Returned to, t)" "fd_file (os_fds t) fd = Some g" "os_dup_ok t"
proof -
  let ?s = "s\<lparr>os_fds := (to, g) # filter (\<lambda>e. fst e \<noteq> to) (os_fds s)\<rparr>"
  let ?t = "if fd = to then s else (case fd_file (os_fds s) to of None \<Rightarrow> id | Some k \<Rightarrow> drop_lock k) ?s"
  show thesis
    by (rule that[of ?t]) (use assms in \<open>auto simp: sys_dup2_def fd_file_def map_of_filter_other drop_lock_def split: option.split\<close>)
qed

lemma daemon_succeeds:
  assumes "os_fork s = ChildSide p" "able f s" "os_locks s (c_str f) = None" "os_files s ''/dev/null'' \<noteq> None" "0 < p"
  shows "\<exists>t. daemon f s = (Returned (err ERROR_OK, Some p), t)"
proof -
  let ?s0 = "s\<lparr>os_pid := p\<rparr>"
  have "able f ?s0" using assms(2) by (simp add: able_def)
  then obtain s1 where w: "write_pid_to_file f ?s0 = (Returned (), s1)" "able f s1" "dom (os_files ?s0) \<subseteq> dom (os_files s1)"
    "os_pid s1 = p"
    by (rule write_pid_succeeds) (use assms(3) in auto)
  let ?fd = "fresh_fd (os_fds s1)" and ?s2 = "s1\<lparr>os_session := p, os_umask := 0\<rparr>"
  let ?s3 = "?s2\<lparr>os_fds := (?fd, ''/dev/null'') # os_fds s1\<rparr>"
  have ss: "sys_setsid s1 = (Returned p, s1\<lparr>os_session := p\<rparr>)" using w(2,4) by (simp add: sys_setsid_def able_def)
  have nn: "os_files s1 ''/dev/null'' \<noteq> None" using assms(4) w(3) by auto
  have o: "sys_open ''/dev/null'' False ?s2 = (Returned ?fd, ?s3)"
    using nn w(2) by (auto simp: sys_open_def Let_def able_def)
  obtain s4 where d0: "sys_dup2 ?fd 0 ?s3 = (Returned 0, s4)" "fd_file (os_fds s4) ?fd = Some ''/dev/null''" "os_dup_ok s4"
    by (rule dup2_succeeds[of ?s3 ?fd "''/dev/null''" 0]) (use w(2) in \<open>auto simp: fd_file_def able_def\<close>)
  obtain s5 where d1: "sys_dup2 ?fd 1 s4 = (Returned 1, s5)" "fd_file (os_fds s5) ?fd = Some ''/dev/null''"
    by (rule dup2_succeeds[OF d0(2,3), of 1])
  obtain s6 where c: "sys_close ?fd s5 = (Returned 0, s6)" using d1(2) by (simp add: sys_close_def)
  have "daemon f s = (Returned (err ERROR_OK, Some p), if 2 < ?fd then s6 else s5)"
    using assms(5)
    by (simp add: daemon_def bindP_def[of os_fork_call] os_fork_call_def assms(1) bindP_Returned[where m = "write_pid_to_file _", OF w(1)]
        os_getpid_def w(4) bindP_Returned[where m = sys_setsid, OF ss] bindP_Returned[where m = "sys_open _ _", OF o[simplified]]
        bindP_Returned[where m = "sys_dup2 _ 0", OF d0(1)[simplified]] bindP_Returned[where m = "sys_dup2 _ 1", OF d1(1)]
        bindP_Returned[where m = "sys_close _", OF c] ret_def)
  then show ?thesis by blast
qed


section \<open>Holding a pid file\<close>

text \<open>
  Both programs announce themselves by a pid file they keep locked. \<open>hold f\<close> is an operation that
  does so when it returns a value that is \<open>ok\<close>, from a state \<open>pre\<close> admits; \<open>sys\<close> is the part of the state
  that is the operating system. What a reader of the file and a rival for the lock then find follows.
\<close>

locale pid_file_holder =
  fixes hold :: "string \<Rightarrow> ('s, 'a) prog"
    and sys :: "'s \<Rightarrow> os"
    and ok :: "'a \<Rightarrow> bool"
    and pre :: "string \<Rightarrow> 's \<Rightarrow> bool"
  assumes holds_lock: "hold f s = (Returned x, t) \<Longrightarrow> ok x \<Longrightarrow> pre f s \<Longrightarrow> os_locks (sys t) (c_str f) = Some (os_pid (sys t))"
    and holds_text: "hold f s = (Returned x, t) \<Longrightarrow> ok x \<Longrightarrow> pre f s \<Longrightarrow> int_range (os_pid (sys t)) \<Longrightarrow>
           \<exists>old. os_files (sys t) (c_str f) = Some (int_dec (os_pid (sys t)) @ CHR 0x0A # old)"
    and takes_free: "hold f s = (Returned x, t) \<Longrightarrow> ok x \<Longrightarrow> pre f s \<Longrightarrow>
           os_locks (sys s) (c_str f) \<in> {None, Some (os_pid (sys t))}"
begin

lemma reads_back:
  assumes "hold f s = (Returned x, t)" "ok x" "pre f s" "int_range (os_pid (sys t))"
    and "os_files v (c_str f) = os_files (sys t) (c_str f)" "\<not> os_denied v (c_str f)"
  shows "fst (get_pid_from_file f any v) = Returned (err ERROR_OK, os_pid (sys t))"
  using pid_text_reads[OF _ assms(4,6)] holds_text[OF assms(1-4)] assms(5) by auto

lemma rival_refused:
  assumes "hold f s = (Returned x, t)" "ok x" "pre f s"
    and "os_locks v (c_str f) = os_locks (sys t) (c_str f)" "os_pid v \<noteq> os_pid (sys t)" "\<not> os_denied v (c_str f)"
  shows "\<exists>fd. fst (try_lock_file f v) = Returned (False, fd)"
  using try_lock_refused[OF assms(6), of "os_pid (sys t)"] holds_lock[OF assms(1-3)] assms(4,5) by auto

lemma one_holder:
  assumes "hold f s = (Returned x, t)" "ok x" "pre f s" "os_locks (sys v) (c_str f) = os_locks (sys t) (c_str f)"
    and "hold f v = (Returned y, u)" "ok y" "pre f v"
  shows "os_pid (sys u) = os_pid (sys t)"
  using holds_lock[OF assms(1-3)] takes_free[OF assms(5-7)] assms(4) by simp

end

interpretation server_pid: pid_file_holder write_pid_to_file "\<lambda>s. s" "\<lambda>_. True" "\<lambda>_ _. True"
  by unfold_locales (use write_pid_result in auto)

interpretation server_daemon: pid_file_holder daemon "\<lambda>s. s" "\<lambda>(rv, p). rv = err ERROR_OK" std_apart
proof
  fix f :: string and s t :: os and x :: "int \<times> int option"
  assume d: "daemon f s = (Returned x, t)" and ok: "case x of (rv, p) \<Rightarrow> rv = err ERROR_OK" and pre: "std_apart f s"
  obtain p where x: "x = (err ERROR_OK, p)" using ok by (cases x) simp
  have n: "c_str f \<noteq> ''/dev/null''" using pre by (simp add: std_apart_def)
  note r = daemon_result[OF d[unfolded x] n]
  show "os_locks t (c_str f) = Some (os_pid t)" "os_locks s (c_str f) \<in> {None, Some (os_pid t)}"
    "int_range (os_pid t) \<Longrightarrow> \<exists>old. os_files t (c_str f) = Some (int_dec (os_pid t) @ CHR 0x0A # old)"
    using r pre by simp_all
qed

section \<open>The properties\<close>

text \<open>
  C21 (the pid file reads back). After \<open>write_pid_to_file\<close> has returned, the file is locked by
  the caller, and \<open>get_pid_from_file\<close> finds the pid of the caller in it, whatever the file held
  before: the old contents are not truncated, but the newline stops the number.
\<close>

theorem pid_file_roundtrip:
  assumes "write_pid_to_file f s = (Returned (), t)" "int_range (os_pid s)" "\<not> os_denied s (c_str f)"
  shows "os_locks t (c_str f) = Some (os_pid s) \<and>
         fst (get_pid_from_file f any t) = Returned (err ERROR_OK, os_pid s)"
  using server_pid.holds_lock[OF assms(1)] server_pid.reads_back[OF assms(1)] write_pid_result(4,5)[OF assms(1)] assms(2,3)
  by simp

theorem pid_file_roundtrip_witness:
  "fst (get_pid_from_file ''pid'' 0 (snd (write_pid_to_file ''pid'' (plain_os [''pid'' \<mapsto> ''123456''] Map.empty)))) =
     Returned (0, 42)"
proof -
  let ?s = "plain_os [''pid'' \<mapsto> ''123456''] Map.empty"
  have "fst (write_pid_to_file ''pid'' ?s) = Returned ()" by code_simp
  then have "write_pid_to_file ''pid'' ?s = (Returned (), snd (write_pid_to_file ''pid'' ?s))"
    by (metis prod.collapse)
  from pid_file_roundtrip[OF this, of 0] show ?thesis
    by (simp add: plain_os_def int_range_def INT_MIN_def INT_MAX_def)
qed

text \<open>
  C18 (the lock tells who runs). When the file can be opened, \<open>try_lock_file\<close> succeeds exactly
  when no other process holds the lock; then the caller holds it, and otherwise the holder is
  the same and the caller has no descriptor more than before.
\<close>

theorem try_lock_file_exclusive:
  assumes "\<not> os_denied s (c_str f)"
  shows "\<exists>b fd t. try_lock_file f s = (Returned (b, fd), t) \<and>
           (b \<longleftrightarrow> (\<forall>p. os_locks s (c_str f) = Some p \<longrightarrow> p = os_pid s)) \<and>
           (b \<longrightarrow> os_locks t = (os_locks s)(c_str f \<mapsto> os_pid s) \<and> fd_file (os_fds t) fd = Some (c_str f)) \<and>
           (\<not> b \<longrightarrow> os_locks t = os_locks s \<and> os_fds t = os_fds s)"
proof -
  let ?fd = "fresh_fd (os_fds s)"
  let ?t = "s\<lparr>os_files := (if os_files s (c_str f) = None then (os_files s)(c_str f \<mapsto> []) else os_files s),
      os_fds := (?fd, c_str f) # os_fds s\<rparr>"
  have o: "sys_open (c_str f) True s = (Returned ?fd, ?t)" using assms by (simp add: sys_open_def Let_def)
  have fd: "?fd \<noteq> - 1" "fd_file (os_fds ?t) ?fd = Some (c_str f)"
    using fresh_fd_nonneg[of "os_fds s"] by (simp_all add: fd_file_def)
  show ?thesis
  proof (cases "\<forall>p. os_locks s (c_str f) = Some p \<longrightarrow> p = os_pid s")
    case True
    then have "sys_tlock ?fd ?t = (Returned 0, ?t\<lparr>os_locks := (os_locks s)(c_str f \<mapsto> os_pid s)\<rparr>)"
      using fd(2) by (cases "os_locks s (c_str f)") (auto simp: sys_tlock_def fun_upd_idem)
    with o fd True show ?thesis by (auto simp: try_lock_file_def bindP_def ret_def)
  next
    case False
    then obtain p where p: "os_locks s (c_str f) = Some p" "p \<noteq> os_pid s" by auto
    show ?thesis using try_lock_refused[OF assms p] False by auto
  qed
qed

theorem try_lock_file_exclusive_witness:
  "fst (try_lock_file ''pid'' (plain_os Map.empty [''pid'' \<mapsto> 7])) = Returned (False, 3) \<and>
   (\<exists>b fd t. try_lock_file ''pid'' (plain_os Map.empty [''pid'' \<mapsto> 7]) = (Returned (b, fd), t) \<and>
      \<not> b \<and> os_locks t = [''pid'' \<mapsto> 7])"
proof -
  have n: "\<not> os_denied (plain_os Map.empty [''pid'' \<mapsto> 7]) (c_str ''pid'')" by (simp add: plain_os_def)
  have v: "fst (try_lock_file ''pid'' (plain_os Map.empty [''pid'' \<mapsto> 7])) = Returned (False, 3)" by code_simp
  from try_lock_file_exclusive[OF n] v show ?thesis
    by (auto simp: plain_os_def)
qed

text \<open>
  C22 (a daemon that started). When \<open>daemon\<close> returns \<open>ERROR_OK\<close>, the process is the child of the fork, it leads its
  own session, its umask is 0, its standard input and output are \<open>/dev/null\<close>, and the text of the pid file is
  its pid and a newline before anything older. It holds the lock on the pid file exactly if its standard input
  and output were open, on other files than the pid file. In a process started with one of them closed the pid
  file is opened into it, and redirecting it gives up the lock.
\<close>

theorem daemon_started:
  assumes "daemon pid_path s = (Returned (err ERROR_OK, p), t)" "c_str pid_path \<noteq> ''/dev/null''"
  shows "os_fork s = ChildSide (os_pid t) \<and> p = Some (os_pid t) \<and> os_session t = os_pid t \<and> os_umask t = 0 \<and>
         fd_file (os_fds t) 0 = Some ''/dev/null'' \<and> fd_file (os_fds t) 1 = Some ''/dev/null'' \<and>
         os_locks t (c_str pid_path) =
           (if \<forall>fd\<in>{0, 1}. \<exists>g. fd_file (os_fds s) fd = Some g \<and> g \<noteq> c_str pid_path then Some (os_pid t) else None) \<and>
         (int_range (os_pid t) \<longrightarrow> (\<exists>old. os_files t (c_str pid_path) = Some (int_dec (os_pid t) @ CHR 0x0A # old)))"
  using daemon_result[OF assms] assms(2) by (simp add: std_apart_def)

text \<open>A system started with standard input closed.\<close>

definition no_stdin :: os where
  "no_stdin = (plain_os Map.empty Map.empty)\<lparr>os_fds := [(1, ''tty''), (2, ''tty'')]\<rparr>"

theorem daemon_started_witness:
  "os_pid (snd (daemon ''pid'' (plain_os Map.empty Map.empty))) = 43 \<and>
   os_locks (snd (daemon ''pid'' (plain_os Map.empty Map.empty))) (c_str ''pid'') = Some 43 \<and>
   fst (daemon ''pid'' no_stdin) = Returned (0, Some 43) \<and> os_locks (snd (daemon ''pid'' no_stdin)) (c_str ''pid'') = None"
proof -
  let ?s = "plain_os Map.empty Map.empty"
  have r: "fst (daemon ''pid'' ?s) = Returned (0, Some 43)" "fst (daemon ''pid'' no_stdin) = Returned (0, Some 43)" by code_simp+
  then have d: "daemon ''pid'' ?s = (Returned (err ERROR_OK, Some 43), snd (daemon ''pid'' ?s))"
    "daemon ''pid'' no_stdin = (Returned (err ERROR_OK, Some 43), snd (daemon ''pid'' no_stdin))"
    by (metis prod.collapse err.simps(1))+
  have n: "c_str ''pid'' \<noteq> ''/dev/null''" by (simp add: c_str_def NUL_def)
  from daemon_started[OF d(1) n] daemon_started[OF d(2) n] r(2) show ?thesis
    by (simp add: plain_os_def no_stdin_def fd_file_def c_str_def NUL_def)
qed

end
