(* ===== verification/IniReader.thy ===== *)
theory IniReader
  imports PString
begin

text \<open>
  \<open>config/iniReader.cpp\<close>, of which the two programs hold identical copies: a line-by-line
  reader of \<open>[section]\<close> and \<open>key=value\<close> lines into nested maps, and the three lookups.
  \<open>load_line\<close> is one pass through the \<open>fgets\<close> loop of \<open>Load\<close>, \<open>load_loop\<close> the loop.
  Files are a map from the path to the bytes of the files that can be opened.
\<close>

section \<open>State\<close>

datatype INI_RES = INI_SUCCESS | INI_ERROR | INI_OPENFILE_ERROR | INI_NO_ATTR

type_synonym KEYMAP = "string \<rightharpoonup> string"
type_synonym MAINKEYMAP = "string \<rightharpoonup> KEYMAP"

definition CONFIGLEN :: nat where
  "CONFIGLEN = 256"

record CIniReader =
  m_fp :: bool
  m_szKey :: string
  m_Map :: MAINKEYMAP

definition CIniReader_new :: CIniReader where
  "CIniReader_new = \<lparr>m_fp = False, m_szKey = [], m_Map = Map.empty\<rparr>"

text \<open>The locals of \<open>Load\<close> that live across lines, and the map it fills.\<close>

record load_state =
  szLastMainKey :: string
  mLastMap :: KEYMAP
  lMap :: MAINKEYMAP

section \<open>Load\<close>

text \<open>\<open>std::string::find\<close> into an \<open>int\<close>: \<open>npos\<close> becomes \<open>-1\<close>.\<close>

definition find_pos :: "char \<Rightarrow> string \<Rightarrow> int" where
  "find_pos c s = (case find_char c s of None \<Rightarrow> - 1 | Some n \<Rightarrow> int n)"

definition erase_first :: "char \<Rightarrow> string \<Rightarrow> string" where
  "erase_first c s =
     (let n = find_pos c s in
      if n \<noteq> - 1 then take (nat n) s @ drop (Suc (nat n)) s else s)"

definition strip_eol :: "string \<Rightarrow> string" where
  "strip_eol s = erase_first (CHR 0x0D) (erase_first (CHR 0x0A) (c_str s))"

text \<open>\<open>None\<close>: \<open>erase\<close> threw \<open>std::out_of_range\<close>, which nothing in the program catches.\<close>

definition load_line :: "load_state \<Rightarrow> string \<Rightarrow> load_state option" where
  "load_line st strLine =
     (let szLine = strip_eol strLine;
          nLeftPos = find_pos (CHR ''['') szLine;
          nRightPos = find_pos (CHR '']'') szLine
      in if nLeftPos \<noteq> - 1 \<and> nRightPos \<noteq> - 1
         then (case string_erase1 nLeftPos szLine of
                 None \<Rightarrow> None
               | Some s1 \<Rightarrow>
                   (case string_erase1 (nRightPos - 1) s1 of
                      None \<Rightarrow> None
                    | Some s2 \<Rightarrow>
                        Some (st\<lparr>lMap := (lMap st)(szLastMainKey st \<mapsto> mLastMap st),
                                 mLastMap := Map.empty, szLastMainKey := s2\<rparr>)))
         else (let nIndexPos = find_pos (CHR ''='') szLine in
               if nIndexPos \<noteq> - 1
               then Some (st\<lparr>mLastMap := (mLastMap st)
                                (take (nat nIndexPos) szLine \<mapsto> drop (Suc (nat nIndexPos)) szLine)\<rparr>)
               else Some st))"

function load_loop :: "load_state \<Rightarrow> string \<Rightarrow> load_state option" where
  "load_loop st inp =
     (if inp = [] then Some st
      else (case take_line (CONFIGLEN - 1) inp of
              (strLine, rest) \<Rightarrow>
                (case load_line st strLine of
                   None \<Rightarrow> None
                 | Some st' \<Rightarrow> load_loop st' rest)))"
  by pat_completeness auto

lemma take_line_Suc_less:
  "inp \<noteq> [] \<Longrightarrow> take_line (Suc k) inp = (l, r) \<Longrightarrow> length r < length inp"
  by (cases inp) (auto split: if_splits prod.splits dest: take_line_length)

lemma take_line_less:
  assumes "inp \<noteq> []" and "(l, r) = take_line (CONFIGLEN - 1) inp"
  shows "length r < length inp"
proof (rule take_line_Suc_less[OF assms(1)])
  have "CONFIGLEN - 1 = Suc 254" by (simp add: CONFIGLEN_def)
  then show "take_line (Suc 254) inp = (l, r)" using assms(2) by metis
qed

termination load_loop
  by (relation "measure (\<lambda>(st, inp). length inp)") (auto dest: take_line_less)

declare load_loop.simps [simp del]

lemma load_loop_Nil: "load_loop st [] = Some st"
  by (subst load_loop.simps) simp

definition load_init :: load_state where
  "load_init = \<lparr>szLastMainKey = [], mLastMap = Map.empty, lMap = Map.empty\<rparr>"

definition load_final :: "load_state \<Rightarrow> MAINKEYMAP" where
  "load_final st = (lMap st)(szLastMainKey st \<mapsto> mLastMap st)"

definition Load :: "(string \<rightharpoonup> string) \<Rightarrow> string \<Rightarrow> (CIniReader, INI_RES) prog" where
  "Load fs pathName r =
     (case fs pathName of
        None \<Rightarrow> (Returned INI_OPENFILE_ERROR, r\<lparr>m_fp := False\<rparr>)
      | Some inp \<Rightarrow>
          (case load_loop load_init inp of
             None \<Rightarrow> (Aborted, r\<lparr>m_fp := True\<rparr>)
           | Some st \<Rightarrow> (Returned INI_SUCCESS, r\<lparr>m_fp := True, m_Map := load_final st\<rparr>)))"

definition CloseFile :: "(CIniReader, INI_RES) prog" where
  "CloseFile r = (Returned INI_SUCCESS, if m_fp r then r\<lparr>m_fp := False\<rparr> else r)"

section \<open>Lookups\<close>

text \<open>
  \<open>m_Map[ mAttr ]\<close> inserts an empty section when there is none; the inner lookup works on
  a copy. \<open>strcpy\<close> into the \<open>CONFIGLEN\<close> bytes of \<open>m_szKey\<close> is checked by the model only.
\<close>

definition GetKey :: "string \<Rightarrow> string \<Rightarrow> (CIniReader, INI_RES) prog" where
  "GetKey mAttr cAttr r =
     (let mKey = (case m_Map r mAttr of None \<Rightarrow> Map.empty | Some k \<Rightarrow> k);
          r' = r\<lparr>m_Map := (m_Map r)(mAttr \<mapsto> mKey)\<rparr>;
          sTemp = (case mKey cAttr of None \<Rightarrow> [] | Some v \<Rightarrow> v)
      in if length (c_str sTemp) < CONFIGLEN
         then (Returned INI_SUCCESS, r'\<lparr>m_szKey := c_str sTemp\<rparr>)
         else (Undefined, r'))"

definition GetInt :: "string \<Rightarrow> string \<Rightarrow> (CIniReader, int) prog" where
  "GetInt mAttr cAttr =
     bindP (modP (\<lambda>r. r\<lparr>m_szKey := []\<rparr>)) (\<lambda>_.
     bindP (GetKey mAttr cAttr) (\<lambda>res.
     if res = INI_SUCCESS
     then bindP (getP m_szKey) (\<lambda>s.
            case atoi s of None \<Rightarrow> stop_with Undefined | Some n \<Rightarrow> ret n)
     else ret 0))"

definition GetStr :: "string \<Rightarrow> string \<Rightarrow> (CIniReader, string) prog" where
  "GetStr mAttr cAttr =
     bindP (modP (\<lambda>r. r\<lparr>m_szKey := []\<rparr>)) (\<lambda>_.
     bindP (GetKey mAttr cAttr) (\<lambda>res.
     bindP (modP (\<lambda>r. if res \<noteq> INI_SUCCESS then r\<lparr>m_szKey := ''NULL''\<rparr> else r)) (\<lambda>_.
     getP m_szKey)))"

lemmas ini_defs [api_defs] = Load_def CloseFile_def GetKey_def GetInt_def GetStr_def

section \<open>What a reader holds\<close>

text \<open>The value a reader gives for a key: the empty string for one it does not have.\<close>

definition ini_val :: "CIniReader \<Rightarrow> string \<Rightarrow> string \<Rightarrow> string" where
  "ini_val r m k =
     (case m_Map r m of None \<Rightarrow> [] | Some km \<Rightarrow> (case km k of None \<Rightarrow> [] | Some v \<Rightarrow> c_str v))"

text \<open>Every value fits \<open>m_szKey\<close>: what \<open>GetKey\<close> relies on and \<open>Load\<close> establishes.\<close>

definition km_fits :: "KEYMAP \<Rightarrow> bool" where
  "km_fits km \<longleftrightarrow> (\<forall>k v. km k = Some v \<longrightarrow> length v < CONFIGLEN - 1)"

definition ini_fits :: "CIniReader \<Rightarrow> bool" where
  "ini_fits r \<longleftrightarrow> (\<forall>m km. m_Map r m = Some km \<longrightarrow> km_fits km)"

definition load_fits :: "load_state \<Rightarrow> bool" where
  "load_fits st \<longleftrightarrow> km_fits (mLastMap st) \<and> (\<forall>m km. lMap st m = Some km \<longrightarrow> km_fits km)"

text \<open>The interface the two \<open>main\<close> functions read their configuration through.\<close>

locale config_source =
  fixes inv :: "'r \<Rightarrow> bool"
    and val :: "'r \<Rightarrow> string \<Rightarrow> string \<Rightarrow> string"
    and get_str :: "string \<Rightarrow> string \<Rightarrow> ('r, string) prog"
    and cap :: nat
  assumes get_str_ok: "inv r \<Longrightarrow>
      \<exists>r'. get_str m k r = (Returned (val r m k), r') \<and> inv r' \<and> val r' = val r"
    and val_fits: "inv r \<Longrightarrow> length (val r m k) < cap"
    and val_no_nul: "inv r \<Longrightarrow> NUL \<notin> set (val r m k)"
begin

text \<open>
  Reading keys one after another gives each its configured value, in any order and any
  number of times: a lookup changes no later answer.
\<close>

lemma get_then:
  assumes "inv r"
  shows "\<exists>r'. bindP (get_str m k) f r = f (val r m k) r' \<and> inv r' \<and> val r' = val r"
  using get_str_ok[OF assms, of m k] by (auto simp: bindP_def)

lemma get_all_keys:
  assumes "inv r"
  shows "\<exists>r'. forP (\<lambda>(m, k). bindP (get_str m k) (\<lambda>_. ret ())) mks r = (Returned (), r') \<and>
              inv r' \<and> val r' = val r"
  using assms
proof (induction mks arbitrary: r)
  case Nil
  then show ?case by auto
next
  case (Cons mk mks)
  obtain m k where mk: "mk = (m, k)" by fastforce
  obtain r1 where r1: "get_str m k r = (Returned (val r m k), r1)" "inv r1" "val r1 = val r"
    using get_str_ok[OF Cons.prems] by blast
  from Cons.IH[OF r1(2)] r1(3) show ?case
    using r1(1) mk by (auto simp: bindP_def ret_def)
qed

end

lemma ini_val_fits: "ini_fits r \<Longrightarrow> length (ini_val r m k) < CONFIGLEN"
proof -
  assume fits: "ini_fits r"
  have "length (c_str v) < CONFIGLEN" if "m_Map r m = Some km" "km k = Some v" for km v
  proof -
    have "length v < CONFIGLEN - 1" using fits that by (simp add: ini_fits_def km_fits_def)
    then show ?thesis using length_c_str[of v] by linarith
  qed
  then show ?thesis by (auto simp: ini_val_def CONFIGLEN_def split: option.splits)
qed

lemma GetKey_eq:
  assumes "ini_fits r"
  shows "\<exists>r'. GetKey m k r = (Returned INI_SUCCESS, r') \<and> m_szKey r' = ini_val r m k \<and>
              ini_fits r' \<and> ini_val r' = ini_val r"
proof -
  let ?km = "case m_Map r m of None \<Rightarrow> Map.empty | Some k \<Rightarrow> k"
  let ?v = "case ?km k of None \<Rightarrow> [] | Some v \<Rightarrow> v"
  let ?r = "r\<lparr>m_Map := (m_Map r)(m \<mapsto> ?km), m_szKey := c_str ?v\<rparr>"
  have v: "c_str ?v = ini_val r m k" by (auto simp: ini_val_def split: option.splits)
  then have "length (c_str ?v) < CONFIGLEN" using ini_val_fits[OF assms] by simp
  then have "GetKey m k r = (Returned INI_SUCCESS, ?r)" by (simp add: GetKey_def Let_def)
  moreover have "ini_fits ?r"
    using assms by (auto simp: ini_fits_def km_fits_def split: option.splits)
  moreover have "ini_val ?r = ini_val r"
    by (intro ext) (auto simp: ini_val_def split: option.splits)
  ultimately show ?thesis using v by auto
qed

lemma ini_fits_szKey [simp]: "ini_fits (r\<lparr>m_szKey := s\<rparr>) = ini_fits r"
  by (simp add: ini_fits_def)

lemma ini_val_szKey [simp]: "ini_val (r\<lparr>m_szKey := s\<rparr>) = ini_val r"
  by (intro ext) (simp add: ini_val_def)

lemma GetStr_eq:
  assumes "ini_fits r"
  shows "\<exists>r'. GetStr m k r = (Returned (ini_val r m k), r') \<and> ini_fits r' \<and> ini_val r' = ini_val r"
proof -
  obtain r' where g: "GetKey m k (r\<lparr>m_szKey := []\<rparr>) = (Returned INI_SUCCESS, r')"
    and r': "m_szKey r' = ini_val r m k" "ini_fits r'" "ini_val r' = ini_val r"
    using GetKey_eq[of "r\<lparr>m_szKey := []\<rparr>" m k] assms by auto
  have "GetStr m k r = (Returned (m_szKey r'), r')"
    by (simp add: GetStr_def bindP_def[of "GetKey m k"] g getP_def)
  then show ?thesis using r' by simp
qed

interpretation cfg: config_source ini_fits ini_val GetStr CONFIGLEN
proof
  fix r :: CIniReader and m k :: string
  assume "ini_fits r"
  then show "\<exists>r'. GetStr m k r = (Returned (ini_val r m k), r') \<and> ini_fits r' \<and> ini_val r' = ini_val r"
    and "length (ini_val r m k) < CONFIGLEN"
    by (rule GetStr_eq, rule ini_val_fits)
  show "NUL \<notin> set (ini_val r m k)"
    by (simp add: ini_val_def c_str_no_nul split: option.splits)
qed

lemma GetInt_eq:
  assumes "ini_fits r"
  shows "\<exists>r'. GetInt m k r =
               (case atoi (ini_val r m k) of None \<Rightarrow> (Undefined, r') | Some n \<Rightarrow> (Returned n, r')) \<and>
              ini_fits r' \<and> ini_val r' = ini_val r"
proof -
  obtain r' where g: "GetKey m k (r\<lparr>m_szKey := []\<rparr>) = (Returned INI_SUCCESS, r')"
    and r': "m_szKey r' = ini_val r m k" "ini_fits r'" "ini_val r' = ini_val r"
    using GetKey_eq[of "r\<lparr>m_szKey := []\<rparr>" m k] assms by auto
  then show ?thesis
    by (intro exI[of _ r'])
       (simp add: GetInt_def bindP_def[of "GetKey m k"] g stop_with_def ret_def split: option.split)
qed

section \<open>What \<open>Load\<close> stores\<close>

lemma erase_first_remove1: "erase_first c s = remove1 c s"
proof (induction s)
  case Nil
  then show ?case by (simp add: erase_first_def find_pos_def)
next
  case (Cons x xs)
  then show ?case
    by (auto simp: erase_first_def find_pos_def Let_def nat_add_distrib remove1_idem
             dest: find_char_mem split: option.splits)
qed

lemma strip_eol_remove1: "strip_eol s = remove1 (CHR 0x0D) (remove1 (CHR 0x0A) (c_str s))"
  by (simp add: strip_eol_def erase_first_remove1)

lemma find_pos_minus1 [simp]: "find_pos c s = - 1 \<longleftrightarrow> c \<notin> set s"
  by (auto simp: find_pos_def dest: find_char_mem split: option.splits)

lemma length_strip_eol: "length (strip_eol s) \<le> length s"
proof -
  have r: "length (remove1 c t) \<le> length t" for c :: char and t
    by (simp add: length_remove1)
  show ?thesis unfolding strip_eol_remove1
    using r[of "CHR 0x0D" "remove1 (CHR 0x0A) (c_str s)"] r[of "CHR 0x0A" "c_str s"]
      length_c_str[of s] by linarith
qed

lemma load_line_fits:
  assumes "load_fits st" "length l < CONFIGLEN" "load_line st l = Some st'"
  shows "load_fits st'"
proof -
  let ?s = "strip_eol l"
  have "length ?s < CONFIGLEN" using assms(2) length_strip_eol[of l] by linarith
  moreover have "?s \<noteq> [] \<Longrightarrow> length (drop (Suc n) ?s) < length ?s" for n
    by simp
  ultimately have short: "length (drop (Suc n) ?s) < CONFIGLEN - 1" for n
    by (cases "?s = []") (auto simp: CONFIGLEN_def)
  show ?thesis
    using assms(1,3) short
    by (auto simp: load_line_def load_fits_def km_fits_def Let_def
             split: if_splits option.splits)
qed

lemma load_loop_fits:
  "load_fits st \<Longrightarrow> load_loop st inp = Some st' \<Longrightarrow> load_fits st'"
proof (induction st inp arbitrary: st' rule: load_loop.induct)
  case (1 st inp)
  show ?case
  proof (cases "inp = []")
    case True
    with 1 show ?thesis by (simp add: load_loop.simps)
  next
    case False
    obtain l r where t: "take_line (CONFIGLEN - 1) inp = (l, r)" by fastforce
    with False "1.prems"(2) obtain st1 where l1: "load_line st l = Some st1"
      and rest: "load_loop st1 r = Some st'"
      by (auto simp: load_loop.simps [of st inp] split: option.splits)
    have "length l < CONFIGLEN" using take_line_length[OF t] by (simp add: CONFIGLEN_def)
    with "1.prems"(1) l1 have "load_fits st1" by (blast intro: load_line_fits)
    with "1.IH"[OF False t[symmetric] l1] rest show ?thesis by blast
  qed
qed

lemma load_init_fits: "load_fits load_init"
  by (simp add: load_fits_def load_init_def km_fits_def)

lemma Load_fits: "ini_fits r \<Longrightarrow> Load fs p r = (res, r') \<Longrightarrow> ini_fits r'"
  using load_loop_fits[OF load_init_fits]
  by (auto simp: Load_def ini_fits_def load_final_def load_fits_def split: option.splits if_splits)

lemma ini_fits_new: "ini_fits CIniReader_new"
  by (simp add: ini_fits_def CIniReader_new_def)

section \<open>Printing a configuration and loading it back\<close>

text \<open>
  A configuration is a list of sections, each with its lines; \<open>render\<close> prints it the way
  the files under \<open>conf/\<close> are written. \<open>key_line_ok\<close> and \<open>section_ok\<close> are the lines \<open>Load\<close>
  reads as such: within one \<open>fgets\<close> buffer, and a key line without both brackets.
\<close>

type_synonym config = "(string \<times> (string \<times> string) list) list"

definition no_eol :: "string \<Rightarrow> bool" where
  "no_eol s \<longleftrightarrow> CHR 0x0A \<notin> set s \<and> CHR 0x0D \<notin> set s \<and> NUL \<notin> set s"

definition key_line :: "string \<times> string \<Rightarrow> string" where
  "key_line kv = fst kv @ CHR ''='' # snd kv"

definition key_line_ok :: "string \<times> string \<Rightarrow> bool" where
  "key_line_ok kv \<longleftrightarrow>
     no_eol (key_line kv) \<and> CHR ''='' \<notin> set (fst kv) \<and> length (key_line kv) < CONFIGLEN - 1 \<and>
     \<not> (CHR ''['' \<in> set (key_line kv) \<and> CHR '']'' \<in> set (key_line kv))"

definition section_ok :: "string \<Rightarrow> bool" where
  "section_ok s \<longleftrightarrow>
     no_eol s \<and> CHR ''['' \<notin> set s \<and> CHR '']'' \<notin> set s \<and> length s + 2 < CONFIGLEN - 1"

definition config_ok :: "config \<Rightarrow> bool" where
  "config_ok c \<longleftrightarrow> list_all (\<lambda>(s, kvs). section_ok s \<and> list_all key_line_ok kvs) c"

definition render_keys :: "(string \<times> string) list \<Rightarrow> string" where
  "render_keys kvs = concat (map (\<lambda>kv. key_line kv @ [CHR 0x0A]) kvs)"

definition header_line :: "string \<Rightarrow> string" where
  "header_line s = CHR ''['' # s @ [CHR '']'']"

definition render :: "config \<Rightarrow> string" where
  "render c = concat (map (\<lambda>(s, kvs). header_line s @ CHR 0x0A # render_keys kvs) c)"

definition config_lookup :: "config \<Rightarrow> string \<Rightarrow> string \<Rightarrow> string" where
  "config_lookup c m k =
     (case map_of (rev c) m of
        None \<Rightarrow> []
      | Some kvs \<Rightarrow> (case map_of (rev kvs) k of None \<Rightarrow> [] | Some v \<Rightarrow> v))"

lemma strip_eol_line: "no_eol s \<Longrightarrow> strip_eol (s @ [CHR 0x0A]) = s"
proof -
  assume s: "no_eol s"
  then have "c_str (s @ [CHR 0x0A]) = s @ [CHR 0x0A]"
    by (intro c_str_id) (auto simp: no_eol_def NUL_def)
  with s show ?thesis
    by (simp add: strip_eol_remove1 no_eol_def remove1_append remove1_idem)
qed

lemma load_loop_line:
  assumes "no_eol s" "length s < CONFIGLEN - 1"
  shows "load_loop st (s @ CHR 0x0A # rest) =
           (case load_line st (s @ [CHR 0x0A]) of None \<Rightarrow> None | Some st' \<Rightarrow> load_loop st' rest)"
proof -
  have "take_line (CONFIGLEN - 1) (s @ CHR 0x0A # rest) = (s @ [CHR 0x0A], rest)"
    using assms by (intro take_line_whole) (auto simp: no_eol_def)
  then show ?thesis by (subst load_loop.simps) (simp split: option.split)
qed

lemma find_pos_append: "c \<notin> set s \<Longrightarrow> find_pos c (s @ c # t) = int (length s)"
  by (simp add: find_pos_def find_char_append)

lemma load_line_key:
  assumes "key_line_ok kv"
  shows "load_line st (key_line kv @ [CHR 0x0A]) =
           Some (st\<lparr>mLastMap := (mLastMap st)(fst kv \<mapsto> snd kv)\<rparr>)"
proof -
  from assms have "strip_eol (key_line kv @ [CHR 0x0A]) = key_line kv"
    by (simp add: key_line_ok_def strip_eol_line)
  with assms show ?thesis
    by (auto simp: load_line_def Let_def key_line_ok_def key_line_def find_pos_append)
qed

lemma header_no_eol: "section_ok s \<Longrightarrow> no_eol (header_line s)"
  by (simp add: section_ok_def no_eol_def header_line_def NUL_def)

lemma load_line_header:
  assumes "section_ok s"
  shows "load_line st (header_line s @ [CHR 0x0A]) =
           Some \<lparr>szLastMainKey = s, mLastMap = Map.empty, lMap = load_final st\<rparr>"
proof -
  have e: "strip_eol (header_line s @ [CHR 0x0A]) = header_line s"
    using header_no_eol[OF assms] by (rule strip_eol_line)
  have l: "find_pos (CHR ''['') (header_line s) = 0"
    by (simp add: header_line_def find_pos_def)
  have r: "find_pos (CHR '']'') (header_line s) = int (Suc (length s))"
    using assms find_pos_append[of "CHR '']''" "CHR ''['' # s" "[]"]
    by (simp add: header_line_def section_ok_def)
  show ?thesis
    unfolding load_line_def Let_def e l r
    by (simp add: header_line_def string_erase1_def load_final_def)
qed

lemma load_loop_keys:
  assumes "list_all key_line_ok kvs"
  shows "load_loop st (render_keys kvs @ rest) =
           load_loop (st\<lparr>mLastMap := mLastMap st ++ map_of (rev kvs)\<rparr>) rest"
  using assms
proof (induction kvs arbitrary: st)
  case Nil
  then show ?case by (simp add: render_keys_def)
next
  case (Cons kv kvs)
  then have kv: "key_line_ok kv" and kvs: "list_all key_line_ok kvs" by auto
  let ?m = "(mLastMap st)(fst kv \<mapsto> snd kv)"
  have "load_loop st (render_keys (kv # kvs) @ rest) =
          load_loop (st\<lparr>mLastMap := ?m\<rparr>) (render_keys kvs @ rest)"
    using kv load_loop_line[of "key_line kv" st "render_keys kvs @ rest"]
    by (simp add: render_keys_def key_line_ok_def load_line_key[OF kv])
  also have "\<dots> = load_loop (st\<lparr>mLastMap := ?m ++ map_of (rev kvs)\<rparr>) rest"
    using Cons.IH[OF kvs, of "st\<lparr>mLastMap := ?m\<rparr>"]
    by (simp add: fun_upd_def)
  also have "?m ++ map_of (rev kvs) = mLastMap st ++ map_of (rev (kv # kvs))"
    by (cases kv) simp
  finally show ?case .
qed

lemma load_loop_render:
  assumes "config_ok c"
  shows "\<exists>st'. load_loop st (render c @ rest) = load_loop st' rest \<and>
           load_final st' =
             load_final st ++ map_of (rev (map (\<lambda>(s, kvs). (s, map_of (rev kvs))) c))"
  using assms
proof (induction c arbitrary: st)
  case Nil
  then show ?case by (auto simp: render_def)
next
  case (Cons sec c)
  obtain s kvs where sec: "sec = (s, kvs)" by fastforce
  with Cons.prems have s: "section_ok s" and kvs: "list_all key_line_ok kvs" and c: "config_ok c"
    by (auto simp: config_ok_def)
  let ?st1 = "\<lparr>szLastMainKey = s, mLastMap = map_of (rev kvs), lMap = load_final st\<rparr>"
  have "length (header_line s) < CONFIGLEN - 1" using s by (simp add: section_ok_def header_line_def)
  with load_loop_line[OF header_no_eol[OF s]] s
  have "load_loop st (header_line s @ CHR 0x0A # render_keys kvs @ render c @ rest) =
          load_loop ?st1 (render c @ rest)"
    by (simp add: load_line_header load_loop_keys[OF kvs])
  moreover have "load_final ?st1 = (load_final st)(s \<mapsto> map_of (rev kvs))"
    by (simp add: load_final_def)
  moreover obtain st' where "load_loop ?st1 (render c @ rest) = load_loop st' rest"
    and "load_final st' =
           load_final ?st1 ++ map_of (rev (map (\<lambda>(s, kvs). (s, map_of (rev kvs))) c))"
    using Cons.IH[OF c, of ?st1] by blast
  ultimately show ?case
    using sec by (intro exI[of _ st']) (simp add: render_def)
qed

lemma map_of_rev_snd:
  "map_of (rev (map (\<lambda>(s, kvs). (s, f kvs)) c)) m = map_option f (map_of (rev c) m)"
proof -
  have "map_of (map (\<lambda>(s, kvs). (s, f kvs)) d) m = map_option f (map_of d m)" for d
    by (induction d) auto
  then show ?thesis by (metis rev_map)
qed

lemma c_str_value:
  assumes "config_ok c" "map_of (rev c) m = Some kvs" "map_of (rev kvs) k = Some v"
  shows "c_str v = v"
proof (rule c_str_id)
  have "(m, kvs) \<in> set c" using map_of_SomeD[OF assms(2)] by simp
  moreover have "(k, v) \<in> set kvs" using map_of_SomeD[OF assms(3)] by simp
  ultimately have "key_line_ok (k, v)"
    using assms(1) by (auto simp: config_ok_def list_all_iff)
  then show "NUL \<notin> set v" by (simp add: key_line_ok_def no_eol_def key_line_def)
qed

lemma ini_val_of_final:
  assumes "config_ok c"
    and "load_final st' =
      load_final load_init ++ map_of (rev (map (\<lambda>(s, kvs). (s, map_of (rev kvs))) c))"
  shows "ini_val (r\<lparr>m_Map := load_final st'\<rparr>) = config_lookup c"
proof (intro ext)
  fix m k
  have "load_final load_init = [[] \<mapsto> Map.empty]"
    by (simp add: load_final_def load_init_def)
  then have "load_final st' m =
      (case map_of (rev c) m of
         None \<Rightarrow> if m = [] then Some Map.empty else None
       | Some kvs \<Rightarrow> Some (map_of (rev kvs)))" for m
    by (simp add: assms(2) map_of_rev_snd map_add_def split: option.splits)
  then show "ini_val (r\<lparr>m_Map := load_final st'\<rparr>) m k = config_lookup c m k"
    using c_str_value[OF assms(1)]
    by (simp add: ini_val_def config_lookup_def split: option.splits)
qed

lemma Load_of_loop:
  assumes "load_loop load_init inp = Some st'" "fs p = Some inp"
  shows "\<exists>r'. Load fs p r = (Returned INI_SUCCESS, r') \<and> ini_fits r' \<and>
              ini_val r' = ini_val (CIniReader_new\<lparr>m_Map := load_final st'\<rparr>)"
proof -
  let ?r = "r\<lparr>m_fp := True, m_Map := load_final st'\<rparr>"
  have "Load fs p r = (Returned INI_SUCCESS, ?r)" using assms by (simp add: Load_def)
  moreover have "ini_fits ?r"
    using load_loop_fits[OF load_init_fits assms(1)]
    by (auto simp: ini_fits_def load_fits_def load_final_def split: if_splits)
  moreover have "ini_val ?r = ini_val (CIniReader_new\<lparr>m_Map := load_final st'\<rparr>)"
    by (intro ext) (simp add: ini_val_def)
  ultimately show ?thesis by blast
qed

lemma Load_render:
  assumes "config_ok c" "fs p = Some (render c)"
  shows "\<exists>r'. Load fs p r = (Returned INI_SUCCESS, r') \<and> ini_fits r' \<and> ini_val r' = config_lookup c"
proof -
  obtain st' where "load_loop load_init (render c) = Some st'"
    and "load_final st' =
      load_final load_init ++ map_of (rev (map (\<lambda>(s, kvs). (s, map_of (rev kvs))) c))"
    using load_loop_render[OF assms(1), of load_init "[]"] by (auto simp: load_loop.simps)
  then show ?thesis
    using Load_of_loop[of "render c" st' fs p r] assms(2)
      ini_val_of_final[OF assms(1), of st' CIniReader_new] by auto
qed

text \<open>A line the reader takes for a header although it has a key and a value.\<close>

definition bracket_line :: "string \<Rightarrow> string \<Rightarrow> string \<Rightarrow> string \<Rightarrow> string" where
  "bracket_line k u x w = k @ CHR ''='' # u @ CHR ''['' # x @ CHR '']'' # w"

definition bracket_name :: "string \<Rightarrow> string \<Rightarrow> string \<Rightarrow> string \<Rightarrow> string" where
  "bracket_name k u x w = k @ CHR ''='' # u @ x @ w"

lemma string_erase1_mid: "string_erase1 (int (length a)) (a @ c # b) = Some (a @ b)"
  by (simp add: string_erase1_def)

lemma load_line_bracket:
  assumes "section_ok (bracket_name k u x w)"
  shows "load_line st (bracket_line k u x w @ [CHR 0x0A]) =
           Some \<lparr>szLastMainKey = bracket_name k u x w, mLastMap = Map.empty, lMap = load_final st\<rparr>"
proof -
  let ?l = "bracket_line k u x w" and ?a = "k @ CHR ''='' # u"
  have n: "CHR ''['' \<notin> set ?a" "CHR '']'' \<notin> set (?a @ CHR ''['' # x)" "no_eol ?l"
    using assms by (auto simp: section_ok_def bracket_name_def bracket_line_def no_eol_def NUL_def)
  have e: "strip_eol (?l @ [CHR 0x0A]) = ?l" using n(3) by (rule strip_eol_line)
  have l: "find_pos (CHR ''['') ?l = int (length ?a)"
    using find_pos_append[OF n(1), of "x @ CHR '']'' # w"] by (simp add: bracket_line_def)
  have r: "find_pos (CHR '']'') ?l = int (length ?a + Suc (length x))"
    using find_pos_append[OF n(2), of w] by (simp add: bracket_line_def)
  have s1: "string_erase1 (int (length ?a)) ?l = Some (?a @ x @ CHR '']'' # w)"
    using string_erase1_mid[of ?a "CHR ''[''" "x @ CHR '']'' # w"] by (simp add: bracket_line_def)
  have r1: "find_pos (CHR '']'') ?l - 1 = int (length (?a @ x))" using r by simp
  have s2: "string_erase1 (int (length (?a @ x))) (?a @ x @ CHR '']'' # w) =
      Some (bracket_name k u x w)"
    using string_erase1_mid[of "?a @ x" "CHR '']''" w] by (simp add: bracket_name_def)
  have mem: "CHR ''['' \<in> set ?l" "CHR '']'' \<in> set ?l" by (simp_all add: bracket_line_def)
  have "load_line st (?l @ [CHR 0x0A]) =
          (case string_erase1 (find_pos (CHR ''['') ?l) ?l of
             None \<Rightarrow> None
           | Some s1 \<Rightarrow>
               (case string_erase1 (find_pos (CHR '']'') ?l - 1) s1 of
                  None \<Rightarrow> None
                | Some s2 \<Rightarrow>
                    Some (st\<lparr>lMap := (lMap st)(szLastMainKey st \<mapsto> mLastMap st),
                             mLastMap := Map.empty, szLastMainKey := s2\<rparr>)))"
    using mem by (simp add: load_line_def Let_def e)
  then show ?thesis unfolding r1 l s1 by (simp add: s2[simplified] load_final_def)
qed

lemma load_line_None:
  "load_line st l = None \<longleftrightarrow> (\<exists>t. strip_eol l = CHR '']'' # t \<and> CHR ''['' \<in> set t)"
proof (cases "CHR ''['' \<in> set (strip_eol l) \<and> CHR '']'' \<in> set (strip_eol l)")
  case False
  then show ?thesis by (auto simp: load_line_def Let_def)
next
  case True
  let ?s = "strip_eol l"
  obtain n m where n: "find_char (CHR ''['') ?s = Some n" and m: "find_char (CHR '']'') ?s = Some m"
    using True by (meson find_char_None not_None_eq)
  have b: "n < length ?s" "m < length ?s" using n m by (auto dest: find_char_bound)
  have "load_line st l = None \<longleftrightarrow> m = 0"
    using True n m b
    by (auto simp: load_line_def Let_def find_pos_def string_erase1_def split: if_splits)
  also have "\<dots> \<longleftrightarrow> (\<exists>t. ?s = CHR '']'' # t \<and> CHR ''['' \<in> set t)"
    using m True by (cases ?s) (auto split: if_splits)
  finally show ?thesis .
qed

section \<open>Properties\<close>

text \<open>
  C15 (loading what was printed). For every configuration of lines \<open>Load\<close> accepts, loading
  its text succeeds and from then on \<open>GetStr\<close> answers every key with the value of its last
  line in the last section of that name, and with the empty string when there is none;
  the lookup itself changes no later answer. In particular a missing key gives the empty
  string, never the text \<open>NULL\<close> the comment above \<open>GetStr\<close> promises.
\<close>

theorem Load_render_GetStr:
  assumes "config_ok c" and "fs p = Some (render c)"
  shows "\<exists>r1 r2. Load fs p r = (Returned INI_SUCCESS, r1) \<and>
           GetStr m k r1 = (Returned (config_lookup c m k), r2) \<and> ini_val r2 = config_lookup c"
  using Load_render[of c fs p r] assms cfg.get_str_ok by metis

theorem Load_render_GetStr_witness:
  "\<exists>r1 r2. Load [''1.conf'' \<mapsto> render [(''system'', [(''daemon'', ''on''), (''listen'', ''9000'')])]]
             ''1.conf'' CIniReader_new = (Returned INI_SUCCESS, r1) \<and>
           GetStr ''system'' ''listen'' r1 = (Returned ''9000'', r2) \<and> ini_val r2 ''system'' ''x'' = []"
proof -
  let ?c = "[(''system'', [(''daemon'', ''on''), (''listen'', ''9000'')])]"
  have "config_ok ?c"
    by (simp add: config_ok_def section_ok_def key_line_ok_def key_line_def no_eol_def NUL_def
        CONFIGLEN_def)
  then show ?thesis
    using Load_render_GetStr[of ?c "[''1.conf'' \<mapsto> render ?c]" "''1.conf''" CIniReader_new
        "''system''" "''listen''"]
    by (fastforce simp: config_lookup_def)
qed

text \<open>
  C32 (no overrun of \<open>m_szKey\<close>). Whatever bytes a file holds, after \<open>Load\<close> every sequence of
  \<open>GetStr\<close> calls returns and every value fits the \<open>CONFIGLEN\<close> bytes of \<open>m_szKey\<close> with its
  terminator: the unchecked \<open>strcpy\<close> of \<open>GetKey\<close> relies on the line length \<open>fgets\<close> is given.
\<close>

theorem GetStr_never_overruns:
  assumes "Load fs p CIniReader_new = (Returned res, r)"
  shows "(\<exists>r'. forP (\<lambda>(m, k). bindP (GetStr m k) (\<lambda>_. ret ())) mks r = (Returned (), r')) \<and>
         (\<exists>v r'. GetStr m k r = (Returned v, r') \<and> length v < CONFIGLEN)"
proof -
  have r: "ini_fits r" using ini_fits_new assms by (rule Load_fits)
  show ?thesis using cfg.get_all_keys[OF r] cfg.get_str_ok[OF r] cfg.val_fits[OF r] by metis
qed

theorem GetStr_never_overruns_witness:
  "Load [''f'' \<mapsto> []] ''f'' CIniReader_new =
     (Returned INI_SUCCESS, \<lparr>m_fp = True, m_szKey = [], m_Map = [[] \<mapsto> Map.empty]\<rparr>) \<and>
   (\<exists>v r'. GetStr ''a'' ''b'' \<lparr>m_fp = True, m_szKey = [], m_Map = [[] \<mapsto> Map.empty]\<rparr> =
     (Returned v, r') \<and> length v < CONFIGLEN)"
proof -
  have l: "Load [''f'' \<mapsto> []] ''f'' CIniReader_new =
     (Returned INI_SUCCESS, \<lparr>m_fp = True, m_szKey = [], m_Map = [[] \<mapsto> Map.empty]\<rparr>)"
    by (simp add: Load_def load_loop.simps load_final_def load_init_def CIniReader_new_def)
  show ?thesis using l GetStr_never_overruns[OF l] by blast
qed

text \<open>The lines \<open>fgets\<close> delivers, and those \<open>Load\<close> cannot take.\<close>

function file_lines :: "string \<Rightarrow> string list" where
  "file_lines inp =
     (if inp = [] then [] else (case take_line (CONFIGLEN - 1) inp of (l, rest) \<Rightarrow> l # file_lines rest))"
  by pat_completeness auto

termination file_lines
  by (relation "measure length") (auto dest: take_line_less)

declare file_lines.simps [simp del]

definition bad_line :: "string \<Rightarrow> bool" where
  "bad_line l \<longleftrightarrow> (case strip_eol l of [] \<Rightarrow> False | c # t \<Rightarrow> c = CHR '']'' \<and> CHR ''['' \<in> set t)"

lemma bad_line_load: "load_line st l = None \<longleftrightarrow> bad_line l"
  by (auto simp: load_line_None bad_line_def split: list.split)

lemma load_loop_lines: "load_loop st inp = None \<longleftrightarrow> list_ex bad_line (file_lines inp)"
proof (induction st inp rule: load_loop.induct)
  case (1 st inp)
  show ?case
  proof (cases "inp = []")
    case False
    obtain l rest where l: "take_line (CONFIGLEN - 1) inp = (l, rest)" by fastforce
    have "load_loop st inp = (case load_line st l of None \<Rightarrow> None | Some st' \<Rightarrow> load_loop st' rest)"
      using False l by (subst load_loop.simps) simp
    moreover have "file_lines inp = l # file_lines rest" using False l by (subst file_lines.simps) simp
    moreover have "load_loop st' rest = None \<longleftrightarrow> list_ex bad_line (file_lines rest)" if "load_line st l = Some st'" for st'
      using 1[OF False l[symmetric] that] .
    ultimately show ?thesis using bad_line_load[of st l] by (cases "load_line st l") auto
  qed (simp add: load_loop_Nil file_lines.simps)
qed

lemma file_lines_parts: "concat (file_lines inp) = inp \<and> (\<forall>l\<in>set (file_lines inp). l \<noteq> [] \<and> length l < CONFIGLEN)"
proof (induction inp rule: file_lines.induct)
  case (1 inp)
  show ?case
  proof (cases "inp = []")
    case False
    obtain l rest where l: "take_line (CONFIGLEN - 1) inp = (l, rest)" by fastforce
    have "inp = l @ rest" "length l < CONFIGLEN" "l \<noteq> []"
      using take_line_append[OF l] take_line_length[OF l] take_line_less[OF False l[symmetric]] by (auto simp: CONFIGLEN_def)
    moreover have "file_lines inp = l # file_lines rest" using False l by (subst file_lines.simps) simp
    ultimately show ?thesis using 1[OF False l[symmetric]] by simp
  qed (simp add: file_lines.simps)
qed

text \<open>
  C30 (loading always ends). Whatever bytes a file holds, \<open>Load\<close> ends. The text is cut into pieces of fewer
  than \<open>CONFIGLEN\<close> bytes, none empty; if one of them, its line end and carriage return taken off, starts with
  a closing bracket and has an opening one later, the exception of \<open>erase\<close> ends the program, and
  otherwise \<open>Load\<close> succeeds, comments, garbage and over-long lines included.
\<close>

theorem Load_ends:
  assumes "fs p = Some inp"
  shows "concat (file_lines inp) = inp \<and> list_all (\<lambda>l. l \<noteq> [] \<and> length l < CONFIGLEN) (file_lines inp) \<and>
         fst (Load fs p r) = (if list_ex bad_line (file_lines inp) then Aborted else Returned INI_SUCCESS)"
  using assms load_loop_lines[of load_init inp] file_lines_parts[of inp]
  by (auto simp: Load_def list_all_iff split: option.split)

theorem Load_ends_witness:
  "fst (Load [''f'' \<mapsto> ''# x'' @ [CHR 0x0D, CHR 0x0A] @ ''a]b[c''] ''f'' CIniReader_new) = Returned INI_SUCCESS"
proof -
  let ?inp = "''# x'' @ [CHR 0x0D, CHR 0x0A] @ ''a]b[c''"
  have "\<not> list_ex bad_line (file_lines ?inp)" by code_simp
  with Load_ends[of "[''f'' \<mapsto> ?inp]" "''f''" ?inp CIniReader_new] show ?thesis by simp
qed

text \<open>
  The crash on a reversed bracket. A line that starts with a closing bracket and has an
  opening one later makes \<open>Load\<close> erase at position \<open>-1\<close>: the exception ends the program,
  whatever well-formed text precedes the line and whatever follows it.
\<close>

theorem Load_reversed_bracket_aborts:
  assumes "config_ok c" "no_eol x" "CHR ''['' \<in> set x" "length x + 1 < CONFIGLEN - 1"
    and "fs p = Some (render c @ CHR '']'' # x @ CHR 0x0A # rest)"
  shows "fst (Load fs p r) = Aborted"
proof -
  let ?l = "CHR '']'' # x"
  have l: "no_eol ?l" using assms(2) by (simp add: no_eol_def NUL_def)
  obtain st' where "load_loop load_init (render c @ ?l @ CHR 0x0A # rest) =
      load_loop st' (?l @ CHR 0x0A # rest)"
    using load_loop_render[OF assms(1)] by blast
  moreover have "load_line st' (?l @ [CHR 0x0A]) = None"
    using assms(3) strip_eol_line[OF l] by (simp add: load_line_None)
  ultimately have "load_loop load_init (render c @ ?l @ CHR 0x0A # rest) = None"
    using load_loop_line[OF l, of st' rest] assms(4) by simp
  then show ?thesis using assms(5) by (simp add: Load_def)
qed

theorem Load_reversed_bracket_aborts_witness:
  "fst (Load [''f'' \<mapsto> ''][ab'' @ [CHR 0x0A]] ''f'' CIniReader_new) = Aborted"
  using Load_reversed_bracket_aborts[of "[]" "''[ab''" "[''f'' \<mapsto> ''][ab'' @ [CHR 0x0A]]" "''f''"
      "[]" CIniReader_new]
  by (simp add: config_ok_def no_eol_def NUL_def CONFIGLEN_def render_def)

text \<open>
  A value in brackets is lost. A \<open>key=value\<close> line whose value holds a bracketed part,
  such as a \<open>mongodb://[::1]:27017\<close> address, is read as the header of a section named by the
  whole line without the brackets: the file loads exactly as the configuration in which
  that section replaces the line, so the key is missing from its section and the keys after
  it belong to the new one.
\<close>

theorem Load_bracket_value_lost:
  assumes "config_ok (c @ [(s, kvs0), (bracket_name k u x w, kvs)])"
    and "length (bracket_line k u x w) < CONFIGLEN - 1"
    and "fs p = Some (render (c @ [(s, kvs0)]) @ bracket_line k u x w @ CHR 0x0A # render_keys kvs)"
  shows "\<exists>r'. Load fs p r = (Returned INI_SUCCESS, r') \<and>
              ini_val r' = config_lookup (c @ [(s, kvs0), (bracket_name k u x w, kvs)])"
proof -
  let ?n = "bracket_name k u x w" and ?l = "bracket_line k u x w"
  let ?abs = "\<lambda>c. map_of (rev (map (\<lambda>(s, kvs). (s, map_of (rev kvs))) c)) :: MAINKEYMAP"
  have c0: "config_ok (c @ [(s, kvs0)])" and n: "section_ok ?n" and kvs: "list_all key_line_ok kvs"
    using assms(1) by (auto simp: config_ok_def)
  then have l: "no_eol ?l"
    by (auto simp: section_ok_def bracket_name_def bracket_line_def no_eol_def NUL_def)
  obtain st1 where 1: "load_loop load_init (render (c @ [(s, kvs0)]) @ ?l @ CHR 0x0A # render_keys kvs) =
        load_loop st1 (?l @ CHR 0x0A # render_keys kvs)"
    and f1: "load_final st1 = load_final load_init ++ ?abs (c @ [(s, kvs0)])"
    using load_loop_render[OF c0] by blast
  let ?st2 = "\<lparr>szLastMainKey = ?n, mLastMap = map_of (rev kvs), lMap = load_final st1\<rparr>"
  have "load_loop st1 (?l @ CHR 0x0A # render_keys kvs) = Some ?st2"
    using load_loop_keys[OF kvs, of _ "[]"]
    by (simp add: load_loop_line[OF l assms(2)] load_line_bracket[OF n] load_loop_Nil)
  with 1 have "load_loop load_init (render (c @ [(s, kvs0)]) @ ?l @ CHR 0x0A # render_keys kvs) =
      Some ?st2" by simp
  moreover have "load_final ?st2 = load_final load_init ++ ?abs (c @ [(s, kvs0), (?n, kvs)])"
    unfolding load_final_def[of ?st2] by (simp add: f1)
  ultimately show ?thesis
    using Load_of_loop[of _ ?st2 fs p r] assms(3)
      ini_val_of_final[OF assms(1), of ?st2 CIniReader_new] by auto
qed

theorem Load_bracket_value_lost_witness:
  "\<exists>r'. Load [''f'' \<mapsto> render [(''mongodb'', [])] @
                      bracket_line ''address'' ''mongodb://'' ''::1'' '':27017'' @ [CHR 0x0A]]
          ''f'' CIniReader_new = (Returned INI_SUCCESS, r') \<and> ini_val r' ''mongodb'' ''address'' = []"
proof -
  let ?c = "[] @ [(''mongodb'', []), (bracket_name ''address'' ''mongodb://'' ''::1'' '':27017'', [])]"
  have c: "config_ok ?c"
    by (simp add: config_ok_def section_ok_def no_eol_def NUL_def CONFIGLEN_def bracket_name_def)
  have "config_lookup ?c ''mongodb'' ''address'' = []"
    by (simp add: config_lookup_def bracket_name_def)
  moreover have "length (bracket_line ''address'' ''mongodb://'' ''::1'' '':27017'') < CONFIGLEN - 1"
    by (simp add: bracket_line_def CONFIGLEN_def)
  ultimately show ?thesis
    using Load_bracket_value_lost[OF c, where r = CIniReader_new and p = "''f''" and
        fs = "[''f'' \<mapsto> render ([] @ [(''mongodb'', [])]) @
                bracket_line ''address'' ''mongodb://'' ''::1'' '':27017'' @ CHR 0x0A # render_keys []]"]
    by (auto simp: render_keys_def)
qed

end
