(* ===== verification/PullMain.thy ===== *)
theory PullMain
  imports Registry PidFile IniReader
begin

text \<open>
  \<open>pull/src/main.cpp\<close> and the life of the REST server (\<open>init\<close>, \<open>run\<close>, \<open>shutdown\<close> of
  \<open>rest_api.cpp\<close>): from the configuration file to the event loop and its end.
\<close>

section \<open>The process\<close>

record 'db server =
  sv_world :: "'db world"
  sv_os :: os
  sv_ini :: CIniReader
  sv_app :: app_data
  sv_replies :: "http_reply option list"

definition on_world :: "('db world, 'a) prog \<Rightarrow> ('db server, 'a) prog" where
  "on_world = zoom sv_world (\<lambda>x s. s\<lparr>sv_world := x\<rparr>)"

definition on_ini :: "(CIniReader, 'a) prog \<Rightarrow> ('db server, 'a) prog" where
  "on_ini = zoom sv_ini (\<lambda>x s. s\<lparr>sv_ini := x\<rparr>)"

definition on_os :: "(os, 'a) prog \<Rightarrow> ('db server, 'a) prog" where
  "on_os = zoom sv_os (\<lambda>x s. s\<lparr>sv_os := x\<rparr>)"

section \<open>The REST server\<close>

text \<open>\<open>GetStr\<close> never returns \<open>NULL\<close>, so the check of \<open>address\<close> cannot fire and has no branch here.\<close>

definition CRestApi_init :: "('db, 'j) lib \<Rightarrow> string \<Rightarrow> ('db server, int) prog" where
  "CRestApi_init L host =
     bindP (on_ini (GetInt ''system'' ''listen'')) (\<lambda>port.
     bindP (modP (\<lambda>s. s\<lparr>sv_app := (sv_app s)\<lparr>ad_port := port\<rparr>\<rparr>)) (\<lambda>_.
     if port = 0 then stop_with (Exited 0)
     else
     bindP (modP (\<lambda>s. s\<lparr>sv_app := (sv_app s)\<lparr>ad_host := c_str host\<rparr>\<rparr>)) (\<lambda>_.
     bindP (on_ini (GetStr ''mongodb'' ''address'')) (\<lambda>address.
     bindP (on_world (bindP Instance (\<lambda>_. set_mongodb address))) (\<lambda>_.
     bindP (on_world (host_register L (c_str host) port)) (\<lambda>ok.
     if \<not> ok then stop_with (Exited 0) else ret 0))))))"

text \<open>A request to a path nobody registered is answered by the HTTP library itself.\<close>

definition serve_one :: "('db, 'j) lib \<Rightarrow> string \<times> string option \<Rightarrow> ('db server, unit) prog" where
  "serve_one L req =
     (case route L (fst req) of
        None \<Rightarrow> modP (\<lambda>s. s\<lparr>sv_replies := sv_replies s @ [None]\<rparr>)
      | Some h \<Rightarrow>
          bindP (getP sv_app) (\<lambda>data.
          bindP (on_world (h (Some data) (snd req))) (\<lambda>r.
          modP (\<lambda>s. s\<lparr>sv_replies := sv_replies s @ [Some r]\<rparr>))))"

text \<open>
  \<open>run\<close>, where \<open>evhttp_start\<close> gives a server when \<open>bind_ok\<close> holds of the port and the event
  loop dispatches the requests \<open>reqs\<close> until it is broken; this is the thread of the event loop without the threads
  beside it, with which \<open>Service\<close> interleaves it. The message for a port that cannot
  be bound passes the \<open>int\<close> for a \<open>%s\<close>, which is undefined.
\<close>

definition CRestApi_run :: "('db, 'j) lib \<Rightarrow> (int \<Rightarrow> bool) \<Rightarrow> (string \<times> string option) list \<Rightarrow> ('db server, int) prog" where
  "CRestApi_run L bind_ok reqs =
     bindP (getP sv_app) (\<lambda>data.
     if \<not> bind_ok (ad_port data) then stop_with Undefined
     else bindP (forP (serve_one L) reqs) (\<lambda>_. ret 0))"

definition CRestApi_shutdown :: "('db server, int) prog" where
  "CRestApi_shutdown = stop_with (Exited 0)"

section \<open>The program\<close>

definition MAX_PATH_LENGTH :: nat where "MAX_PATH_LENGTH = 256"
definition DEFAULT_CONF_PATH :: string where "DEFAULT_CONF_PATH = ''../conf/1.conf''"

definition sig_handler_terminal :: "('db, 'j) lib \<Rightarrow> ('db server, unit) prog" where
  "sig_handler_terminal L =
     bindP (on_world (bindP Instance (\<lambda>_. remove_host L))) (\<lambda>_. stop_with (Exited 0))"

text \<open>\<open>snprintf(path, MAX_PATH_LENGTH, "%s/%s", sbin_path, ...)\<close>.\<close>

definition beside :: "string \<Rightarrow> string \<Rightarrow> string" where
  "beside sbin_path p = snprintf MAX_PATH_LENGTH (sbin_path @ ''/'' @ p)"

text \<open>After a successful daemonisation the process has a new pid and leads a new group.\<close>

definition new_identity :: "('db server, unit) prog" where
  "new_identity = modP (\<lambda>s. s\<lparr>sv_world := (sv_world s)\<lparr>w_self := os_pid (sv_os s), w_pgid := os_session (sv_os s)\<rparr>\<rparr>)"

definition go_daemon :: "string \<Rightarrow> ('db server, unit) prog" where
  "go_daemon pid_path =
     bindP (on_os (daemon pid_path)) (\<lambda>(rv, tmp).
     if rv \<noteq> err ERROR_OK then stop_with (Exited 0) else new_identity)"

text \<open>\<open>main\<close> from the configured worker count on.\<close>

definition main_serve :: "('db, 'j) lib \<Rightarrow> (int \<Rightarrow> bool) \<Rightarrow> (string \<times> string option) list \<Rightarrow> string \<Rightarrow> string \<Rightarrow> int
    \<Rightarrow> ('db server, int) prog" where
  "main_serve L bind_ok reqs pid_path local_ip worker_num =
     bindP (on_world (bindP Instance (\<lambda>_. biz_init worker_num))) (\<lambda>_.
     bindP (CRestApi_init L local_ip) (\<lambda>_.
     bindP (on_world (bindP Instance (\<lambda>_. create_schedule_thread))) (\<lambda>_.
     bindP (CRestApi_run L bind_ok reqs) (\<lambda>_.
     bindP (on_os (sys_unlink pid_path)) (\<lambda>_. ret 0)))))"

definition pull_main :: "('db, 'j) lib \<Rightarrow> (int \<Rightarrow> bool) \<Rightarrow> (string \<times> string option) list \<Rightarrow> string \<Rightarrow> ('db server, int) prog" where
  "pull_main L bind_ok reqs argv0 =
     (case get_cur_path argv0 (zero_buf MAX_PATH_LENGTH) (int MAX_PATH_LENGTH) of
        None \<Rightarrow> stop_with Undefined
      | Some (_, buf) \<Rightarrow>
          (let sbin_path = c_str buf;
               conf_path = beside sbin_path DEFAULT_CONF_PATH;
               pid_path = beside sbin_path ''../log/pid'' in
           bindP (getP (\<lambda>s. os_files (sv_os s))) (\<lambda>fs.
           bindP (on_ini (Load fs conf_path)) (\<lambda>_.
           bindP (on_ini (GetStr ''system'' ''daemon'')) (\<lambda>dae.
           bindP (if dae = ''on'' then go_daemon pid_path else ret ()) (\<lambda>_.
           bindP (on_ini (GetStr ''system'' ''net_type'')) (\<lambda>net_type.
           bindP (on_os (get_local_ip net_type [])) (\<lambda>(_, local_ip).
           bindP (on_ini (GetInt ''system'' ''worker'')) (\<lambda>worker_num.
           if worker_num = 0 then stop_with (Exited 0)
           else main_serve L bind_ok reqs pid_path local_ip worker_num)))))))))"

section \<open>Facts about the parts\<close>

lemma on_world_eq: "m (sv_world s) = (r, w') \<Longrightarrow> on_world m s = (r, s\<lparr>sv_world := w'\<rparr>)"
  by (simp add: on_world_def zoom_def)

lemma on_ini_eq: "m (sv_ini s) = (r, i') \<Longrightarrow> on_ini m s = (r, s\<lparr>sv_ini := i'\<rparr>)"
  by (simp add: on_ini_def zoom_def)

text \<open>What \<open>init\<close> does once the port and the address have been read.\<close>

lemma CRestApi_init_eq:
  assumes "ini_fits (sv_ini s)" "atoi (ini_val (sv_ini s) ''system'' ''listen'') = Some port" "port \<noteq> 0"
    and "host_register L (c_str host) port
          ((sv_world s)\<lparr>w_instance := True, w_db_address := c_str (ini_val (sv_ini s) ''mongodb'' ''address'')\<rparr>) = (Returned ok, w')"
  shows "\<exists>t. CRestApi_init L host s = (if ok then Returned 0 else Exited 0, t) \<and> sv_world t = w' \<and> sv_os t = sv_os s \<and>
           sv_app t = \<lparr>ad_host = c_str host, ad_port = port\<rparr> \<and> sv_replies t = sv_replies s"
proof -
  obtain i1 where i1: "GetInt ''system'' ''listen'' (sv_ini s) = (Returned port, i1)" "ini_fits i1"
    "ini_val i1 = ini_val (sv_ini s)"
    using GetInt_eq[OF assms(1), of "''system''" "''listen''"] assms(2) by auto
  obtain i2 where i2: "GetStr ''mongodb'' ''address'' i1 = (Returned (ini_val (sv_ini s) ''mongodb'' ''address''), i2)"
    using cfg.get_str_ok[OF i1(2), of "''mongodb''" "''address''"] i1(3) by auto
  have inst: "bindP Instance (\<lambda>_. set_mongodb a) w = (Returned (), w\<lparr>w_instance := True, w_db_address := c_str a\<rparr>)"
    for a and w :: "'a world"
    by (cases "w_instance w") (simp_all add: Instance_def set_mongodb_def modP_def bindP_def)
  have app: "sv_app s\<lparr>ad_port := port, ad_host := c_str host\<rparr> = \<lparr>ad_host = c_str host, ad_port = port\<rparr>"
    by (cases "sv_app s") simp
  show ?thesis
    using assms(3,4) i1(1) i2
    by (simp add: CRestApi_init_def bindP_def modP_def on_ini_def on_world_def zoom_def inst[unfolded bindP_def]
        app stop_with_def ret_def)
qed

section \<open>Start and stop\<close>

text \<open>The world in which the host registers: connected to the configured database.\<close>

definition configured :: "'db server \<Rightarrow> 'db world" where
  "configured s = (sv_world s)\<lparr>w_instance := True, w_db_address := c_str (ini_val (sv_ini s) ''mongodb'' ''address'')\<rparr>"

text \<open>
  A second server on the host does not start. With a usable configuration and a record of
  the host's address in the registry, \<open>init\<close> ends the process with status 0 before a request is
  served, and no document of the database has changed.
\<close>

theorem second_server_exits:
  assumes "lib_laws L docs" "ini_fits (sv_ini s)"
    and "atoi (ini_val (sv_ini s) ''system'' ''listen'') = Some port" "port \<noteq> 0"
    and "hosts_up L (configured s)" "host_docs docs (configured s) (c_str host) \<noteq> {#}"
  shows "\<exists>t. CRestApi_init L host s = (Exited 0, t) \<and> docs (w_db (sv_world t)) = docs (w_db (sv_world s)) \<and>
           sv_replies t = sv_replies s"
proof -
  have h: "host_register L (c_str host) port (configured s) =
      (Returned False, (configured s)\<lparr>w_cursors := w_cursors (configured s) + 1\<rparr>)"
    using host_register_taken[OF assms(1,5)] assms(6) by simp
  from CRestApi_init_eq[OF assms(2-4) h[unfolded configured_def]]
  show ?thesis by (auto simp: configured_def)
qed

text \<open>A server process with the configuration file \<open>conf\<close>, before \<open>main\<close>.\<close>

definition mem_server :: "mem_db \<Rightarrow> string \<Rightarrow> mem_db server" where
  "mem_server d conf =
     \<lparr>sv_world = (mem_world 0 d)\<lparr>w_instance := False, w_db_address := [], w_host := [], w_port := 0\<rparr>,
      sv_os = plain_os [''/opt/sbin/../conf/1.conf'' \<mapsto> conf] Map.empty, sv_ini = CIniReader_new,
      sv_app = \<lparr>ad_host = [], ad_port = 0\<rparr>, sv_replies = []\<rparr>"

definition mem_conf :: string where
  "mem_conf = ''[system]'' @ [CHR 0x0A] @ ''listen=80'' @ [CHR 0x0A] @ ''net_type=eth0'' @ [CHR 0x0A] @
     ''worker=2'' @ [CHR 0x0A] @ ''[mongodb]'' @ [CHR 0x0A] @ ''address=mongodb://a'' @ [CHR 0x0A]"

definition mem_loaded :: "mem_db \<Rightarrow> mem_db server" where
  "mem_loaded d = snd (on_ini (Load (os_files (sv_os (mem_server d mem_conf))) ''/opt/sbin/../conf/1.conf'') (mem_server d mem_conf))"

lemma mem_loaded_vals:
  "ini_val (sv_ini (mem_loaded d)) ''system'' ''listen'' = ''80''"
  "ini_val (sv_ini (mem_loaded d)) ''mongodb'' ''address'' = ''mongodb://a''"
proof -
  have "load_loop load_init mem_conf \<noteq> None \<and>
     (case load_final (the (load_loop load_init mem_conf)) ''system'' of None \<Rightarrow> [] | Some km \<Rightarrow> (case km ''listen'' of None \<Rightarrow> [] | Some v \<Rightarrow> c_str v)) = ''80'' \<and>
     (case load_final (the (load_loop load_init mem_conf)) ''mongodb'' of None \<Rightarrow> [] | Some km \<Rightarrow> (case km ''address'' of None \<Rightarrow> [] | Some v \<Rightarrow> c_str v)) = ''mongodb://a''"
    by code_simp
  then show "ini_val (sv_ini (mem_loaded d)) ''system'' ''listen'' = ''80''"
    "ini_val (sv_ini (mem_loaded d)) ''mongodb'' ''address'' = ''mongodb://a''"
    by (auto simp: mem_loaded_def mem_server_def on_ini_def zoom_def Load_def plain_os_def ini_val_def)
qed

lemma mem_loaded_fits: "ini_fits (sv_ini (mem_loaded d))"
proof -
  obtain res i where l: "Load (os_files (sv_os (mem_server d mem_conf))) ''/opt/sbin/../conf/1.conf'' CIniReader_new = (res, i)"
    by fastforce
  then have "ini_fits i" by (rule Load_fits[OF ini_fits_new])
  with l show ?thesis by (simp add: mem_loaded_def on_ini_def zoom_def mem_server_def)
qed

lemma mem_loaded_world: "sv_world (mem_loaded d) = sv_world (mem_server d mem_conf)"
  by (simp add: mem_loaded_def on_ini_def zoom_def split: prod.split)

definition mem_host_entry :: "coll \<times> bson" where
  "mem_host_entry = ((''mongodb://a'', MONGODB_DATABASE, MONGODB_COLLECTION_HOSTINFO),
     [(''host'', Utf8 ''10.0.0.7''), (''port'', Int32 80)])"

lemma mem_configured:
  "configured (mem_loaded d) = (mem_world 0 d)\<lparr>w_host := [], w_port := 0\<rparr>"
  by (simp add: configured_def mem_loaded_vals mem_loaded_world mem_server_def mem_world_def c_str_def NUL_def)

lemma mem_configured_up: "hosts_up mem_lib (configured (mem_loaded d))"
  unfolding mem_configured using mem_world_up(2)[of 0 d] by (simp add: hosts_up_def)

lemma mem_configured_docs:
  "host_docs mem_docs (configured (mem_loaded [mem_host_entry])) ''10.0.0.7'' \<noteq> {#}"
  unfolding mem_configured
  by (simp add: host_docs_def host_coll_def mem_world_def mem_host_entry_def has_field_def c_str_def NUL_def)

theorem second_server_exits_witness:
  "\<exists>t. CRestApi_init mem_lib ''10.0.0.7'' (mem_loaded [mem_host_entry]) = (Exited 0, t) \<and>
       mem_docs (w_db (sv_world t)) = mem_docs [mem_host_entry] \<and> sv_replies t = []"
proof -
  let ?s = "mem_loaded [mem_host_entry]"
  have a: "atoi (ini_val (sv_ini ?s) ''system'' ''listen'') = Some 80"
    unfolding mem_loaded_vals by code_simp
  have h: "host_docs mem_docs (configured ?s) (c_str ''10.0.0.7'') \<noteq> {#}"
    using mem_configured_docs by (simp add: c_str_def NUL_def)
  have "sv_replies ?s = []" by (simp add: mem_loaded_def on_ini_def zoom_def mem_server_def split: prod.split)
  then show ?thesis
    using second_server_exits[OF mem_lib_laws mem_loaded_fits a _ mem_configured_up h]
    by (simp add: mem_loaded_world mem_server_def mem_world_def)
qed

lemma early_signal_aborts:
  assumes "l_asserts L" "\<not> l_client_new L []" "w_db_address (sv_world s) = []"
  shows "fst (sig_handler_terminal L s) = Aborted"
  using assms
  by (simp add: sig_handler_terminal_def on_world_def zoom_def bindP_def Instance_def modP_def remove_host_def
      getP_def remove_one_def with_collection_def connect_def assert_then_def stop_with_def ret_def)




definition mem_registered :: "mem_db server" where
  "mem_registered = (mem_server [mem_host_entry] mem_conf)
     \<lparr>sv_world := (mem_world 2 [mem_host_entry])\<lparr>w_host := ''10.0.0.7''\<rparr>\<rparr>"


section \<open>Serving requests\<close>

lemma serve_one_answers:
  assumes "pool_ready (sv_world s)" "fst req \<noteq> ''/health/live''"
  shows "\<exists>r w'. serve_one L req s = (Returned (), s\<lparr>sv_world := w', sv_replies := sv_replies s @ [r]\<rparr>) \<and>
           pool_ready w' \<and> (w' = sv_world s \<or> (\<exists>ev. w' = enqueue ev (sv_world s)))"
proof (cases "route L (fst req)")
  case None
  then have "serve_one L req s = (Returned (), s\<lparr>sv_world := sv_world s, sv_replies := sv_replies s @ [None]\<rparr>)"
    by (simp add: serve_one_def modP_def)
  with assms(1) show ?thesis by blast
next
  case (Some h)
  have "\<exists>rep w'. h (Some (sv_app s)) (snd req) (sv_world s) = (Returned rep, w') \<and>
      (w' = sv_world s \<or> (\<exists>ev. w' = enqueue ev (sv_world s)))"
    using Some assms(2)
  proof (cases rule: route_cases)
    case 1
    then show ?thesis
      using start_answers[OF assms(1), of "snd req" L "sv_app s"]
      by (cases "start L (Some (sv_app s)) (snd req) (sv_world s)") (auto simp: answers_def)
  next
    case 2
    then show ?thesis
      using stop_answers[OF assms(1), of "snd req" L "sv_app s"]
      by (cases "stop L (Some (sv_app s)) (snd req) (sv_world s)") (auto simp: answers_def)
  next
    case 3
    then show ?thesis
      using start_i_answers[OF assms(1), of "snd req" L "sv_app s"]
      by (cases "start_i L (Some (sv_app s)) (snd req) (sv_world s)") (auto simp: answers_def)
  next
    case 4
    then show ?thesis
      using stop_i_answers[OF assms(1), of "snd req" L "sv_app s"]
      by (cases "stop_i L (Some (sv_app s)) (snd req) (sv_world s)") (auto simp: answers_def)
  qed
  then obtain rep w' where h: "h (Some (sv_app s)) (snd req) (sv_world s) = (Returned rep, w')"
    "w' = sv_world s \<or> (\<exists>ev. w' = enqueue ev (sv_world s))" by blast
  have "serve_one L req s = (Returned (), s\<lparr>sv_world := w', sv_replies := sv_replies s @ [Some rep]\<rparr>)"
    using Some h(1) by (simp add: serve_one_def on_world_def zoom_def bindP_def getP_def modP_def)
  moreover have "pool_ready w'" using h(2) assms(1) pool_ready_enqueue by blast
  ultimately show ?thesis using h(2) by blast
qed

text \<open>
  The event loop alone. While no other thread moves, the server bound to its port, with its pool ready, answers
  each of a sequence of requests, as long as none of them is for \<open>/health/live\<close>; the first request for that path
  ends in undefined behaviour. The other threads are beside it in \<open>Service\<close>.
\<close>

theorem run_answers_all:
  assumes "pool_ready (sv_world s)" "bind_ok (ad_port (sv_app s))"
  shows "if \<forall>req\<in>set reqs. fst req \<noteq> ''/health/live''
         then \<exists>t. CRestApi_run L bind_ok reqs s = (Returned 0, t) \<and>
                  length (sv_replies t) = length (sv_replies s) + length reqs \<and> pool_ready (sv_world t)
         else fst (CRestApi_run L bind_ok reqs s) = Undefined"
proof -
  have "if \<forall>req\<in>set reqs. fst req \<noteq> ''/health/live''
        then \<exists>t. forP (serve_one L) reqs s = (Returned (), t) \<and>
                 length (sv_replies t) = length (sv_replies s) + length reqs \<and> pool_ready (sv_world t)
        else fst (forP (serve_one L) reqs s) = Undefined"
    using assms(1)
  proof (induction reqs arbitrary: s)
    case (Cons req reqs)
    show ?case
    proof (cases "fst req = ''/health/live''")
      case True
      then have "serve_one L req s = (Undefined, s)"
        by (simp add: serve_one_def route_def check_alive_i_def send_reply_def on_world_def zoom_def stop_with_def
            bindP_def getP_def)
      with True show ?thesis by (simp add: bindP_def)
    next
      case False
      obtain r w' where r: "serve_one L req s = (Returned (), s\<lparr>sv_world := w', sv_replies := sv_replies s @ [r]\<rparr>)"
        "pool_ready w'"
        using serve_one_answers[OF Cons.prems False] by blast
      show ?thesis
        using Cons.IH[of "s\<lparr>sv_world := w', sv_replies := sv_replies s @ [r]\<rparr>"] r(2) False
        by (auto simp: bindP_Returned[where m = "serve_one _ _", OF r(1)] split: if_splits)
    qed
  qed simp
  moreover have "CRestApi_run L bind_ok reqs s = bindP (forP (serve_one L) reqs) (\<lambda>_. ret 0) s"
    using assms(2) by (simp add: CRestApi_run_def)
  ultimately show ?thesis
    by (cases "\<forall>req\<in>set reqs. fst req \<noteq> ''/health/live''"; cases "forP (serve_one L) reqs s")
      (simp_all only: if_True if_False, auto simp: bindP_def ret_def)
qed

theorem run_answers_all_witness:
  "\<exists>t. CRestApi_run mem_lib (\<lambda>p. True) [(''/pull/inject/start'', None), (''/nothing'', None)] mem_registered = (Returned 0, t) \<and>
       length (sv_replies t) = 2"
proof -
  have "pool_ready (sv_world mem_registered)"
    using pool_ready_mem_world[of 2 "[mem_host_entry]"] by (simp add: mem_registered_def pool_ready_def)
  from run_answers_all[OF this, of "\<lambda>p. True" "[(''/pull/inject/start'', None), (''/nothing'', None)]" mem_lib]
  show ?thesis by (auto simp: mem_registered_def mem_server_def)
qed

lemma atoi_Nil: "atoi [] = Some 0"
  by (simp add: atoi_def atoi_value_def int_range_def INT_MIN_def INT_MAX_def)

lemma on_ini_GetStr:
  "ini_fits (sv_ini s) \<Longrightarrow>
   \<exists>i. on_ini (GetStr m k) s = (Returned (ini_val (sv_ini s) m k), s\<lparr>sv_ini := i\<rparr>) \<and> ini_fits i \<and>
       ini_val i = ini_val (sv_ini s)"
  using cfg.get_str_ok[of "sv_ini s" m k] by (auto simp: on_ini_def zoom_def)

text \<open>
  No configuration, no server. Started as \<open>p/q\<close> with no file at the default place beside
  \<open>p\<close>, the program exits with status 0 at the check of the worker count: it has not become a
  daemon, started a thread or touched the database.
\<close>

theorem main_needs_configuration:
  assumes "NUL \<notin> set p" "NUL \<notin> set q" "CHR ''/'' \<notin> set q" "length p < 256"
    and "os_files (sv_os s) (beside p DEFAULT_CONF_PATH) = None" "sv_ini s = CIniReader_new"
  shows "\<exists>t. pull_main L bind_ok reqs (p @ CHR ''/'' # q) s = (Exited 0, t) \<and> sv_world t = sv_world s \<and>
           os_pid (sv_os t) = os_pid (sv_os s)"
proof -
  have "slash_loop (p @ CHR ''/'' # q) 0 None = Some (length p)"
    using assms(3) by (intro slash_loop_last) simp_all
  moreover have "c_str (p @ CHR ''/'' # q) = p @ CHR ''/'' # q"
    using assms(1,2) by (intro c_str_id) (auto simp: NUL_def)
  moreover obtain k where k: "256 - length p = Suc k" using assms(4) by (cases "256 - length p") auto
  ultimately have g: "get_cur_path (p @ CHR ''/'' # q) (zero_buf MAX_PATH_LENGTH) (int MAX_PATH_LENGTH) =
      Some (0, p @ replicate (Suc k) NUL)"
    using assms(4) by (simp add: get_cur_path_def strncpy_def MAX_PATH_LENGTH_def zero_buf_def del: replicate_Suc)
  have sb: "c_str (p @ replicate (Suc k) NUL) = p" using assms(1) by (simp add: c_str_append_nul)
  let ?i0 = "CIniReader_new\<lparr>m_fp := False\<rparr>"
  have i0: "ini_fits ?i0" "ini_val ?i0 = (\<lambda>m k. [])"
    by (auto simp: ini_fits_def CIniReader_new_def ini_val_def fun_eq_iff)
  let ?s0 = "s\<lparr>sv_ini := ?i0\<rparr>"
  have ld: "on_ini (Load (os_files (sv_os s)) (beside p DEFAULT_CONF_PATH)) s = (Returned INI_OPENFILE_ERROR, ?s0)"
    using assms(5,6) by (simp add: on_ini_def zoom_def Load_def)
  obtain i1 where i1: "on_ini (GetStr ''system'' ''daemon'') ?s0 = (Returned [], ?s0\<lparr>sv_ini := i1\<rparr>)"
    "ini_fits i1" "ini_val i1 = (\<lambda>m k. [])"
    using on_ini_GetStr[of ?s0 "''system''" "''daemon''"] i0 by auto
  obtain i2 where i2: "on_ini (GetStr ''system'' ''net_type'') (?s0\<lparr>sv_ini := i1\<rparr>) = (Returned [], ?s0\<lparr>sv_ini := i2\<rparr>)"
    "ini_fits i2" "ini_val i2 = (\<lambda>m k. [])"
    using on_ini_GetStr[of "?s0\<lparr>sv_ini := i1\<rparr>" "''system''" "''net_type''"] i1 by auto
  obtain rv ip where ip: "get_local_ip [] [] (sv_os s) = (Returned (rv, ip), sv_os s)"
    by (cases "os_socket_ok (sv_os s)"; cases "os_ifaddr (sv_os s) []")
      (auto simp: get_local_ip_def getP_def bindP_def ret_def)
  obtain i3 where i3: "GetInt ''system'' ''worker'' i2 = (Returned 0, i3)"
    using GetInt_eq[OF i2(2), of "''system''" "''worker''"] i2(3) by (auto simp: atoi_Nil)
  have os: "on_os (get_local_ip [] []) (?s0\<lparr>sv_ini := i2\<rparr>) = (Returned (rv, ip), ?s0\<lparr>sv_ini := i2\<rparr>)"
    using ip by (simp add: on_os_def zoom_def)
  have wk: "on_ini (GetInt ''system'' ''worker'') (?s0\<lparr>sv_ini := i2\<rparr>) = (Returned 0, ?s0\<lparr>sv_ini := i3\<rparr>)"
    using i3 by (simp add: on_ini_def zoom_def)
  have "pull_main L bind_ok reqs (p @ CHR ''/'' # q) s = (Exited 0, ?s0\<lparr>sv_ini := i3\<rparr>)"
    unfolding pull_main_def g option.case prod.case sb Let_def
    by (simp add: bindP_Returned[where m = "on_ini (Load _ _)", OF ld] bindP_Returned[where m = "on_ini (GetStr _ ''daemon'')", OF i1(1)]
        bindP_Returned[where m = "on_ini (GetStr _ ''net_type'')", OF i2(1)[simplified]] bindP_Returned[where m = "on_os _", OF os[simplified]]
        bindP_Returned[where m = "on_ini (GetInt _ _)", OF wk[simplified]] stop_with_def)
  then show ?thesis by auto
qed

theorem main_needs_configuration_witness:
  "\<exists>t. pull_main mem_lib (\<lambda>p. True) [] ''/srv/pull'' (mem_server [] mem_conf) = (Exited 0, t) \<and>
       sv_world t = sv_world (mem_server [] mem_conf)"
proof -
  have "os_files (sv_os (mem_server [] mem_conf)) (beside ''/srv'' DEFAULT_CONF_PATH) = None"
    by (simp add: mem_server_def plain_os_def beside_def snprintf_def MAX_PATH_LENGTH_def DEFAULT_CONF_PATH_def)
  from main_needs_configuration[OF _ _ _ _ this, of "''pull''" mem_lib "\<lambda>p. True" "[]"] show ?thesis
    by (auto simp: mem_server_def NUL_def)
qed

end
