(* ===== verification/Service.thy ===== *)
theory Service
  imports Server PullMain
begin

text \<open>
  The process while it serves: the event loop of \<open>CRestApi::run\<close>, one callback at a time, beside the threads of
  \<open>biz_init\<close> and \<open>create_schedule_thread\<close>, which share its world and can end it. A call of any thread that does not
  return (a failed \<open>assert\<close>, undefined behaviour) ends the process for all of them.
\<close>

section \<open>The process and its threads\<close>

text \<open>The server with the phases of its workers, the requests it was sent so far, and whether it still runs.\<close>

record 'db service =
  se_server :: "'db server"
  se_phase :: "phase list"
  se_asked :: "(string \<times> string option) list"
  se_up :: bool

abbreviation se_world :: "'db service \<Rightarrow> 'db world" where
  "se_world s \<equiv> sv_world (se_server s)"

definition put_world :: "'db world \<Rightarrow> 'db service \<Rightarrow> 'db service" where
  "put_world w s = s\<lparr>se_server := (se_server s)\<lparr>sv_world := w\<rparr>\<rparr>"

text \<open>The next call of worker \<open>i\<close>, the one that \<open>worker_move\<close> makes if it returns, does not return.\<close>

definition worker_fails :: "('db, 'j) lib \<Rightarrow> nat \<Rightarrow> 'db world \<Rightarrow> phase list \<Rightarrow> bool" where
  "worker_fails L i w ph \<longleftrightarrow>
     i < length (w_workers w) \<and>
     (case ph ! i of
        Checked p \<Rightarrow> \<not> returns (spawn_fork L p w)
      | Between \<Rightarrow>
          (case wc_queue (w_workers w ! i) of
             [] \<Rightarrow> False
           | ev # q \<Rightarrow>
               if ev_type ev = EV_CREATE_PROCESS \<and> fn_spawn (w_workers w ! i) = SpawnProcess
               then \<not> returns (spawn_check L (ev_process ev) w)
               else \<not> returns (worker_step L i w)))"

inductive service_step :: "('db, 'j) lib \<Rightarrow> 'db service \<Rightarrow> 'db service \<Rightarrow> bool" for L where
  request:
  "se_up s \<Longrightarrow> serve_one L req (se_server s) = (r, v) \<Longrightarrow>
   service_step L s (s\<lparr>se_server := v, se_asked := se_asked s @ [req], se_up := (r = Returned ())\<rparr>)"
| works:
  "se_up s \<Longrightarrow> worker_move L i (se_world s, se_phase s) (w, ph) \<Longrightarrow>
   service_step L s ((put_world w s)\<lparr>se_phase := ph\<rparr>)"
| worker_ends: "se_up s \<Longrightarrow> worker_fails L i (se_world s) (se_phase s) \<Longrightarrow> service_step L s (s\<lparr>se_up := False\<rparr>)"
| looks:
  "se_up s \<Longrightarrow> pi_pid p = Some n \<Longrightarrow> 0 < n \<Longrightarrow> detect_one L p (se_world s) = (r, w) \<Longrightarrow>
   service_step L s ((put_world w s)\<lparr>se_up := (r = Returned ())\<rparr>)"
| ends: "se_up s \<Longrightarrow> service_step L s (put_world (child_exits pid (se_world s)) s)"

text \<open>What \<open>CRestApi_run\<close> does with a list of requests is a run in which no other thread moves.\<close>

lemma event_loop_steps:
  assumes "se_up s" "forP (serve_one L) reqs (se_server s) = (Returned (), v)"
  shows "(service_step L)\<^sup>*\<^sup>* s (s\<lparr>se_server := v, se_asked := se_asked s @ reqs\<rparr>)"
  using assms
proof (induction reqs arbitrary: s)
  case (Cons req reqs)
  from Cons.prems(2) obtain u where u: "serve_one L req (se_server s) = (Returned (), u)" "forP (serve_one L) reqs u = (Returned (), v)"
    by (auto simp: bindP_eq_Returned)
  let ?s = "s\<lparr>se_server := u, se_asked := se_asked s @ [req]\<rparr>"
  have "service_step L s (?s\<lparr>se_up := (Returned () = Returned ())\<rparr>)" using service_step.request[OF Cons.prems(1) u(1)] by simp
  then have "service_step L s ?s" using Cons.prems(1) by (cases s) simp
  moreover have "(service_step L)\<^sup>*\<^sup>* ?s (?s\<lparr>se_server := v, se_asked := se_asked ?s @ reqs\<rparr>)"
    by (rule Cons.IH) (use Cons.prems(1) u(2) in simp_all)
  ultimately show ?case by (simp add: converse_rtranclp_into_rtranclp)
next
  case Nil
  then show ?case by (cases s) auto
qed

text \<open>The process as a state of the running server, with the two histories of \<open>Server\<close>.\<close>

definition srv_of :: "'db service \<Rightarrow> rec_event list list \<Rightarrow> rec_event list list \<Rightarrow> 'db srv" where
  "srv_of s hs ds = \<lparr>sr_world = se_world s, sr_phase = se_phase s, sr_sent = hs, sr_done = ds\<rparr>"

lemma srv_of_sel [simp]:
  "sr_world (srv_of s hs ds) = se_world s" "sr_phase (srv_of s hs ds) = se_phase s"
  "sr_sent (srv_of s hs ds) = hs" "sr_done (srv_of s hs ds) = ds"
  "(srv_of s hs ds)\<lparr>sr_world := w\<rparr> = srv_of (put_world w s) hs ds"
  "(srv_of s hs ds)\<lparr>sr_phase := ph\<rparr> = srv_of (s\<lparr>se_phase := ph\<rparr>) hs ds"
  "(srv_of s hs ds)\<lparr>sr_sent := hs'\<rparr> = srv_of s hs' ds" "(srv_of s hs ds)\<lparr>sr_done := ds'\<rparr> = srv_of s hs ds'"
  by (simp_all add: srv_of_def put_world_def)

lemma put_world_sel [simp]:
  "sv_app (se_server (put_world w s)) = sv_app (se_server s)" "sv_replies (se_server (put_world w s)) = sv_replies (se_server s)"
  "se_world (put_world w s) = w" "se_phase (put_world w s) = se_phase s" "se_asked (put_world w s) = se_asked s"
  "se_up (put_world w s) = se_up s"
  by (simp_all add: put_world_def)

text \<open>A process that has bound its port and has not been sent a request.\<close>

definition service_started :: "('db, 'j) lib \<Rightarrow> ('db \<Rightarrow> coll \<Rightarrow> bson multiset) \<Rightarrow> 'db service \<Rightarrow> bool" where
  "service_started L docs s \<longleftrightarrow>
     se_up s \<and> se_asked s = [] \<and> sv_replies (se_server s) = [] \<and>
     (let idle = replicate (length (w_workers (se_world s))) [] in server_started L docs (srv_of s idle idle))"

section \<open>What it promises\<close>

text \<open>A body posted to a path asks for an event.\<close>

definition wants :: "('db, 'j) lib \<Rightarrow> string \<Rightarrow> string \<times> string option \<Rightarrow> rec_event \<Rightarrow> bool" where
  "wants L host req ev \<longleftrightarrow> (\<exists>b. snd req = Some b \<and> asks L (fst req) host b ev)"

text \<open>The reply a request gets, which does not depend on the state.\<close>

definition right_reply :: "('db, 'j) lib \<Rightarrow> string \<Rightarrow> string \<times> string option \<Rightarrow> http_reply option \<Rightarrow> bool" where
  "right_reply L host req rep \<longleftrightarrow>
     (case rep of
        None \<Rightarrow> route L (fst req) = None
      | Some r \<Rightarrow> route L (fst req) \<noteq> None \<and>
          (if \<exists>ev. wants L host req ev then hr_code r = 200 else hr_code r \<in> {400, 403}))"

text \<open>The requests that do not end the process: one for the health check does, and one that has an event queued
  for which the \<open>switch\<close> of a worker has only its \<open>assert\<close>.\<close>

definition handles :: "('db, 'j) lib \<Rightarrow> rec_event \<Rightarrow> bool" where
  "handles L ev \<longleftrightarrow> l_asserts L \<longrightarrow> ev_type ev \<noteq> EV_TERMINATE_PROCESS"

definition harmless :: "('db, 'j) lib \<Rightarrow> string \<Rightarrow> string \<times> string option \<Rightarrow> bool" where
  "harmless L host req \<longleftrightarrow> fst req \<noteq> ''/health/live'' \<and> (\<forall>ev. wants L host req ev \<longrightarrow> handles L ev)"

lemma health_undefined: "serve_one L (''/health/live'', body) v = (Undefined, v)"
  by (simp add: serve_one_def route_def check_alive_i_def send_reply_def on_world_def zoom_def stop_with_def bindP_def getP_def)

lemma request_answered:
  assumes "pool_ready (sv_world v)" "fst req \<noteq> ''/health/live''"
  obtains rep w where "serve_one L req v = (Returned (), v\<lparr>sv_world := w, sv_replies := sv_replies v @ [rep]\<rparr>)"
    and "right_reply L (ad_host (sv_app v)) req rep"
    and "w = sv_world v \<or> (\<exists>ev. wants L (ad_host (sv_app v)) req ev \<and> w = enqueue ev (sv_world v))"
proof (cases "route L (fst req)")
  case None
  then show thesis
    by (intro that[of None "sv_world v"]) (simp_all add: serve_one_def modP_def right_reply_def)
next
  case (Some h)
  have "answers (sv_world v) (wants L (ad_host (sv_app v)) req) (h (Some (sv_app v)) (snd req) (sv_world v))"
    unfolding wants_def by (rule callback_answers[OF Some assms(2,1)])
  then obtain r w where h: "h (Some (sv_app v)) (snd req) (sv_world v) = (Returned r, w)"
    and a: "(\<exists>ev. wants L (ad_host (sv_app v)) req ev \<and> hr_code r = 200 \<and> w = enqueue ev (sv_world v)) \<or>
         (\<forall>ev. \<not> wants L (ad_host (sv_app v)) req ev) \<and> (hr_code r = 400 \<or> hr_code r = 403) \<and> w = sv_world v"
    unfolding answers_def by (metis prod.collapse)
  have run: "serve_one L req v = (Returned (), v\<lparr>sv_world := w, sv_replies := sv_replies v @ [Some r]\<rparr>)"
    using Some h by (simp add: serve_one_def on_world_def zoom_def bindP_def getP_def modP_def)
  have right: "right_reply L (ad_host (sv_app v)) req (Some r)"
    using a Some by (auto simp: right_reply_def)
  show thesis using run right a by (intro that[of "Some r" w]) blast+
qed

text \<open>With only events that the \<open>switch\<close> handles in its queue, a worker's next call returns.\<close>

lemma worker_never_fails:
  assumes "lib_laws L docs" "server_inv L docs s" "\<forall>ev\<in>set (queue_of s i). handles L ev"
  shows "\<not> worker_fails L i (sr_world s) (sr_phase s)"
proof
  let ?w = "sr_world s"
  have ok: "server_ok L docs ?w" using assms(2) by (simp add: server_inv_def)
  assume f: "worker_fails L i ?w (sr_phase s)"
  then have i: "i < n_workers s" by (simp add: worker_fails_def)
  then have rdy: "worker_ready (w_workers ?w ! i)" using assms(2) by (simp add: server_inv_def)
  show False
  proof (cases "sr_phase s ! i")
    case (Checked p)
    obtain rv v where "spawn_fork L p ?w = (Returned rv, v)" by (rule spawn_fork_keeps[OF assms(1) ok])
    then show False using f Checked by (simp add: worker_fails_def returns_def)
  next
    case Between
    then obtain ev q where q: "queue_of s i = ev # q"
      and stuck: "if ev_type ev = EV_CREATE_PROCESS \<and> fn_spawn (w_workers ?w ! i) = SpawnProcess
                  then \<not> returns (spawn_check L (ev_process ev) ?w) else \<not> returns (worker_step L i ?w)"
      using f by (auto simp: worker_fails_def split: list.splits)
    have "returns (worker_step L i ?w)"
    proof (cases "ev_type ev = EV_TERMINATE_PROCESS")
      case True
      then have "\<not> l_asserts L" using assms(3) q by (auto simp: handles_def)
      then show ?thesis
        using q True by (simp add: returns_def worker_step_def worker_switch_def assert_then_def pop_queue_def modP_def bindP_def ret_def)
    next
      case False
      then show ?thesis using worker_step_simulates[OF assms(1) ok rdy q] by (auto simp: returns_def)
    qed
    then show False
      using stuck spawn_check_result[OF assms(1) ok, of "ev_process ev"] by (auto simp: returns_def split: if_splits)
  qed
qed

section \<open>Every thread keeps the process up\<close>

text \<open>Up, every request answered, and a state of the running server in which no worker has an event without a case.\<close>

definition serving_well :: "('db, 'j) lib \<Rightarrow> ('db \<Rightarrow> coll \<Rightarrow> bson multiset) \<Rightarrow> app_data \<Rightarrow> 'db service \<Rightarrow> bool" where
  "serving_well L docs data s \<longleftrightarrow>
     se_up s \<and> sv_app (se_server s) = data \<and> list_all2 (right_reply L (ad_host data)) (se_asked s) (sv_replies (se_server s)) \<and>
     (\<exists>hs ds. server_inv L docs (srv_of s hs ds) \<and> (\<forall>h\<in>set hs. \<forall>ev\<in>set h. handles L ev))"

definition service_inv :: "('db, 'j) lib \<Rightarrow> ('db \<Rightarrow> coll \<Rightarrow> bson multiset) \<Rightarrow> app_data \<Rightarrow> 'db service \<Rightarrow> bool" where
  "service_inv L docs data s \<longleftrightarrow> (\<forall>req\<in>set (se_asked s). harmless L (ad_host data) req) \<longrightarrow> serving_well L docs data s"

lemma queue_handled:
  assumes "server_inv L docs s" "\<forall>h\<in>set (sr_sent s). \<forall>ev\<in>set h. handles L ev" "i < n_workers s"
  shows "\<forall>ev\<in>set (queue_of s i). handles L ev"
proof -
  have "sr_sent s ! i = sr_done s ! i @ queue_of s i" "i < length (sr_sent s)"
    using assms(1,3) by (simp_all add: server_inv_def accounted_def)
  moreover from this(2) have "sr_sent s ! i \<in> set (sr_sent s)" by simp
  ultimately show ?thesis using assms(2) by (metis Un_iff set_append)
qed

lemma log_at_handled:
  assumes "\<forall>h\<in>set hs. \<forall>e\<in>set h. handles L e" "handles L ev" "i < length hs"
  shows "\<forall>h\<in>set (log_at i [ev] hs). \<forall>e\<in>set h. handles L e"
proof -
  have "set (log_at i [ev] hs) \<subseteq> insert (hs ! i @ [ev]) (set hs)"
    unfolding log_at_def by (rule set_update_subset_insert)
  moreover have "hs ! i \<in> set hs" using assms(3) by simp
  ultimately show ?thesis using assms(1,2) by fastforce
qed

lemma well_steps:
  assumes "lib_laws L docs" "serving_well L docs data s" "service_step L s t"
    and "\<forall>req\<in>set (se_asked t). harmless L (ad_host data) req"
  shows "serving_well L docs data t"
proof -
  obtain hs ds where up: "se_up s" "sv_app (se_server s) = data"
    and rep: "list_all2 (right_reply L (ad_host data)) (se_asked s) (sv_replies (se_server s))"
    and inv: "server_inv L docs (srv_of s hs ds)" and hs: "\<forall>h\<in>set hs. \<forall>ev\<in>set h. handles L ev"
    using assms(2) unfolding serving_well_def by blast
  have ok: "server_ok L docs (se_world s)" and pool: "pool_ready (se_world s)" using inv by (simp_all add: server_inv_def)
  have same: "serving_well L docs data u"
    if "se_up u" "sv_app (se_server u) = data" "se_asked u = se_asked s" "sv_replies (se_server u) = sv_replies (se_server s)"
      "server_inv L docs (srv_of u hs ds')" for u ds'
    using that rep hs unfolding serving_well_def by metis
  from assms(3) show ?thesis
  proof cases
    case (request req r v)
    then have req: "harmless L (ad_host data) req" using assms(4) by simp
    obtain rp w where run: "serve_one L req (se_server s) = (Returned (), (se_server s)\<lparr>sv_world := w, sv_replies := sv_replies (se_server s) @ [rp]\<rparr>)"
      and right: "right_reply L (ad_host data) req rp"
      and w: "w = se_world s \<or> (\<exists>ev. wants L (ad_host data) req ev \<and> w = enqueue ev (se_world s))"
      using request_answered[OF pool, of req L] req up(2) by (auto simp: harmless_def)
    have t: "se_up t" "sv_app (se_server t) = data" "se_asked t = se_asked s @ [req]"
      "sv_replies (se_server t) = sv_replies (se_server s) @ [rp]" "se_world t = w" "se_phase t = se_phase s"
      using request run up by auto
    then have sr: "srv_of t hs' ds = (srv_of s hs' ds)\<lparr>sr_world := w\<rparr>" for hs' by (simp add: srv_of_def)
    from w have "\<exists>hs'. server_inv L docs (srv_of t hs' ds) \<and> (\<forall>h\<in>set hs'. \<forall>ev\<in>set h. handles L ev)"
    proof (elim disjE exE conjE)
      assume "w = se_world s"
      then have "srv_of t hs ds = srv_of s hs ds" using t by (simp add: srv_of_def)
      then show ?thesis using inv hs by metis
    next
      fix ev assume ev: "wants L (ad_host data) req ev" "w = enqueue ev (se_world s)"
      let ?hs = "log_at (nat (w_index (se_world s))) [ev] hs"
      have "server_inv L docs (srv_of t ?hs ds)" using inv_push[OF inv, of ev] ev(2) t by (simp add: srv_of_def put_world_def)
      moreover have "nat (w_index (se_world s)) < length hs"
        using pool inv by (auto simp: pool_ready_def server_inv_def accounted_def nat_less_iff)
      then have "\<forall>h\<in>set ?hs. \<forall>e\<in>set h. handles L e"
        using log_at_handled[OF hs] req ev(1) unfolding harmless_def by blast
      ultimately show ?thesis by blast
    qed
    then show ?thesis using t rep right unfolding serving_well_def by (auto simp: list_all2_appendI)
  next
    case (works i w ph)
    have m: "worker_move L i (sr_world (srv_of s hs ds), sr_phase (srv_of s hs ds)) (w, ph)" using works(3) by simp
    show ?thesis using move_inv[OF assms(1) inv m] works(1,2) up by (intro same) simp_all
  next
    case (worker_ends i)
    have "i < n_workers (srv_of s hs ds)" using worker_ends(3) by (simp add: worker_fails_def)
    then have "\<not> worker_fails L i (se_world s) (se_phase s)"
      using worker_never_fails[OF assms(1) inv] queue_handled[OF inv] hs by simp
    then show ?thesis using worker_ends(3) by simp
  next
    case (looks p n r w)
    obtain u where u: "detect_one L p (se_world s) = (Returned (), u)" using detect_one_simulates[OF assms(1) ok looks(3,4)] by blast
    then have "server_inv L docs (srv_of (put_world u s) hs ds)"
      using inv_stays[OF inv, of u] stays_detect(1)[OF assms(1) ok u looks(3,4)] by simp
    then show ?thesis using u looks(1,2,5) up by (intro same) (simp_all add: srv_of_def put_world_def)
  next
    case (ends pid)
    then show ?thesis using inv_stays[OF inv, of "child_exits pid (se_world s)"] stays_child(1)[OF ok] up by (intro same) simp_all
  qed
qed

lemma asked_grows: "service_step L s t \<Longrightarrow> set (se_asked s) \<subseteq> set (se_asked t)"
  by (erule service_step.cases) (auto simp: put_world_def)

lemma service_started_well:
  assumes "service_started L docs s" "sv_app (se_server s) = data"
  shows "serving_well L docs data s"
proof -
  let ?idle = "replicate (length (w_workers (se_world s))) []"
  have "server_inv L docs (srv_of s ?idle ?idle)"
    using assms(1) by (intro server_started_inv) (simp add: service_started_def Let_def)
  then show ?thesis using assms unfolding serving_well_def service_started_def by (auto intro!: exI[of _ ?idle])
qed

interpretation service_sys: guarded_system
  "\<lambda>s. lib_laws L docs \<and> service_started L docs s \<and> sv_app (se_server s) = data" "service_step L"
  "\<lambda>s. lib_laws L docs \<and> service_inv L docs data s"
  by unfold_locales (use service_started_well well_steps asked_grows in \<open>unfold service_inv_def, blast+\<close>)

section \<open>Every request is answered\<close>

text \<open>
  C24 (every request is answered). A started server that has bound its port and can reach its database, its workers,
  its schedule thread and its dying children interleaving with its event loop in any order, and no signal to end it: as
  long as no request was for \<open>/health/live\<close> and, with assertions compiled in, none had an event queued that
  the workers have no case for (a \<open>/pull/inject/i/stop\<close> with a pid), the process is up; it has answered every request, in order, each with
  the reply it deserves whatever the threads did, which is 200 exactly for a body that asks for an event; it
  answers the next request, unless that is for \<open>/health/live\<close>, which would end it.
\<close>

theorem requests_answered:
  assumes "lib_laws L docs" "service_started L docs s" "(service_step L)\<^sup>*\<^sup>* s t"
    and "\<forall>req\<in>set (se_asked t). harmless L (ad_host (sv_app (se_server s))) req"
  shows "se_up t \<and> list_all2 (right_reply L (ad_host (sv_app (se_server s)))) (se_asked t) (sv_replies (se_server t)) \<and>
         (\<forall>req. \<exists>u. service_step L t u \<and> se_asked u = se_asked t @ [req] \<and> (se_up u \<longleftrightarrow> fst req \<noteq> ''/health/live''))"
proof -
  let ?data = "sv_app (se_server s)"
  have "service_inv L docs ?data s" using service_started_well[OF assms(2) refl] by (simp add: service_inv_def)
  then have "service_inv L docs ?data t"
    using service_sys.rtrancl_inv[OF assms(3), of docs ?data] assms(1) by blast
  then have well: "serving_well L docs ?data t" using assms(4) by (simp add: service_inv_def)
  then have pool: "pool_ready (se_world t)" and up: "se_up t" by (auto simp: serving_well_def server_inv_def)
  have "\<exists>u. service_step L t u \<and> se_asked u = se_asked t @ [req] \<and> (se_up u \<longleftrightarrow> fst req \<noteq> ''/health/live'')" for req
  proof -
    obtain r v where v: "serve_one L req (se_server t) = (r, v)" by fastforce
    have "r = Returned () \<longleftrightarrow> fst req \<noteq> ''/health/live''"
    proof (cases "fst req = ''/health/live''")
      case True
      then show ?thesis using v health_undefined[of L "snd req" "se_server t"] by (cases req) auto
    next
      case False
      then show ?thesis using v request_answered[OF pool False, of L] by (metis prod.inject)
    qed
    then show ?thesis using service_step.request[OF up v] by (intro exI conjI) (assumption, simp_all)
  qed
  then show ?thesis using well up unfolding serving_well_def by blast
qed

definition mem_service :: "mem_db service" where
  "mem_service = \<lparr>se_server = (PullMain.mem_server [] mem_conf)\<lparr>sv_world := mem_world 2 []\<rparr>,
     se_phase = replicate 2 Between, se_asked = [], se_up = True\<rparr>"

theorem requests_answered_witness:
  "\<exists>t. (service_step mem_lib)\<^sup>*\<^sup>* mem_service t \<and> se_up t \<and>
       se_asked t = [(''/pull/inject/start'', None), (''/nothing'', None)] \<and> sv_replies (se_server t) ! 1 = None"
proof -
  let ?r1 = "(''/pull/inject/start'', None :: string option)" and ?r2 = "(''/nothing'', None :: string option)"
  have n: "length (w_workers (mem_world 2 [])) = 2" by (simp add: mem_world_def)
  have "service_started mem_lib mem_docs mem_service"
    using mem_server_started[of 2] n
    by (simp add: service_started_def mem_service_def srv_of_def Server.mem_server_def PullMain.mem_server_def)
  note ans = requests_answered[OF mem_lib_laws this]
  have calm: "harmless mem_lib host ?r1" "harmless mem_lib host ?r2" for host
    by (simp_all add: harmless_def wants_def)
  obtain u where u: "service_step mem_lib mem_service u" "se_asked u = [?r1]" "se_up u"
  proof -
    have a: "se_asked mem_service = []" by (simp add: mem_service_def)
    obtain u where "service_step mem_lib mem_service u" "se_asked u = se_asked mem_service @ [?r1]" "se_up u"
      using ans[OF rtranclp.rtrancl_refl] a by auto
    with a show thesis by (intro that) simp_all
  qed
  have run: "(service_step mem_lib)\<^sup>*\<^sup>* mem_service u" using u(1) by blast
  obtain t where t: "service_step mem_lib u t" "se_asked t = [?r1, ?r2]" "se_up t"
  proof -
    have "\<exists>t. service_step mem_lib u t \<and> se_asked t = se_asked u @ [?r2] \<and> (se_up t \<longleftrightarrow> fst ?r2 \<noteq> ''/health/live'')"
    proof -
      have "\<forall>req\<in>set (se_asked u). harmless mem_lib (ad_host (sv_app (se_server mem_service))) req" using u(2) calm(1) by simp
      from ans[OF run this] show ?thesis by blast
    qed
    with u(2) show thesis by (auto intro: that)
  qed
  have run2: "(service_step mem_lib)\<^sup>*\<^sup>* mem_service t" using run t(1) by (rule rtranclp.rtrancl_into_rtrancl)
  have "list_all2 (right_reply mem_lib (ad_host (sv_app (se_server mem_service)))) [?r1, ?r2] (sv_replies (se_server t))"
    using ans[OF run2] t(2) calm by simp
  then have "sv_replies (se_server t) ! 1 = None"
    by (auto simp: list_all2_Cons1 right_reply_def route_def split: option.splits)
  with run2 t(2,3) show ?thesis by blast
qed

end
