(* ===== verification/PureLog.thy ===== *)
theory PureLog
  imports Sys
begin

text \<open>
  \<open>pulld/src/log/pure_log.cpp\<close> and \<open>pure_log.h\<close>: the log of the watchdog, which writes to one of
  two file slots in turn and changes the slot by time or by the bytes written. The unsigned
  counters have their 32 bits. The clock is a stream of readings already broken down by
  \<open>localtime_r\<close>; \<open>None\<close> is a member no constructor sets, or a missing return value.
\<close>

unbundle bit_operations_syntax

section \<open>Levels and strategies\<close>

datatype PURE_LOG_TYPE_E = LOG_TERM | LOG_CRIT | LOG_ERROR | LOG_WARN | LOG_INFO | LOG_DEBUG

fun log_rank :: "PURE_LOG_TYPE_E \<Rightarrow> nat" where
  "log_rank LOG_TERM = 0"
| "log_rank LOG_CRIT = 1"
| "log_rank LOG_ERROR = 2"
| "log_rank LOG_WARN = 3"
| "log_rank LOG_INFO = 4"
| "log_rank LOG_DEBUG = 5"

lemma log_rank_inject: "log_rank a = log_rank b \<longleftrightarrow> a = b"
  by (cases a; cases b) simp_all

instantiation PURE_LOG_TYPE_E :: linorder
begin

definition less_eq_PURE_LOG_TYPE_E :: "PURE_LOG_TYPE_E \<Rightarrow> PURE_LOG_TYPE_E \<Rightarrow> bool" where
  "less_eq_PURE_LOG_TYPE_E a b \<longleftrightarrow> log_rank a \<le> log_rank b"

definition less_PURE_LOG_TYPE_E :: "PURE_LOG_TYPE_E \<Rightarrow> PURE_LOG_TYPE_E \<Rightarrow> bool" where
  "less_PURE_LOG_TYPE_E a b \<longleftrightarrow> log_rank a < log_rank b"

instance
  by standard (auto simp: less_eq_PURE_LOG_TYPE_E_def less_PURE_LOG_TYPE_E_def log_rank_inject)

end

text \<open>The table \<open>lvl\<close>.\<close>

fun lvl :: "PURE_LOG_TYPE_E \<Rightarrow> string" where
  "lvl LOG_TERM = ''TERM''"
| "lvl LOG_CRIT = ''CRIT''"
| "lvl LOG_ERROR = ''ERROR''"
| "lvl LOG_WARN = ''WARN''"
| "lvl LOG_INFO = ''INFO''"
| "lvl LOG_DEBUG = ''DEBUG''"

datatype PURE_LOG_STRATEGE_TYPE_E = PURE_LOG_TIME | PURE_LOG_SPACE | PURE_LOG_CONST

datatype PURE_LOG_TIME_STRATEGE_E = HOUR | DAY | WEEK

definition PURE_LOG_MAX_FILE_NAME_LEN :: nat where "PURE_LOG_MAX_FILE_NAME_LEN = 256"
definition PURE_LOG_MAX_TIME_STR_LEN :: nat where "PURE_LOG_MAX_TIME_STR_LEN = 128"
definition PURE_LOG_MAX_PARA_STR_LEN :: nat where "PURE_LOG_MAX_PARA_STR_LEN = 512"
definition PURE_LOG_MAX_FILE_SIZE :: "32 word" where "PURE_LOG_MAX_FILE_SIZE = 10 * 1024 * 1024"
definition LOG_TANK_FILE :: int where "LOG_TANK_FILE = 1"
definition LOG_TANK_CONSOLE :: int where "LOG_TANK_CONSOLE = 0"
definition SUCCESS :: int where "SUCCESS = 0"
definition FAILURE :: int where "FAILURE = - 1"
definition RETRY :: int where "RETRY = 1"

section \<open>State\<close>

record tm =
  tm_year :: int
  tm_mon :: int
  tm_mday :: int
  tm_hour :: int
  tm_min :: int
  tm_sec :: int

definition tm_zero :: tm where
  "tm_zero = \<lparr>tm_year = 0, tm_mon = 0, tm_mday = 0, tm_hour = 0, tm_min = 0, tm_sec = 0\<rparr>"

record CLog =
  cl_filename :: string
  cl_stratege_type :: PURE_LOG_STRATEGE_TYPE_E
  cl_time_stratege_type :: PURE_LOG_TIME_STRATEGE_E
  cl_amount_size :: int
  cl_log_level :: PURE_LOG_TYPE_E
  cl_cur_filetime :: "tm list"
  cl_cur_file_size :: "32 word list"
  cl_max_file_size :: "32 word"
  cl_fd :: "int list"
  cl_pos :: "32 word"
  cl_busy :: int
  cl_log_tank :: "int option"

definition CLog_new :: CLog where
  "CLog_new =
     \<lparr>cl_filename = [], cl_stratege_type = PURE_LOG_CONST, cl_time_stratege_type = HOUR, cl_amount_size = 10,
      cl_log_level = LOG_DEBUG, cl_cur_filetime = [tm_zero, tm_zero], cl_cur_file_size = [0, 0],
      cl_max_file_size = PURE_LOG_MAX_FILE_SIZE, cl_fd = [- 1, - 1], cl_pos = - 1, cl_busy = 0, cl_log_tank = None\<rparr>"

text \<open>The log with the system it writes to, the readings of the clock and the terminal.\<close>

record log_sys =
  ls_log :: CLog
  ls_os :: os
  ls_clock :: "nat \<Rightarrow> tm"
  ls_ticks :: nat
  ls_out :: "string list"

definition mod_log :: "(CLog \<Rightarrow> CLog) \<Rightarrow> ('x log_sys_scheme, unit) prog" where
  "mod_log f = modP (\<lambda>s. s\<lparr>ls_log := f (ls_log s)\<rparr>)"

definition log_os :: "(os, 'a) prog \<Rightarrow> ('x log_sys_scheme, 'a) prog" where
  "log_os = zoom ls_os (\<lambda>x s. s\<lparr>ls_os := x\<rparr>)"

definition read_clock :: "('x log_sys_scheme, tm) prog" where
  "read_clock s = (Returned (ls_clock s (ls_ticks s)), s\<lparr>ls_ticks := Suc (ls_ticks s)\<rparr>)"

definition printf :: "string \<Rightarrow> ('x log_sys_scheme, unit) prog" where
  "printf line = modP (\<lambda>s. s\<lparr>ls_out := ls_out s @ [line]\<rparr>)"

text \<open>A \<open>write\<close> to a file opened with \<open>O_APPEND\<close>.\<close>

definition sys_append :: "int \<Rightarrow> string \<Rightarrow> (os, int) prog" where
  "sys_append fd b s =
     (case fd_file (os_fds s) fd of
        None \<Rightarrow> (Returned (- 1), s)
      | Some f \<Rightarrow>
          if os_full s then (Returned (- 1), s)
          else (Returned (int (length b)),
                s\<lparr>os_files := (os_files s)(f \<mapsto> (case os_files s f of None \<Rightarrow> [] | Some t \<Rightarrow> t) @ b)\<rparr>))"

section \<open>Texts\<close>

text \<open>\<open>%0wd\<close>.\<close>

definition dec_pad :: "nat \<Rightarrow> int \<Rightarrow> string" where
  "dec_pad w i =
     (if i < 0 then CHR ''-'' # replicate (w - 1 - length (nat_dec (nat (- i)))) (CHR ''0'') @ nat_dec (nat (- i))
      else replicate (w - length (nat_dec (nat i))) (CHR ''0'') @ nat_dec (nat i))"

definition date_text :: "tm \<Rightarrow> string" where
  "date_text t =
     ''['' @ dec_pad 4 (tm_year t + 1900) @ ''-'' @ dec_pad 2 (tm_mon t + 1) @ ''-'' @ dec_pad 2 (tm_mday t) @ '' '' @
     dec_pad 2 (tm_hour t) @ ''-'' @ dec_pad 2 (tm_min t) @ ''-'' @ dec_pad 2 (tm_sec t) @ '']''"

definition suffix_text :: "tm \<Rightarrow> string" where
  "suffix_text t =
     dec_pad 4 (tm_year t + 1900) @ dec_pad 2 (tm_mon t + 1) @ dec_pad 2 (tm_mday t) @ ''_'' @ dec_pad 2 (tm_hour t) @ ''h''"

text \<open>The line \<open>prt\<close> writes: three \<open>snprintf\<close>s into buffers of 128, 512 and 1024 bytes.\<close>

definition log_line :: "tm \<Rightarrow> PURE_LOG_TYPE_E \<Rightarrow> string \<Rightarrow> string" where
  "log_line t l msg =
     (let date_str = snprintf PURE_LOG_MAX_TIME_STR_LEN (date_text t);
          parameters = snprintf PURE_LOG_MAX_PARA_STR_LEN msg
      in snprintf (PURE_LOG_MAX_PARA_STR_LEN * 2)
           (date_str @ ''['' @ lvl l @ ''] '' @ parameters @ [CHR 0x0A]))"

section \<open>Operations\<close>

text \<open>\<open>m_pos & 0x1\<close> and \<open>(m_pos + 1) & 0x1\<close>.\<close>

definition slot :: "CLog \<Rightarrow> nat" where
  "slot c = unat (cl_pos c AND 1)"

definition next_slot :: "CLog \<Rightarrow> nat" where
  "next_slot c = unat ((cl_pos c + 1) AND 1)"

text \<open>
  The block every case of \<open>new_file\<close> repeats: close the slot if it is open, open the file \<open>name\<close>
  into it, and advance. A failed \<open>open\<close> leaves -1 in the slot.
\<close>

definition open_slot :: "string \<Rightarrow> tm \<Rightarrow> ('x log_sys_scheme, int) prog" where
  "open_slot name ptime =
     bindP (getP ls_log) (\<lambda>c.
     let m_next = next_slot c in
     bindP (if cl_fd c ! m_next = - 1 then ret 0 else log_os (sys_close (cl_fd c ! m_next))) (\<lambda>_.
     bindP (log_os (sys_open (snprintf PURE_LOG_MAX_FILE_NAME_LEN name) True)) (\<lambda>fd.
     bindP (mod_log (\<lambda>c. c\<lparr>cl_fd := (cl_fd c)[m_next := fd]\<rparr>)) (\<lambda>_.
     if fd = - 1
     then bindP (printf (''log mod : Open '' @ snprintf PURE_LOG_MAX_FILE_NAME_LEN name)) (\<lambda>_.
          bindP (mod_log (\<lambda>c. c\<lparr>cl_busy := 0\<rparr>)) (\<lambda>_.
          ret FAILURE))
     else bindP (mod_log (\<lambda>c. c\<lparr>cl_cur_filetime := (cl_cur_filetime c)[m_next := ptime],
                               cl_cur_file_size := (cl_cur_file_size c)[m_next := 0],
                               cl_pos := cl_pos c + 1, cl_busy := 0\<rparr>)) (\<lambda>_.
          ret SUCCESS)))))"

text \<open>
  The number of a file in the space strategy: the modulus is unsigned, and undefined for 0; it is
  printed by \<open>%d\<close>.
\<close>

definition file_index :: "CLog \<Rightarrow> int option" where
  "file_index c =
     (let n = (word_of_int (cl_amount_size c) :: 32 word) in
      if n = 0 then None else Some (sint ((cl_pos c + 1) mod n + 1)))"

definition new_file :: "('x log_sys_scheme, int) prog" where
  "new_file =
     bindP (getP (cl_busy \<circ> ls_log)) (\<lambda>busy.
     if busy \<noteq> 0 then ret RETRY
     else
     bindP (mod_log (\<lambda>c. c\<lparr>cl_busy := 1\<rparr>)) (\<lambda>_.
     bindP read_clock (\<lambda>ptime.
     bindP (getP ls_log) (\<lambda>c.
     case cl_stratege_type c of
       PURE_LOG_TIME \<Rightarrow>
         open_slot (cl_filename c @ ''_'' @ snprintf PURE_LOG_MAX_TIME_STR_LEN (suffix_text ptime) @ ''.log'') ptime
     | PURE_LOG_SPACE \<Rightarrow>
         (case file_index c of
            None \<Rightarrow> stop_with Undefined
          | Some m_index \<Rightarrow> open_slot (cl_filename c @ ''_'' @ int_dec m_index @ ''.log'') ptime)
     | PURE_LOG_CONST \<Rightarrow> open_slot (cl_filename c @ ''.log'') ptime))))"

text \<open>\<open>write\<close> to the current slot, and the byte count on success.\<close>

definition write_slot :: "string \<Rightarrow> ('x log_sys_scheme, int) prog" where
  "write_slot buf =
     bindP (getP ls_log) (\<lambda>c.
     let i = slot c in
     bindP (log_os (sys_append (cl_fd c ! i) buf)) (\<lambda>rv.
     bindP (if 0 < rv then mod_log (\<lambda>c. c\<lparr>cl_cur_file_size := (cl_cur_file_size c)[i := cl_cur_file_size c ! i + word_of_int rv]\<rparr>)
            else ret ()) (\<lambda>_.
     ret rv)))"

text \<open>\<open>if (cond) if (new_file() == FAILURE) return -1;\<close> before the rest \<open>k\<close>.\<close>

definition renew_when :: "bool \<Rightarrow> ('x log_sys_scheme, int) prog \<Rightarrow> ('x log_sys_scheme, int) prog" where
  "renew_when cond k =
     (if cond then bindP new_file (\<lambda>rv. if rv = FAILURE then ret (- 1) else k) else k)"

definition time_cut :: "CLog \<Rightarrow> tm \<Rightarrow> bool" where
  "time_cut c ptime =
     (if cl_time_stratege_type c = HOUR then tm_hour (cl_cur_filetime c ! slot c) \<noteq> tm_hour ptime
      else if cl_time_stratege_type c = DAY then tm_mday (cl_cur_filetime c ! slot c) \<noteq> tm_mday ptime
      else False)"

definition has_room :: "CLog \<Rightarrow> bool" where
  "has_room c \<longleftrightarrow> cl_cur_file_size c ! slot c < cl_max_file_size c - of_nat PURE_LOG_MAX_PARA_STR_LEN"

text \<open>The \<open>switch\<close> of \<open>prt\<close>.\<close>

definition prt_file :: "tm \<Rightarrow> string \<Rightarrow> ('x log_sys_scheme, int) prog" where
  "prt_file ptime buf =
     bindP (getP ls_log) (\<lambda>c.
     renew_when (cl_fd c ! slot c = - 1)
       (case cl_stratege_type c of
          PURE_LOG_TIME \<Rightarrow>
            bindP (getP ls_log) (\<lambda>c. renew_when (time_cut c ptime) (write_slot buf))
        | PURE_LOG_SPACE \<Rightarrow>
            bindP (getP ls_log) (\<lambda>c. renew_when (\<not> has_room c) (write_slot buf))
        | PURE_LOG_CONST \<Rightarrow>
            bindP (write_slot buf) (\<lambda>_. ret 0)))"

text \<open>\<open>msg\<close> is what the format and the arguments expand to.\<close>

definition prt :: "PURE_LOG_TYPE_E \<Rightarrow> string \<Rightarrow> ('x log_sys_scheme, int) prog" where
  "prt i_log_lvl msg =
     bindP (getP ls_log) (\<lambda>c.
     if i_log_lvl > cl_log_level c then ret 0
     else
     bindP read_clock (\<lambda>ptime.
     case cl_log_tank c of
       None \<Rightarrow> stop_with Undefined
     | Some tank \<Rightarrow>
         if tank = LOG_TANK_CONSOLE
         then bindP (printf (snprintf PURE_LOG_MAX_PARA_STR_LEN msg)) (\<lambda>_. ret 0)
         else prt_file ptime (log_line ptime i_log_lvl msg)))"

definition set_log_level :: "PURE_LOG_TYPE_E \<Rightarrow> ('x log_sys_scheme, int) prog" where
  "set_log_level i_lvl = bindP (mod_log (\<lambda>c. c\<lparr>cl_log_level := i_lvl\<rparr>)) (\<lambda>_. ret 0)"

text \<open>
  \<open>init\<close> has no \<open>return\<close> on its main path. The standard leaves that undefined; \<open>lax\<close> is whether
  the compiler makes such a function return all the same, with an indeterminate value.
\<close>

definition init :: "bool \<Rightarrow> string \<Rightarrow> string \<Rightarrow> ('x log_sys_scheme, int option) prog" where
  "init lax i_path i_filename =
     (if length (c_str i_path) + length (c_str i_filename) > PURE_LOG_MAX_FILE_NAME_LEN - 1
      then bindP (printf ''Too long path and filename'') (\<lambda>_. ret (Some (- 1)))
      else
      bindP (mod_log (\<lambda>c. c\<lparr>cl_filename := snprintf PURE_LOG_MAX_FILE_NAME_LEN (c_str i_path @ c_str i_filename)\<rparr>)) (\<lambda>_.
      bindP new_file (\<lambda>_.
      if lax then ret None else stop_with Undefined)))"

definition set_log_tank :: "string \<Rightarrow> ('x log_sys_scheme, int) prog" where
  "set_log_tank tank =
     bindP (if c_str tank = ''file'' then mod_log (\<lambda>c. c\<lparr>cl_log_tank := Some LOG_TANK_FILE\<rparr>)
            else if c_str tank = ''console'' then mod_log (\<lambda>c. c\<lparr>cl_log_tank := Some LOG_TANK_CONSOLE\<rparr>)
            else ret ()) (\<lambda>_. ret 0)"

definition set_log_out_by_time :: "int \<Rightarrow> ('x log_sys_scheme, int) prog" where
  "set_log_out_by_time h_or_d =
     bindP (mod_log (\<lambda>c. c\<lparr>cl_stratege_type := PURE_LOG_TIME\<rparr>)) (\<lambda>_.
     bindP (if h_or_d > 0 then mod_log (\<lambda>c. c\<lparr>cl_time_stratege_type := HOUR\<rparr>)
            else mod_log (\<lambda>c. c\<lparr>cl_time_stratege_type := DAY\<rparr>)) (\<lambda>_.
     ret 0))"

definition set_log_out_by_amount :: "int \<Rightarrow> int \<Rightarrow> ('x log_sys_scheme, int) prog" where
  "set_log_out_by_amount i_len i_size =
     bindP (mod_log (\<lambda>c. c\<lparr>cl_stratege_type := PURE_LOG_SPACE, cl_amount_size := i_size,
                           cl_max_file_size := word_of_int i_len\<rparr>)) (\<lambda>_. ret 0)"

text \<open>The destructor.\<close>

definition CLog_delete :: "('x log_sys_scheme, unit) prog" where
  "CLog_delete =
     bindP (getP ls_log) (\<lambda>c.
     bindP (if cl_fd c ! 0 > 0 then log_os (sys_close (cl_fd c ! 0)) else ret 0) (\<lambda>_.
     bindP (if cl_fd c ! 1 > 0 then log_os (sys_close (cl_fd c ! 1)) else ret 0) (\<lambda>_.
     ret ())))"

lemmas log_ops_defs = prt_def prt_file_def renew_when_def write_slot_def new_file_def open_slot_def
  mod_log_def log_os_def read_clock_def printf_def

section \<open>The two slots\<close>

lemma and_one_cases: "unat ((x :: 32 word) AND 1) = 0 \<and> unat ((x + 1) AND 1) = 1 \<or> unat (x AND 1) = 1 \<and> unat ((x + 1) AND 1) = 0"
proof -
  have m: "unat (y AND 1) = unat y mod 2" for y :: "32 word"
    by (simp add: and_one_eq unat_mod)
  have "unat (x + 1) mod 2 = (unat x + 1) mod 2"
    by (simp add: unat_word_ariths mod_mod_cancel)
  then show ?thesis unfolding m by presburger
qed

lemma slot_next: "next_slot c = (if slot c = 0 then 1 else 0)" "slot c < 2" "next_slot c < 2" "slot c \<noteq> next_slot c"
  using and_one_cases[of "cl_pos c"] by (auto simp: slot_def next_slot_def)

lemma slot_advance [simp]: "slot (c\<lparr>cl_pos := cl_pos c + 1\<rparr>) = next_slot c"
  by (simp add: slot_def next_slot_def)

lemma slot_update [simp]:
  "slot (c\<lparr>cl_busy := b\<rparr>) = slot c" "next_slot (c\<lparr>cl_busy := b\<rparr>) = next_slot c"
  "slot (c\<lparr>cl_cur_file_size := z\<rparr>) = slot c"
  by (simp_all add: slot_def next_slot_def)

lemma slot_eqI: "cl_pos d = cl_pos c \<Longrightarrow> slot d = slot c" "cl_pos d = cl_pos c + 1 \<Longrightarrow> slot d = next_slot c"
  by (simp_all add: slot_def next_slot_def)

text \<open>The system after the slot has been closed.\<close>

definition slot_closed :: "'x log_sys_scheme \<Rightarrow> os" where
  "slot_closed s =
     (let fd = cl_fd (ls_log s) ! next_slot (ls_log s) in
      if fd = - 1 then ls_os s else snd (sys_close fd (ls_os s)))"

lemma sys_close_returns: "\<exists>v. sys_close fd o' = (Returned v, snd (sys_close fd o'))"
  by (auto simp: sys_close_def split: option.split)

lemma bindP_log [simp]:
  "bindP (mod_log f) k s = k () (s\<lparr>ls_log := f (ls_log s)\<rparr>)"
  "bindP (printf line) k s = k () (s\<lparr>ls_out := ls_out s @ [line]\<rparr>)"
  "bindP read_clock h s = h (ls_clock s (ls_ticks s)) (s\<lparr>ls_ticks := Suc (ls_ticks s)\<rparr>)"
  by (simp_all add: mod_log_def printf_def read_clock_def bindP_def modP_def)

lemma bindP_open:
  "bindP (log_os (sys_open f True)) k s =
     (if os_denied (ls_os s) f then k (- 1) s
      else (let fd = fresh_fd (os_fds (ls_os s)) in
            k fd (s\<lparr>ls_os := (ls_os s)\<lparr>os_files := (if os_files (ls_os s) f = None then (os_files (ls_os s))(f \<mapsto> [])
                   else os_files (ls_os s)), os_fds := (fd, f) # os_fds (ls_os s)\<rparr>\<rparr>)))"
  by (simp add: log_os_def zoom_def sys_open_def bindP_def Let_def)

lemma close_slot_run:
  "\<exists>v. (if cl_fd (ls_log s) ! next_slot (ls_log s) = - 1 then ret 0
       else log_os (sys_close (cl_fd (ls_log s) ! next_slot (ls_log s)))) s = (Returned v, s\<lparr>ls_os := slot_closed s\<rparr>)"
proof (cases "cl_fd (ls_log s) ! next_slot (ls_log s) = - 1")
  case True
  then show ?thesis by (simp add: ret_def slot_closed_def)
next
  case False
  obtain v where "sys_close (cl_fd (ls_log s) ! next_slot (ls_log s)) (ls_os s) =
      (Returned v, snd (sys_close (cl_fd (ls_log s) ! next_slot (ls_log s)) (ls_os s)))"
    using sys_close_returns by blast
  with False show ?thesis by (auto simp: log_os_def zoom_def slot_closed_def split: prod.split)
qed

lemma open_slot_denied:
  assumes "os_denied (slot_closed s) (snprintf PURE_LOG_MAX_FILE_NAME_LEN name)"
  shows "\<exists>out. open_slot name t s = (Returned FAILURE,
           s\<lparr>ls_os := slot_closed s, ls_out := out,
             ls_log := (ls_log s)\<lparr>cl_fd := (cl_fd (ls_log s))[next_slot (ls_log s) := - 1], cl_busy := 0\<rparr>\<rparr>)"
proof -
  obtain v where v: "(if cl_fd (ls_log s) ! next_slot (ls_log s) = - 1 then ret 0
       else log_os (sys_close (cl_fd (ls_log s) ! next_slot (ls_log s)))) s = (Returned v, s\<lparr>ls_os := slot_closed s\<rparr>)"
    using close_slot_run by blast
  show ?thesis
    using assms
    by (auto simp: open_slot_def Let_def bindP_Returned[where m = "if _ then _ else _", OF v] bindP_open ret_def)
qed

lemma open_slot_granted:
  assumes "\<not> os_denied (slot_closed s) (snprintf PURE_LOG_MAX_FILE_NAME_LEN name)"
  defines "f \<equiv> snprintf PURE_LOG_MAX_FILE_NAME_LEN name" and "i \<equiv> next_slot (ls_log s)"
    and "fd \<equiv> fresh_fd (os_fds (slot_closed s))"
  shows "open_slot name t s = (Returned SUCCESS,
           s\<lparr>ls_log := (ls_log s)\<lparr>cl_fd := (cl_fd (ls_log s))[i := fd], cl_cur_filetime := (cl_cur_filetime (ls_log s))[i := t],
                cl_cur_file_size := (cl_cur_file_size (ls_log s))[i := 0], cl_pos := cl_pos (ls_log s) + 1, cl_busy := 0\<rparr>,
             ls_os := (slot_closed s)\<lparr>os_files := (if os_files (slot_closed s) f = None then (os_files (slot_closed s))(f \<mapsto> [])
                  else os_files (slot_closed s)), os_fds := (fd, f) # os_fds (slot_closed s)\<rparr>\<rparr>)"
proof -
  obtain v where v: "(if cl_fd (ls_log s) ! next_slot (ls_log s) = - 1 then ret 0
       else log_os (sys_close (cl_fd (ls_log s) ! next_slot (ls_log s)))) s = (Returned v, s\<lparr>ls_os := slot_closed s\<rparr>)"
    using close_slot_run by blast
  have "fd \<noteq> - 1" using fresh_fd_nonneg[of "os_fds (slot_closed s)"] by (simp add: fd_def)
  then show ?thesis
    using assms(1)
    by (simp add: open_slot_def Let_def bindP_Returned[where m = "if _ then _ else _", OF v] bindP_open ret_def f_def i_def fd_def)
qed

section \<open>The invariant\<close>

text \<open>
  Between two operations: not busy, two slots, each -1 or an open descriptor of the log's own; \<open>B\<close>
  are the descriptors the rest of the process holds.
\<close>

definition log_core :: "int set \<Rightarrow> 'x log_sys_scheme \<Rightarrow> bool" where
  "log_core B s \<longleftrightarrow>
     length (cl_fd (ls_log s)) = 2 \<and> length (cl_cur_filetime (ls_log s)) = 2 \<and> length (cl_cur_file_size (ls_log s)) = 2 \<and>
     fst ` set (os_fds (ls_os s)) = B \<union> (set (cl_fd (ls_log s)) - {- 1}) \<and> B \<inter> set (cl_fd (ls_log s)) = {} \<and> - 1 \<notin> B \<and>
     (cl_fd (ls_log s) ! 0 = cl_fd (ls_log s) ! 1 \<longrightarrow> cl_fd (ls_log s) ! 0 = - 1)"

definition log_ok :: "int set \<Rightarrow> 'x log_sys_scheme \<Rightarrow> bool" where
  "log_ok B s \<longleftrightarrow> log_core B s \<and> cl_busy (ls_log s) = 0"

lemma set_two: "length xs = 2 \<Longrightarrow> set xs = {xs ! 0, xs ! 1}"
  by (cases xs; cases "tl xs") auto

lemma fst_filter: "fst ` set (filter (\<lambda>e. fst e \<noteq> n) fds) = fst ` set fds - {n}"
  by (induction fds) auto

lemma two_minus: "n \<notin> B \<Longrightarrow> m \<noteq> n \<Longrightarrow> B \<union> ({m, n} - {- 1}) - {n} = B \<union> ({m} - {- 1 :: int})"
  by auto

lemma slot_closed_fds:
  assumes "log_core B s"
  shows "fst ` set (os_fds (slot_closed s)) = B \<union> ({cl_fd (ls_log s) ! slot (ls_log s)} - {- 1})"
proof -
  let ?c = "ls_log s"
  have two: "set (cl_fd ?c) = {cl_fd ?c ! slot ?c, cl_fd ?c ! next_slot ?c}"
    using assms slot_next(1,2)[of ?c] set_two[of "cl_fd ?c"]
    by (auto simp: log_core_def less_2_cases_iff)
  have dis: "B \<inter> {cl_fd ?c ! slot ?c, cl_fd ?c ! next_slot ?c} = {}" "- 1 \<notin> B"
    "cl_fd ?c ! slot ?c = cl_fd ?c ! next_slot ?c \<Longrightarrow> cl_fd ?c ! slot ?c = - 1"
    and fds: "fst ` set (os_fds (ls_os s)) = B \<union> ({cl_fd ?c ! slot ?c, cl_fd ?c ! next_slot ?c} - {- 1})"
    using assms two slot_next(1,2)[of ?c] by (auto simp: log_core_def less_2_cases_iff split: if_splits)
  show ?thesis
  proof (cases "cl_fd ?c ! next_slot ?c = - 1")
    case True
    then show ?thesis using fds by (auto simp: slot_closed_def)
  next
    case False
    let ?n = "cl_fd ?c ! next_slot ?c"
    have "?n \<in> fst ` set (os_fds (ls_os s))" using fds False by auto
    then obtain f where "map_of (os_fds (ls_os s)) ?n = Some f"
      by (metis map_of_eq_None_iff not_None_eq)
    then have "os_fds (slot_closed s) = filter (\<lambda>e. fst e \<noteq> ?n) (os_fds (ls_os s))"
      using False by (simp add: slot_closed_def Let_def sys_close_def fd_file_def drop_lock_def)
    then have "fst ` set (os_fds (slot_closed s)) = fst ` set (os_fds (ls_os s)) - {?n}" by (simp only: fst_filter)
    then have "fst ` set (os_fds (slot_closed s)) = B \<union> ({cl_fd ?c ! slot ?c, ?n} - {- 1}) - {?n}" by (simp only: fds)
    moreover have "?n \<notin> B" "cl_fd ?c ! slot ?c \<noteq> ?n" using dis False by auto
    ultimately show ?thesis using two_minus by metis
  qed
qed

lemma carries_open_slot: "carries (log_core B) (open_slot name t) (log_ok B)"
  unfolding carries_def
proof (intro allI impI)
  fix s x s' assume c: "log_core B s" and r: "open_slot name t s = (Returned x, s')"
  let ?c = "ls_log s" and ?fd = "fresh_fd (os_fds (slot_closed s))"
  note fds = slot_closed_fds[OF c]
  have l: "length (cl_fd ?c) = 2" "length (cl_cur_filetime ?c) = 2" "length (cl_cur_file_size ?c) = 2"
    "B \<inter> set (cl_fd ?c) = {}" "- 1 \<notin> B" using c by (auto simp: log_core_def)
  have new: "?fd \<notin> fst ` set (os_fds (slot_closed s))" "0 \<le> ?fd"
    using fresh_fd_unused fresh_fd_nonneg by blast+
  obtain a b where ab: "cl_fd ?c = [a, b]" using l(1) by (cases "cl_fd ?c"; cases "tl (cl_fd ?c)") auto
  consider "slot ?c = 0" "next_slot ?c = 1" | "slot ?c = 1" "next_slot ?c = 0"
    using slot_next(1,2)[of ?c] by (auto simp: less_2_cases_iff split: if_splits)
  note cs = this
  show "log_ok B s'"
  proof (cases "os_denied (slot_closed s) (snprintf PURE_LOG_MAX_FILE_NAME_LEN name)")
    case True
    obtain out where s': "s' = s\<lparr>ls_os := slot_closed s, ls_out := out,
        ls_log := ?c\<lparr>cl_fd := (cl_fd ?c)[next_slot ?c := - 1], cl_busy := 0\<rparr>\<rparr>"
      using open_slot_denied[OF True, of t] r by auto
    show ?thesis by (rule cs) (use s' l fds ab in \<open>auto simp: log_ok_def log_core_def\<close>)
  next
    case False
    note s' = open_slot_granted[OF False, of t, unfolded r, THEN prod.inject[THEN iffD1], THEN conjunct2]
    show ?thesis by (rule cs) (use s' l fds ab new in \<open>auto simp: log_ok_def log_core_def\<close>)
  qed
qed

lemma log_okD: "log_ok B s \<Longrightarrow> log_core B s" "log_ok B s \<Longrightarrow> cl_busy (ls_log s) = 0"
  by (simp_all add: log_ok_def)

lemma carries_mono: "(\<And>s. P s \<Longrightarrow> P' s) \<Longrightarrow> carries P' m Q \<Longrightarrow> carries P m Q"
  by (auto simp: carries_def)

lemma carries_mod_log:
  assumes "\<And>c. cl_fd (f c) = cl_fd c \<and> length (cl_cur_filetime (f c)) = length (cl_cur_filetime c) \<and>
              length (cl_cur_file_size (f c)) = length (cl_cur_file_size c)"
  shows "carries (log_core B) (mod_log f) (log_core B)"
    and "(\<And>c. cl_busy (f c) = cl_busy c) \<Longrightarrow> carries (log_ok B) (mod_log f) (log_ok B)"
  using assms by (auto simp: carries_def mod_log_def modP_def log_core_def log_ok_def)

lemma carries_log_ok_basic:
  "carries (log_ok B) read_clock (log_ok B)" "carries (log_core B) read_clock (log_core B)"
  "carries (log_ok B) (printf line) (log_ok B)"
  by (auto simp: carries_def read_clock_def printf_def modP_def log_ok_def log_core_def)

lemma carries_new_file: "carries (log_ok B) new_file (log_ok B)"
  unfolding new_file_def
  by (intro carries_bindP[where Q = "log_ok B"] carries_basic carries_if
      carries_bindP[where Q = "log_core B", OF carries_mono[OF log_okD(1) carries_mod_log(1)]]
      carries_bindP[where Q = "log_core B", OF carries_log_ok_basic(2)] carries_bindP[where Q = "log_core B", OF carries_basic(2)])
    (auto intro: carries_open_slot carries_basic split: PURE_LOG_STRATEGE_TYPE_E.split option.split)

lemma carries_write_slot: "carries (log_ok B) (write_slot buf) (log_ok B)"
proof -
  have app: "carries (log_ok B) (log_os (sys_append fd buf)) (log_ok B)" for fd
    by (auto simp: carries_def log_os_def zoom_def sys_append_def log_ok_def log_core_def split: option.splits if_splits)
  show ?thesis
    unfolding write_slot_def Let_def
    by (intro carries_bindP[where Q = "log_ok B"] carries_basic carries_if app carries_mod_log(2)) simp_all
qed

lemma carries_renew: "carries (log_ok B) k (log_ok B) \<Longrightarrow> carries (log_ok B) (renew_when c k) (log_ok B)"
  unfolding renew_when_def
  by (intro carries_if carries_bindP[OF carries_new_file] carries_basic)

lemma carries_prt: "carries (log_ok B) (prt l msg) (log_ok B)"
proof -
  have "carries (log_ok B) (prt_file t buf) (log_ok B)" for t buf
    unfolding prt_file_def
    by (intro carries_bindP[where Q = "log_ok B"] carries_basic carries_renew)
      (auto intro!: carries_bindP[where Q = "log_ok B"] carries_basic carries_renew carries_write_slot
        split: PURE_LOG_STRATEGE_TYPE_E.split)
  then show ?thesis
    unfolding prt_def
    by (intro carries_bindP[where Q = "log_ok B"] carries_basic carries_if carries_log_ok_basic)
      (auto intro!: carries_bindP[where Q = "log_ok B"] carries_basic carries_log_ok_basic split: option.split)
qed

section \<open>The log as a system\<close>

text \<open>
  The calls a program can make on a log, and what the system may change between them: files come
  and go, opening is denied or allowed, the disk fills up.
\<close>

inductive log_step :: "log_sys \<Rightarrow> log_sys \<Rightarrow> bool" where
  step_prt: "prt l msg s = (Returned v, t) \<Longrightarrow> log_step s t"
| step_init: "init lax path name s = (Returned r, t) \<Longrightarrow> log_step s t"
| step_level: "set_log_level l s = (Returned v, t) \<Longrightarrow> log_step s t"
| step_tank: "set_log_tank tank s = (Returned v, t) \<Longrightarrow> log_step s t"
| step_time: "set_log_out_by_time i s = (Returned v, t) \<Longrightarrow> log_step s t"
| step_amount: "set_log_out_by_amount i j s = (Returned v, t) \<Longrightarrow> log_step s t"
| step_system: "log_step s (s\<lparr>ls_os := (ls_os s)\<lparr>os_files := fs, os_denied := d, os_full := b\<rparr>\<rparr>)"

definition log_start :: "int set \<Rightarrow> log_sys \<Rightarrow> bool" where
  "log_start B s \<longleftrightarrow> ls_log s = CLog_new \<and> fst ` set (os_fds (ls_os s)) = B \<and> - 1 \<notin> B"

lemma carries_sets:
  "carries (log_ok B) (set_log_level l) (log_ok B)" "carries (log_ok B) (set_log_tank tank) (log_ok B)"
  "carries (log_ok B) (set_log_out_by_time i) (log_ok B)" "carries (log_ok B) (set_log_out_by_amount i j) (log_ok B)"
  "carries (log_ok B) (init lax path name) (log_ok B)"
  unfolding set_log_level_def set_log_tank_def set_log_out_by_time_def set_log_out_by_amount_def init_def
  by (intro carries_bindP[where Q = "log_ok B"] carries_if carries_basic carries_new_file carries_log_ok_basic carries_mod_log(2); simp)+

interpretation log_sys: guarded_system "log_start B" log_step "log_ok B"
proof
  fix s assume "log_start B s"
  then show "log_ok B s" by (simp add: log_start_def log_ok_def log_core_def CLog_new_def)
next
  fix s t assume i: "log_ok B s" and "log_step s t"
  from this(2) show "log_ok B t"
  proof cases
    case (step_prt l msg v)
    then show ?thesis using carriesD[OF carries_prt _ i] by blast
  next
    case (step_init lax path name r)
    then show ?thesis using carriesD[OF carries_sets(5) _ i] by blast
  next
    case (step_level l v)
    then show ?thesis using carriesD[OF carries_sets(1) _ i] by blast
  next
    case (step_tank tank v)
    then show ?thesis using carriesD[OF carries_sets(2) _ i] by blast
  next
    case (step_time n v)
    then show ?thesis using carriesD[OF carries_sets(3) _ i] by blast
  next
    case (step_amount n m v)
    then show ?thesis using carriesD[OF carries_sets(4) _ i] by blast
  next
    case (step_system fs d b)
    then show ?thesis using i by (simp add: log_ok_def log_core_def)
  qed
qed

text \<open>A log on a plain system, its clock standing at noon of 2 January 2024.\<close>

definition noon :: tm where
  "noon = \<lparr>tm_year = 124, tm_mon = 0, tm_mday = 2, tm_hour = 12, tm_min = 0, tm_sec = 0\<rparr>"

definition mem_log :: log_sys where
  "mem_log = \<lparr>ls_log = CLog_new, ls_os = plain_os Map.empty Map.empty, ls_clock = (\<lambda>_. noon), ls_ticks = 0, ls_out = []\<rparr>"

text \<open>
  C20 (the log keeps its descriptors in order). After any sequence of calls on a new log, whatever
  the system does between them, the log is not left busy, at most two descriptors are open besides
  those the rest of the process had open, which are still open, and a slot that is not -1 is open.
\<close>

theorem log_descriptors:
  assumes "reach (log_start B) log_step s"
  shows "cl_busy (ls_log s) = 0 \<and> B \<subseteq> fst ` set (os_fds (ls_os s)) \<and> card (fst ` set (os_fds (ls_os s)) - B) \<le> 2 \<and>
         (\<forall>fd\<in>set (cl_fd (ls_log s)). fd = - 1 \<or> fd \<in> fst ` set (os_fds (ls_os s)))"
proof -
  have i: "log_ok B s" using assms by (rule log_sys.reach_inv)
  then have f: "fst ` set (os_fds (ls_os s)) = B \<union> (set (cl_fd (ls_log s)) - {- 1})" "length (cl_fd (ls_log s)) = 2"
    "cl_busy (ls_log s) = 0" "B \<inter> set (cl_fd (ls_log s)) = {}"
    by (simp_all add: log_ok_def log_core_def)
  have "card (fst ` set (os_fds (ls_os s)) - B) \<le> card (set (cl_fd (ls_log s)))"
    unfolding f(1) by (rule card_mono) auto
  also have "\<dots> \<le> 2" using card_length[of "cl_fd (ls_log s)"] f(2) by simp
  finally show ?thesis using f by blast
qed

theorem log_descriptors_witness:
  "\<exists>s. reach (log_start {0, 1, 2}) log_step s \<and> cl_busy (ls_log s) = 0 \<and> cl_log_level (ls_log s) = LOG_INFO \<and>
       {0, 1, 2} \<subseteq> fst ` set (os_fds (ls_os s))"
proof -
  let ?s = "snd (set_log_level LOG_INFO mem_log)"
  have "log_start {0, 1, 2} mem_log" by (auto simp: log_start_def mem_log_def plain_os_def)
  moreover have r: "set_log_level LOG_INFO mem_log = (Returned 0, ?s)" "cl_log_level (ls_log ?s) = LOG_INFO"
    by (simp_all add: set_log_level_def ret_def)
  ultimately have "reach (log_start {0, 1, 2}) log_step ?s" by (blast intro: reach_start reach_step step_level)
  from this log_descriptors[OF this] r(2) show ?thesis by blast
qed

section \<open>What a message does\<close>

text \<open>The file of the current slot.\<close>

definition log_file :: "'x log_sys_scheme \<Rightarrow> string option" where
  "log_file s = 
     (if cl_fd (ls_log s) ! slot (ls_log s) = - 1 then None
      else fd_file (os_fds (ls_os s)) (cl_fd (ls_log s) ! slot (ls_log s)))"

definition file_text :: "os \<Rightarrow> string \<Rightarrow> string" where
  "file_text o' f = (case os_files o' f of None \<Rightarrow> [] | Some t \<Rightarrow> t)"

lemma log_fileD: "log_file s = Some f \<Longrightarrow> cl_fd (ls_log s) ! slot (ls_log s) \<noteq> - 1 \<and>
    fd_file (os_fds (ls_os s)) (cl_fd (ls_log s) ! slot (ls_log s)) = Some f"
  by (auto simp: log_file_def split: if_splits)

lemma write_slot_open:
  assumes "log_file s = Some f" "\<not> os_full (ls_os s)" "buf \<noteq> []"
  shows "write_slot buf s = (Returned (int (length buf)),
           s\<lparr>ls_os := (ls_os s)\<lparr>os_files := (os_files (ls_os s))(f \<mapsto> file_text (ls_os s) f @ buf)\<rparr>,
             ls_log := (ls_log s)\<lparr>cl_cur_file_size := (cl_cur_file_size (ls_log s))[slot (ls_log s) :=
                cl_cur_file_size (ls_log s) ! slot (ls_log s) + word_of_nat (length buf)]\<rparr>\<rparr>)"
proof -
  have "log_os (sys_append (cl_fd (ls_log s) ! slot (ls_log s)) buf) s =
      (Returned (int (length buf)), s\<lparr>ls_os := (ls_os s)\<lparr>os_files := (os_files (ls_os s))(f \<mapsto> file_text (ls_os s) f @ buf)\<rparr>\<rparr>)"
    using log_fileD[OF assms(1)] assms(2) by (simp add: log_os_def zoom_def sys_append_def file_text_def)
  with assms(3) show ?thesis
    by (simp add: write_slot_def Let_def ret_def bindP_Returned[where m = "log_os _"])
qed

lemma log_line_not_Nil: "log_line t l msg \<noteq> []"
proof -
  have "date_text t \<noteq> []" by (simp add: date_text_def)
  then show ?thesis
    by (simp add: log_line_def Let_def snprintf_def PURE_LOG_MAX_PARA_STR_LEN_def PURE_LOG_MAX_TIME_STR_LEN_def)
qed

lemma prt_run:
  assumes "l \<le> cl_log_level (ls_log s)" "cl_log_tank (ls_log s) = Some LOG_TANK_FILE"
  shows "prt l msg s = prt_file (ls_clock s (ls_ticks s)) (log_line (ls_clock s (ls_ticks s)) l msg)
           (s\<lparr>ls_ticks := Suc (ls_ticks s)\<rparr>)"
  using assms leD[OF assms(1)] by (simp add: prt_def LOG_TANK_FILE_def LOG_TANK_CONSOLE_def)

lemma prt_filtered: "\<not> l \<le> cl_log_level (ls_log s) \<Longrightarrow> prt l msg s = (Returned 0, s)"
  by (simp add: prt_def ret_def not_le)

text \<open>The same log with its one file open.\<close>

definition mem_open :: log_sys where
  "mem_open = mem_log
     \<lparr>ls_log := CLog_new\<lparr>cl_filename := ''/l'', cl_log_tank := Some LOG_TANK_FILE, cl_fd := [3, - 1], cl_pos := 0\<rparr>,
      ls_os := (ls_os mem_log)\<lparr>os_files := [''/l.log'' \<mapsto> []],
                 os_fds := [(3, ''/l.log''), (0, ''tty''), (1, ''tty''), (2, ''tty'')]\<rparr>\<rparr>"

text \<open>
  C17 (what a message does). A log with one file, open and on a disk with room, appends a message of an
  enabled level to that file as one line and changes no other file and no descriptor; a message of
  another level changes nothing.
\<close>

theorem prt_appends:
  assumes "cl_log_tank (ls_log s) = Some LOG_TANK_FILE" "cl_stratege_type (ls_log s) = PURE_LOG_CONST"
    and "log_file s = Some f" "\<not> os_full (ls_os s)"
  shows "if l \<le> cl_log_level (ls_log s)
         then \<exists>t. prt l msg s = (Returned 0, t) \<and> log_file t = Some f \<and> os_fds (ls_os t) = os_fds (ls_os s) \<and>
                os_files (ls_os t) = (os_files (ls_os s))
                  (f \<mapsto> file_text (ls_os s) f @ log_line (ls_clock s (ls_ticks s)) l msg)
         else prt l msg s = (Returned 0, s)"
proof (cases "l \<le> cl_log_level (ls_log s)")
  case True
  let ?s = "s\<lparr>ls_ticks := Suc (ls_ticks s)\<rparr>" and ?line = "log_line (ls_clock s (ls_ticks s)) l msg"
  have lf: "log_file ?s = Some f" using log_fileD[OF assms(3)] by (simp add: log_file_def)
  have full: "\<not> os_full (ls_os ?s)" using assms(4) by simp
  note w = write_slot_open[OF lf full log_line_not_Nil, of "ls_clock s (ls_ticks s)" l msg]
  have "prt l msg s = bindP (write_slot ?line) (\<lambda>_. ret 0) ?s"
    unfolding prt_run[OF True assms(1)] prt_file_def using assms(2) log_fileD[OF lf] by (simp add: renew_when_def)
  also note bindP_Returned[where m = "write_slot _", OF w]
  finally show ?thesis
    using True log_fileD[OF assms(3)] by (simp add: ret_def log_file_def)
qed (use prt_filtered in auto)

theorem prt_appends_witness:
  "\<exists>t. prt LOG_CRIT ''up'' mem_open = (Returned 0, t) \<and>
       file_text (ls_os t) ''/l.log'' = ''[2024-01-02 12-00-00][CRIT] up'' @ [CHR 0x0A]"
proof -
  have o: "cl_log_tank (ls_log mem_open) = Some LOG_TANK_FILE" "cl_stratege_type (ls_log mem_open) = PURE_LOG_CONST"
    "log_file mem_open = Some ''/l.log''" "\<not> os_full (ls_os mem_open)" "LOG_CRIT \<le> cl_log_level (ls_log mem_open)"
    "file_text (ls_os mem_open) ''/l.log'' = []" "ls_clock mem_open (ls_ticks mem_open) = noon"
    by (simp_all add: mem_open_def mem_log_def plain_os_def CLog_new_def log_file_def slot_def fd_file_def file_text_def
        less_eq_PURE_LOG_TYPE_E_def)
  have "log_line noon LOG_CRIT ''up'' = ''[2024-01-02 12-00-00][CRIT] up'' @ [CHR 0x0A]" by code_simp
  with prt_appends[OF o(1-4), of LOG_CRIT "''up''"] o(5-7) show ?thesis
    by (auto simp: file_text_def)
qed

section \<open>Changing the file\<close>

definition file_name :: "CLog \<Rightarrow> tm \<Rightarrow> string option" where
  "file_name c t =
     (case cl_stratege_type c of
        PURE_LOG_TIME \<Rightarrow> Some (cl_filename c @ ''_'' @ snprintf PURE_LOG_MAX_TIME_STR_LEN (suffix_text t) @ ''.log'')
      | PURE_LOG_SPACE \<Rightarrow> map_option (\<lambda>i. cl_filename c @ ''_'' @ int_dec i @ ''.log'') (file_index c)
      | PURE_LOG_CONST \<Rightarrow> Some (cl_filename c @ ''.log''))"

lemma new_file_eq:
  assumes "cl_busy (ls_log s) = 0"
  defines "s' \<equiv> s\<lparr>ls_log := (ls_log s)\<lparr>cl_busy := 1\<rparr>, ls_ticks := Suc (ls_ticks s)\<rparr>"
  shows "new_file s =
     (case file_name (ls_log s) (ls_clock s (ls_ticks s)) of
        None \<Rightarrow> (Undefined, s')
      | Some name \<Rightarrow> open_slot name (ls_clock s (ls_ticks s)) s')"
  using assms(1)
  by (simp add: new_file_def s'_def file_name_def file_index_def Let_def stop_with_def split: PURE_LOG_STRATEGE_TYPE_E.split)

lemma slot_closed_keeps: "os_files (slot_closed s) = os_files (ls_os s)" "os_denied (slot_closed s) = os_denied (ls_os s)"
    "os_full (slot_closed s) = os_full (ls_os s)"
  by (auto simp: slot_closed_def Let_def sys_close_def drop_lock_def split: option.split)

text \<open>\<open>new_file\<close> when it returns: it failed, or the other slot is open and current.\<close>

lemma new_file_cases:
  assumes "cl_busy (ls_log s) = 0" "log_core B s" "new_file s = (Returned v, t)"
  defines "c \<equiv> ls_log s"
  obtains (failed) f where "file_name c (ls_clock s (ls_ticks s)) = Some f"
      "os_denied (ls_os s) (snprintf PURE_LOG_MAX_FILE_NAME_LEN f)" "v = FAILURE"
      "ls_log t = c\<lparr>cl_fd := (cl_fd c)[next_slot c := - 1], cl_busy := 0\<rparr>"
      "os_files (ls_os t) = os_files (ls_os s)" "os_full (ls_os t) = os_full (ls_os s)"
    | (opened) f fd where "file_name c (ls_clock s (ls_ticks s)) = Some f"
      "\<not> os_denied (ls_os s) (snprintf PURE_LOG_MAX_FILE_NAME_LEN f)" "v = SUCCESS" "0 \<le> fd"
      "ls_log t = c\<lparr>cl_fd := (cl_fd c)[next_slot c := fd],
           cl_cur_filetime := (cl_cur_filetime c)[next_slot c := ls_clock s (ls_ticks s)],
           cl_cur_file_size := (cl_cur_file_size c)[next_slot c := 0], cl_pos := cl_pos c + 1, cl_busy := 0\<rparr>"
      "log_file t = Some (snprintf PURE_LOG_MAX_FILE_NAME_LEN f)"
      "os_files (ls_os t) = (if os_files (ls_os s) (snprintf PURE_LOG_MAX_FILE_NAME_LEN f) = None
           then (os_files (ls_os s))(snprintf PURE_LOG_MAX_FILE_NAME_LEN f \<mapsto> []) else os_files (ls_os s))"
      "os_full (ls_os t) = os_full (ls_os s)"
proof -
  let ?s = "s\<lparr>ls_log := (ls_log s)\<lparr>cl_busy := 1\<rparr>, ls_ticks := Suc (ls_ticks s)\<rparr>"
  obtain f where f: "file_name c (ls_clock s (ls_ticks s)) = Some f" "open_slot f (ls_clock s (ls_ticks s)) ?s = (Returned v, t)"
    using assms(3) unfolding new_file_eq[OF assms(1)] c_def by (cases "file_name (ls_log s) (ls_clock s (ls_ticks s))") auto
  have n: "next_slot (ls_log ?s) = next_slot c" "slot (ls_log ?s) = slot c"
    by (simp_all add: next_slot_def slot_def c_def)
  have len: "length (cl_fd c) = 2" using assms(2) by (simp add: log_core_def c_def)
  show thesis
  proof (cases "os_denied (slot_closed ?s) (snprintf PURE_LOG_MAX_FILE_NAME_LEN f)")
    case True
    from open_slot_denied[OF this, of "ls_clock s (ls_ticks s)"] f(2) True show thesis
      by (intro failed[OF f(1)]) (auto simp: slot_closed_keeps n c_def)
  next
    case False
    have gt: "0 \<le> fresh_fd (os_fds (slot_closed ?s))" by (rule fresh_fd_nonneg)
    from open_slot_granted[OF False, of "ls_clock s (ls_ticks s)"] f(2) have t: "v = SUCCESS"
      "t = ?s\<lparr>ls_log := (ls_log ?s)\<lparr>cl_fd := (cl_fd (ls_log ?s))[next_slot (ls_log ?s) := fresh_fd (os_fds (slot_closed ?s))],
             cl_cur_filetime := (cl_cur_filetime (ls_log ?s))[next_slot (ls_log ?s) := ls_clock s (ls_ticks s)],
             cl_cur_file_size := (cl_cur_file_size (ls_log ?s))[next_slot (ls_log ?s) := 0], cl_pos := cl_pos (ls_log ?s) + 1, cl_busy := 0\<rparr>,
         ls_os := (slot_closed ?s)\<lparr>os_files := (if os_files (slot_closed ?s) (snprintf PURE_LOG_MAX_FILE_NAME_LEN f) = None
             then (os_files (slot_closed ?s))(snprintf PURE_LOG_MAX_FILE_NAME_LEN f \<mapsto> []) else os_files (slot_closed ?s)),
           os_fds := (fresh_fd (os_fds (slot_closed ?s)), snprintf PURE_LOG_MAX_FILE_NAME_LEN f) # os_fds (slot_closed ?s)\<rparr>\<rparr>"
      by simp_all
    have sl: "slot (ls_log t) = next_slot c" by (rule slot_eqI(2)) (simp add: t(2) c_def)
    show thesis
    proof (rule opened[OF f(1)])
      show "log_file t = Some (snprintf PURE_LOG_MAX_FILE_NAME_LEN f)"
        unfolding log_file_def sl using gt len slot_next(3)[of c] by (simp add: t(2) n c_def[symmetric] fd_file_def)
    qed (use False gt t(1) in \<open>auto simp: t(2) slot_closed_keeps n c_def[symmetric]\<close>)
  qed
qed

text \<open>
  A new file is not an empty one. When \<open>new_file\<close> succeeds, a file is open in the new current
  slot, every file still has the contents it had, and the counter of the current file is 0, whatever
  the file holds.
\<close>

theorem rotation_keeps_contents:
  assumes "log_ok B s" "new_file s = (Returned SUCCESS, t)"
  shows "\<exists>f. log_file t = Some f \<and> cl_cur_file_size (ls_log t) ! slot (ls_log t) = 0 \<and>
           (\<forall>g. file_text (ls_os t) g = file_text (ls_os s) g)"
proof -
  have c: "cl_busy (ls_log s) = 0" "log_core B s" using assms(1) by (simp_all add: log_ok_def)
  have len: "next_slot (ls_log s) < length (cl_cur_file_size (ls_log s))"
    using c(2) slot_next(3)[of "ls_log s"] by (simp add: log_core_def)
  from c assms(2) show ?thesis
  proof (cases rule: new_file_cases)
    case (failed f)
    then show ?thesis by (simp add: SUCCESS_def FAILURE_def)
  next
    case (opened f fd)
    have "slot (ls_log t) = next_slot (ls_log s)" by (rule slot_eqI(2)) (simp add: opened(5))
    then have "cl_cur_file_size (ls_log t) ! slot (ls_log t) = 0" using opened(5) len by simp
    moreover have "\<forall>g. file_text (ls_os t) g = file_text (ls_os s) g"
      unfolding file_text_def opened(7) by (auto split: option.split)
    ultimately show ?thesis using opened(6) by blast
  qed
qed

theorem rotation_keeps_contents_witness:
  "\<exists>t. new_file mem_open = (Returned SUCCESS, t) \<and> cl_cur_file_size (ls_log t) ! slot (ls_log t) = 0"
proof -
  have ok: "log_ok {0, 1, 2} mem_open"
    by (auto simp: log_ok_def log_core_def mem_open_def mem_log_def plain_os_def CLog_new_def)
  have "new_file mem_open = (Returned SUCCESS, snd (new_file mem_open))"
    by (simp add: new_file_eq mem_open_def mem_log_def CLog_new_def file_name_def open_slot_def next_slot_def ret_def
        bindP_open plain_os_def fresh_fd_def Let_def)
  from this rotation_keeps_contents[OF ok this] show ?thesis by blast
qed

section \<open>The length of a line\<close>

definition tm_ok :: "tm \<Rightarrow> bool" where
  "tm_ok t \<longleftrightarrow> - 1900 \<le> tm_year t \<and> tm_year t < 8100 \<and> 0 \<le> tm_mon t \<and> tm_mon t < 12 \<and> 0 < tm_mday t \<and> tm_mday t < 32 \<and>
     0 \<le> tm_hour t \<and> tm_hour t < 24 \<and> 0 \<le> tm_min t \<and> tm_min t < 60 \<and> 0 \<le> tm_sec t \<and> tm_sec t < 61"

lemma length_dec_pad: "0 \<le> i \<Longrightarrow> i < 10 ^ w \<Longrightarrow> 0 < w \<Longrightarrow> length (dec_pad w i) = w"
proof -
  assume a: "0 \<le> i" "i < 10 ^ w" "0 < w"
  then have "nat i < 10 ^ w" by (simp add: nat_less_iff)
  then have "length (nat_dec (nat i)) \<le> w" using a(3) by (rule length_nat_dec_le)
  then show ?thesis using a(1) by (simp add: dec_pad_def)
qed

lemma length_date_text: "tm_ok t \<Longrightarrow> length (date_text t) = 21"
  by (simp add: date_text_def tm_ok_def length_dec_pad)

lemma length_snprintf_le: "length (snprintf n x) \<le> length x"
  by (simp add: snprintf_def)

lemma length_log_line:
  assumes "tm_ok t"
  shows "length (log_line t l msg) \<le> 541"
proof -
  have "length (snprintf PURE_LOG_MAX_PARA_STR_LEN msg) < 512"
    using length_snprintf[of PURE_LOG_MAX_PARA_STR_LEN msg] by (simp add: PURE_LOG_MAX_PARA_STR_LEN_def)
  moreover have "length (snprintf PURE_LOG_MAX_TIME_STR_LEN (date_text t)) = 21"
    using length_date_text[OF assms] by (simp add: snprintf_def PURE_LOG_MAX_TIME_STR_LEN_def)
  moreover have "length (lvl l) \<le> 5" by (cases l) simp_all
  ultimately have "length (snprintf PURE_LOG_MAX_TIME_STR_LEN (date_text t) @ ''['' @ lvl l @ ''] '' @
      snprintf PURE_LOG_MAX_PARA_STR_LEN msg @ [CHR 0x0A]) \<le> 541" by simp
  with length_snprintf_le show ?thesis unfolding log_line_def Let_def by (rule order_trans)
qed

section \<open>Files limited by size\<close>

definition space_ok :: "int set \<Rightarrow> 'x log_sys_scheme \<Rightarrow> bool" where
  "space_ok B s \<longleftrightarrow>
     log_ok B s \<and> cl_stratege_type (ls_log s) = PURE_LOG_SPACE \<and> cl_log_tank (ls_log s) = Some LOG_TANK_FILE \<and>
     512 < unat (cl_max_file_size (ls_log s)) \<and> unat (cl_max_file_size (ls_log s)) + 28 < 2 ^ 32 \<and>
     (\<forall>i<2. unat (cl_cur_file_size (ls_log s) ! i) \<le> unat (cl_max_file_size (ls_log s)) + 28)"

lemma has_room_iff:
  assumes "512 < unat (cl_max_file_size c)"
  shows "has_room c \<longleftrightarrow> unat (cl_cur_file_size c ! slot c) < unat (cl_max_file_size c) - 512"
proof -
  have "unat (cl_max_file_size c - 512) = unat (cl_max_file_size c) - 512"
    using assms by (simp add: unat_sub word_le_nat_alt)
  then show ?thesis by (simp add: has_room_def PURE_LOG_MAX_PARA_STR_LEN_def word_less_nat_alt)
qed

lemma space_new_file:
  assumes "space_ok B s" "new_file s = (Returned v, t)" "v \<noteq> FAILURE"
  shows "space_ok B t \<and> has_room (ls_log t) \<and> cl_max_file_size (ls_log t) = cl_max_file_size (ls_log s)"
proof -
  have c: "cl_busy (ls_log s) = 0" "log_core B s" using assms(1) by (simp_all add: space_ok_def log_ok_def)
  have len: "length (cl_cur_file_size (ls_log s)) = 2" using c(2) by (simp add: log_core_def)
  have ok: "log_ok B t" using assms(1,2) carriesD[OF carries_new_file] by (auto simp: space_ok_def)
  from c assms(2) show ?thesis
  proof (cases rule: new_file_cases)
    case (failed f)
    then show ?thesis using assms(3) by simp
  next
    case (opened f fd)
    have sl: "slot (ls_log t) = next_slot (ls_log s)" by (rule slot_eqI(2)) (simp add: opened(5))
    have z: "cl_cur_file_size (ls_log t) ! slot (ls_log t) = 0"
      unfolding sl using opened(5) len slot_next(3)[of "ls_log s"] by simp
    have "has_room (ls_log t)"
      using assms(1) opened(5) z by (subst has_room_iff) (auto simp: space_ok_def)
    moreover have "space_ok B t"
      using assms(1) ok opened(5) len slot_next(3)[of "ls_log s"] by (auto simp: space_ok_def nth_list_update)
    ultimately show ?thesis using opened(5) by simp
  qed
qed

lemma space_failed:
  assumes "space_ok B s" "new_file s = (Returned FAILURE, t)"
  shows "space_ok B t \<and> cl_max_file_size (ls_log t) = cl_max_file_size (ls_log s)"
proof -
  have c: "cl_busy (ls_log s) = 0" "log_core B s" using assms(1) by (simp_all add: space_ok_def log_ok_def)
  have ok: "log_ok B t" using assms carriesD[OF carries_new_file] by (auto simp: space_ok_def)
  from c assms(2) show ?thesis
  proof (cases rule: new_file_cases)
    case (failed f)
    then show ?thesis using assms(1) ok by (simp add: space_ok_def)
  next
    case (opened f fd)
    then show ?thesis by (simp add: SUCCESS_def FAILURE_def)
  qed
qed

lemma space_write:
  assumes "space_ok B s" "has_room (ls_log s)" "length buf \<le> 541" "write_slot buf s = (Returned v, t)"
  shows "space_ok B t \<and> cl_max_file_size (ls_log t) = cl_max_file_size (ls_log s)"
proof -
  let ?c = "ls_log s" and ?i = "slot (ls_log s)"
  have ok: "log_ok B t" using assms(1,4) carriesD[OF carries_write_slot] by (auto simp: space_ok_def)
  have m: "512 < unat (cl_max_file_size ?c)" "unat (cl_max_file_size ?c) + 28 < 2 ^ 32"
    using assms(1) by (simp_all add: space_ok_def)
  have room: "unat (cl_cur_file_size ?c ! ?i) < unat (cl_max_file_size ?c) - 512"
    using assms(2) has_room_iff[OF m(1)] by simp
  obtain rv o' where a: "sys_append (cl_fd ?c ! ?i) buf (ls_os s) = (Returned rv, o')" "rv = - 1 \<or> rv = int (length buf)"
    by (cases "fd_file (os_fds (ls_os s)) (cl_fd ?c ! ?i)"; cases "os_full (ls_os s)") (auto simp: sys_append_def)
  have "log_os (sys_append (cl_fd ?c ! ?i) buf) s = (Returned rv, s\<lparr>ls_os := o'\<rparr>)" using a(1) by (simp add: log_os_def zoom_def)
  then have t: "t = (if 0 < rv then s\<lparr>ls_os := o', ls_log := ?c\<lparr>cl_cur_file_size := (cl_cur_file_size ?c)[?i := cl_cur_file_size ?c ! ?i + word_of_int rv]\<rparr>\<rparr>
      else s\<lparr>ls_os := o'\<rparr>)"
    using assms(4) by (auto simp: write_slot_def Let_def ret_def bindP_Returned[where m = "log_os _"] split: if_splits)
  have "unat (cl_cur_file_size ?c ! ?i + word_of_int (int (length buf))) \<le> unat (cl_cur_file_size ?c ! ?i) + length buf"
  proof -
    have "unat (cl_cur_file_size ?c ! ?i + word_of_nat (length buf)) =
        (unat (cl_cur_file_size ?c ! ?i) + length buf) mod 2 ^ 32"
      by (simp add: unat_word_ariths unat_of_nat mod_simps)
    then show ?thesis by simp
  qed
  then have "unat (cl_cur_file_size ?c ! ?i + word_of_int (int (length buf))) \<le> unat (cl_max_file_size ?c) + 28"
    using room m assms(3) by linarith
  moreover have "length (cl_cur_file_size ?c) = 2" using assms(1) by (simp add: space_ok_def log_ok_def log_core_def)
  ultimately have new: "\<forall>j<2. unat ((cl_cur_file_size ?c)[?i := cl_cur_file_size ?c ! ?i + word_of_int (int (length buf))] ! j)
      \<le> unat (cl_max_file_size ?c) + 28"
    using assms(1) slot_next(2)[of ?c] by (simp add: space_ok_def nth_list_update)
  have old: "\<forall>j<2. unat (cl_cur_file_size ?c ! j) \<le> unat (cl_max_file_size ?c) + 28"
    and rest: "cl_stratege_type ?c = PURE_LOG_SPACE" "cl_log_tank ?c = Some LOG_TANK_FILE"
    using assms(1) by (simp_all add: space_ok_def)
  show ?thesis
  proof (cases "0 < rv")
    case True
    then have rv: "rv = int (length buf)" using a(2) by auto
    show ?thesis unfolding space_ok_def using ok new m rest True unfolding t rv by simp
  next
    case False
    then show ?thesis unfolding space_ok_def using ok old m rest unfolding t by simp
  qed
qed

lemma bindP_getP_fun: "bindP (getP f) k = (\<lambda>r. k (f r) r)"
  by (rule ext) simp

text \<open>A renewal, then \<open>k\<close>: the bound survives a failed renewal, and a successful one makes room.\<close>

lemma space_renew:
  assumes "space_ok B r \<and> cl_max_file_size (ls_log r) = M" "renew_when c k r = (Returned x, u)"
    and "\<And>q. space_ok B q \<and> cl_max_file_size (ls_log q) = M \<Longrightarrow> (if c then has_room (ls_log q) else q = r) \<Longrightarrow>
           k q = (Returned x, u) \<Longrightarrow> space_ok B u \<and> cl_max_file_size (ls_log u) = M"
  shows "space_ok B u \<and> cl_max_file_size (ls_log u) = M"
proof (cases c)
  case False
  then show ?thesis using assms(3)[OF assms(1)] assms(2) by (simp add: renew_when_def)
next
  case True
  then obtain y q where q: "new_file r = (Returned y, q)" "if y = FAILURE then u = q else k q = (Returned x, u)"
    using assms(2) by (auto simp: renew_when_def bindP_eq_Returned ret_def split: if_splits)
  show ?thesis
  proof (cases "y = FAILURE")
    case True
    then show ?thesis using q space_failed[of B r q] assms(1) by simp
  next
    case False
    then have "space_ok B q \<and> cl_max_file_size (ls_log q) = M" "has_room (ls_log q)" "k q = (Returned x, u)"
      using space_new_file[of B r y q] assms(1) q by simp_all
    then show ?thesis using \<open>c\<close> by (intro assms(3)[of q]) simp_all
  qed
qed

lemma space_renew_write:
  assumes "space_ok B r \<and> cl_max_file_size (ls_log r) = M" "length buf \<le> 541"
    and "renew_when (\<not> has_room (ls_log r)) (write_slot buf) r = (Returned x, u)"
  shows "space_ok B u \<and> cl_max_file_size (ls_log u) = M"
  using assms(1,3)
proof (rule space_renew)
  fix q assume "space_ok B q \<and> cl_max_file_size (ls_log q) = M" "write_slot buf q = (Returned x, u)"
    and "if \<not> has_room (ls_log r) then has_room (ls_log q) else q = r"
  then show "space_ok B u \<and> cl_max_file_size (ls_log u) = M"
    using space_write[of B q buf x u] assms(2) by (auto split: if_splits)
qed

text \<open>
  C25 (a file passes its limit by at most 28 bytes). A log limited by size keeps both byte counters at
  or below the limit plus 28 with every message, whatever its text, the clock showing a date of four
  digits in the year, and the limit being at least 513 and 28 below the range of 32 bits.
\<close>

theorem prt_space_bound:
  assumes "space_ok B s" "\<And>n. tm_ok (ls_clock s n)" "prt l msg s = (Returned v, t)"
  shows "space_ok B t \<and> (\<forall>i<2. unat (cl_cur_file_size (ls_log t) ! i) \<le> unat (cl_max_file_size (ls_log s)) + 28)"
proof (cases "l \<le> cl_log_level (ls_log s)")
  case False
  then have "t = s" using assms(3) prt_filtered[OF False] by simp
  then show ?thesis using assms(1) by (simp add: space_ok_def)
next
  case True
  let ?buf = "log_line (ls_clock s (ls_ticks s)) l msg" and ?s = "s\<lparr>ls_ticks := Suc (ls_ticks s)\<rparr>"
  have buf: "length ?buf \<le> 541" using assms(2) by (rule length_log_line)
  have s: "space_ok B ?s \<and> cl_max_file_size (ls_log ?s) = cl_max_file_size (ls_log s)"
    using assms(1) by (simp add: space_ok_def log_ok_def log_core_def)
  have strat: "cl_stratege_type (ls_log s) = PURE_LOG_SPACE" "cl_log_tank (ls_log s) = Some LOG_TANK_FILE"
    using assms(1) by (simp_all add: space_ok_def)
  have run: "renew_when (cl_fd (ls_log s) ! slot (ls_log s) = - 1)
      (\<lambda>r. renew_when (\<not> has_room (ls_log r)) (write_slot ?buf) r) ?s = (Returned v, t)"
    using assms(3) unfolding prt_run[OF True strat(2)] prt_file_def
    by (simp add: strat(1) bindP_getP_fun)
  have "space_ok B t \<and> cl_max_file_size (ls_log t) = cl_max_file_size (ls_log s)"
    using s run by (rule space_renew) (rule space_renew_write[OF _ buf])
  then show ?thesis by (auto simp: space_ok_def)
qed

definition mem_space :: "32 word \<Rightarrow> 32 word \<Rightarrow> log_sys" where
  "mem_space n limit =
     mem_open\<lparr>ls_log := (ls_log mem_open)\<lparr>cl_stratege_type := PURE_LOG_SPACE, cl_max_file_size := limit, cl_cur_file_size := [n, 0]\<rparr>\<rparr>"

lemma mem_space_simps:
  "cl_log_tank (ls_log (mem_space n m)) = Some LOG_TANK_FILE" "cl_stratege_type (ls_log (mem_space n m)) = PURE_LOG_SPACE"
  "log_file (mem_space n m) = Some ''/l.log''" "\<not> os_full (ls_os (mem_space n m))" "l \<le> cl_log_level (ls_log (mem_space n m))"
  "ls_clock (mem_space n m) k = noon" "slot (ls_log (mem_space n m)) = 0" "cl_cur_file_size (ls_log (mem_space n m)) = [n, 0]"
  "cl_max_file_size (ls_log (mem_space n m)) = m"
  by (cases l; simp add: mem_space_def mem_open_def mem_log_def plain_os_def CLog_new_def log_file_def slot_def fd_file_def
        less_eq_PURE_LOG_TYPE_E_def)+

text \<open>A log whose file has room: the message goes to the file that is open.\<close>

lemma prt_space_room:
  fixes msg :: string and l :: PURE_LOG_TYPE_E
  assumes "cl_log_tank (ls_log s) = Some LOG_TANK_FILE" "cl_stratege_type (ls_log s) = PURE_LOG_SPACE"
    and "log_file s = Some f" "\<not> os_full (ls_os s)" "l \<le> cl_log_level (ls_log s)" "has_room (ls_log s)"
  defines "buf \<equiv> log_line (ls_clock s (ls_ticks s)) l msg"
  shows "prt l msg s = (Returned (int (length buf)),
           s\<lparr>ls_ticks := Suc (ls_ticks s),
             ls_os := (ls_os s)\<lparr>os_files := (os_files (ls_os s))(f \<mapsto> file_text (ls_os s) f @ buf)\<rparr>,
             ls_log := (ls_log s)\<lparr>cl_cur_file_size := (cl_cur_file_size (ls_log s))[slot (ls_log s) :=
                cl_cur_file_size (ls_log s) ! slot (ls_log s) + word_of_nat (length buf)]\<rparr>\<rparr>)"
proof -
  let ?s = "s\<lparr>ls_ticks := Suc (ls_ticks s)\<rparr>"
  have lf: "log_file ?s = Some f" and full: "\<not> os_full (ls_os ?s)"
    using log_fileD[OF assms(3)] assms(4) by (simp_all add: log_file_def)
  note w = write_slot_open[OF lf full log_line_not_Nil, of "ls_clock s (ls_ticks s)" l msg, folded buf_def]
  have "prt l msg s = write_slot buf ?s"
    unfolding prt_run[OF assms(5,1)] prt_file_def buf_def
    using assms(2,6) log_fileD[OF lf] by (simp add: renew_when_def)
  with w show ?thesis by simp
qed

theorem prt_space_bound_witness:
  "\<exists>t. prt LOG_CRIT (replicate 600 (CHR ''x'')) (mem_space 4487 5000) = (Returned 540, t) \<and>
       cl_cur_file_size (ls_log t) ! 0 = 5027 \<and> (\<forall>i<2. unat (cl_cur_file_size (ls_log t) ! i) \<le> 5028)"
proof -
  let ?s = "mem_space 4487 5000" and ?m = "replicate 600 (CHR ''x'')"
  have "log_ok {0, 1, 2} ?s"
    by (auto simp: log_ok_def log_core_def mem_space_def mem_open_def mem_log_def plain_os_def CLog_new_def)
  then have ok: "space_ok {0, 1, 2} ?s"
    by (auto simp: space_ok_def mem_space_simps less_2_cases_iff)
  have tm: "tm_ok (ls_clock ?s n)" for n by (simp add: mem_space_simps tm_ok_def noon_def)
  have room: "has_room (ls_log ?s)"
    by (subst has_room_iff) (simp_all add: mem_space_simps)
  have len: "length (log_line noon LOG_CRIT ?m) = 540" by code_simp
  obtain t where t: "prt LOG_CRIT ?m ?s = (Returned 540, t)" "cl_cur_file_size (ls_log t) = [5027, 0]"
    using prt_space_room[OF mem_space_simps(1-5) room, of LOG_CRIT ?m] by (simp add: mem_space_simps len)
  with prt_space_bound[OF ok tm t(1)] show ?thesis by (simp add: mem_space_simps)
qed

text \<open>
  A small limit is no limit. With a limit below 512 the unsigned subtraction in the test for room
  wraps: as long as the counter is below \<open>2 ^ 32 - 512 + limit\<close>, a message is appended to the open
  file, which stays the current one.
\<close>

theorem small_limit_never_rotates:
  assumes "cl_log_tank (ls_log s) = Some LOG_TANK_FILE" "cl_stratege_type (ls_log s) = PURE_LOG_SPACE"
    and "log_file s = Some f" "\<not> os_full (ls_os s)" "l \<le> cl_log_level (ls_log s)"
    and "unat (cl_max_file_size (ls_log s)) < 512"
    and "unat (cl_cur_file_size (ls_log s) ! slot (ls_log s)) < 2 ^ 32 - 512 + unat (cl_max_file_size (ls_log s))"
  shows "\<exists>n t. prt l msg s = (Returned n, t) \<and> 0 < n \<and> log_file t = Some f \<and> cl_fd (ls_log t) = cl_fd (ls_log s) \<and>
           file_text (ls_os t) f = file_text (ls_os s) f @ log_line (ls_clock s (ls_ticks s)) l msg"
proof -
  let ?max = "cl_max_file_size (ls_log s)" and ?buf = "log_line (ls_clock s (ls_ticks s)) l msg"
  have small: "0 \<le> uint ?max" "uint ?max < 512"
    using assms(6) uint_nat[of ?max] by linarith+
  have "uint (?max - 512) = (uint ?max - 512) mod 2 ^ 32" by (simp add: uint_word_ariths)
  also have "\<dots> = (uint ?max - 512 + 2 ^ 32) mod 2 ^ 32" by (simp only: mod_add_self2)
  also have "\<dots> = uint ?max - 512 + 2 ^ 32"
    by (rule mod_pos_pos_trivial) (use small in simp_all)
  finally have u: "uint (?max - 512) = uint ?max - 512 + 2 ^ 32" .
  have "uint (cl_cur_file_size (ls_log s) ! slot (ls_log s)) < 4294966784 + uint ?max"
    using assms(7)[simplified] uint_nat[of ?max] uint_nat[of "cl_cur_file_size (ls_log s) ! slot (ls_log s)"] by linarith
  then have "has_room (ls_log s)"
    using u by (simp add: has_room_def PURE_LOG_MAX_PARA_STR_LEN_def word_less_def)
  note r = prt_space_room[OF assms(1-5) this, of msg]
  have "0 < int (length ?buf)" using log_line_not_Nil by simp
  with r show ?thesis using log_fileD[OF assms(3)]
    by (intro exI[of _ "int (length ?buf)"] exI[of _ "snd (prt l msg s)"]) (simp add: log_file_def file_text_def)
qed

theorem small_limit_never_rotates_witness:
  "\<exists>n t. prt LOG_CRIT ''up'' (mem_space 70000 100) = (Returned n, t) \<and> log_file t = Some ''/l.log''"
  using small_limit_never_rotates[OF mem_space_simps(1-5), of 70000 100 LOG_CRIT "''up''"]
  by (auto simp: mem_space_simps)

section \<open>Files changed by time\<close>

text \<open>The message that changes the file goes to the end of the new one.\<close>

lemma renewed_write:
  assumes "cl_stratege_type (ls_log s) = PURE_LOG_TIME" "log_ok B s" "\<not> os_full (ls_os s)" "\<And>g. \<not> os_denied (ls_os s) g"
  shows "\<exists>n t g. renew_when True (write_slot (log_line c l msg)) s = (Returned n, t) \<and>
           cl_pos (ls_log t) = cl_pos (ls_log s) + 1 \<and> log_file t = Some g \<and>
           file_text (ls_os t) g = file_text (ls_os s) g @ log_line c l msg"
proof -
  have ok: "cl_busy (ls_log s) = 0" "log_core B s" using assms(2) by (simp_all add: log_ok_def)
  obtain name where nm: "file_name (ls_log s) (ls_clock s (ls_ticks s)) = Some name"
    using assms(1) by (simp add: file_name_def)
  obtain v q where q: "new_file s = (Returned v, q)"
    using nm open_slot_granted[of "s\<lparr>ls_log := (ls_log s)\<lparr>cl_busy := 1\<rparr>, ls_ticks := Suc (ls_ticks s)\<rparr>" name] assms(4)
    unfolding new_file_eq[OF ok(1)] by (simp add: slot_closed_keeps)
  from ok q show ?thesis
  proof (cases rule: new_file_cases)
    case (failed h)
    then show ?thesis using assms(4) by simp
  next
    case (opened h fd)
    let ?g = "snprintf PURE_LOG_MAX_FILE_NAME_LEN h" and ?buf = "log_line c l msg"
    have fq: "\<not> os_full (ls_os q)" using opened(8) assms(3) by simp
    note w = write_slot_open[OF opened(6) fq log_line_not_Nil, of c l msg]
    have tx: "file_text (ls_os q) ?g = file_text (ls_os s) ?g"
      unfolding file_text_def opened(7) by simp
    have "renew_when True (write_slot ?buf) s = write_slot ?buf q"
      using q opened(3) by (simp add: renew_when_def bindP_def SUCCESS_def FAILURE_def)
    moreover have "cl_pos (ls_log q) = cl_pos (ls_log s) + 1" using opened(5) by simp
    ultimately show ?thesis using w tx log_fileD[OF opened(6)]
      by (intro exI[of _ "int (length ?buf)"] exI[of _ "snd (write_slot ?buf q)"] exI[of _ ?g])
        (simp add: log_file_def file_text_def)
  qed
qed

text \<open>
  A file per day of the month. On a log set by \<open>set_log_out_by_time\<close> with an argument that is not
  positive, with a file open, a message changes the file exactly if the day of the month differs from
  that of the file, whatever the hour, the month and the year; the message is the end of the current file.
\<close>

theorem daily_log_ignores_hours:
  assumes "set_log_out_by_time i s0 = (Returned 0, s)" "i \<le> 0" "log_ok B s"
    and "cl_log_tank (ls_log s) = Some LOG_TANK_FILE" "l \<le> cl_log_level (ls_log s)"
    and "log_file s = Some f" "\<not> os_full (ls_os s)" "\<And>g. \<not> os_denied (ls_os s) g"
  shows "\<exists>n t g. prt l msg s = (Returned n, t) \<and>
           cl_pos (ls_log t) = (if tm_mday (cl_cur_filetime (ls_log s) ! slot (ls_log s)) = tm_mday (ls_clock s (ls_ticks s))
                                then cl_pos (ls_log s) else cl_pos (ls_log s) + 1) \<and>
           log_file t = Some g \<and>
           file_text (ls_os t) g = file_text (ls_os s) g @ log_line (ls_clock s (ls_ticks s)) l msg"
proof -
  let ?buf = "log_line (ls_clock s (ls_ticks s)) l msg" and ?s = "s\<lparr>ls_ticks := Suc (ls_ticks s)\<rparr>"
  have strat: "cl_stratege_type (ls_log s) = PURE_LOG_TIME" "cl_time_stratege_type (ls_log s) = DAY"
    using assms(1,2) by (auto simp: set_log_out_by_time_def ret_def)
  have lf: "log_file ?s = Some f" and full: "\<not> os_full (ls_os ?s)"
    using log_fileD[OF assms(6)] assms(7) by (simp_all add: log_file_def)
  have run: "prt l msg s = renew_when (time_cut (ls_log s) (ls_clock s (ls_ticks s))) (write_slot ?buf) ?s"
    unfolding prt_run[OF assms(5,4)] prt_file_def using strat log_fileD[OF lf] by (simp add: renew_when_def[of False])
  have cut: "time_cut (ls_log s) (ls_clock s (ls_ticks s)) \<longleftrightarrow>
      tm_mday (cl_cur_filetime (ls_log s) ! slot (ls_log s)) \<noteq> tm_mday (ls_clock s (ls_ticks s))"
    using strat by (simp add: time_cut_def)
  show ?thesis
  proof (cases "time_cut (ls_log s) (ls_clock s (ls_ticks s))")
    case False
    note w = write_slot_open[OF lf full log_line_not_Nil, of "ls_clock s (ls_ticks s)" l msg]
    show ?thesis using run w False cut log_fileD[OF assms(6)]
      by (intro exI[of _ "int (length ?buf)"] exI[of _ "snd (write_slot ?buf ?s)"] exI[of _ f])
        (simp add: renew_when_def log_file_def file_text_def)
  next
    case True
    have "log_ok B ?s" using assms(3) by (simp add: log_ok_def log_core_def)
    from renewed_write[OF _ this, of "ls_clock s (ls_ticks s)" l msg] strat(1) assms(7,8)
    show ?thesis using run True cut by (simp add: if_not_P)
  qed
qed

theorem daily_log_ignores_hours_witness:
  "\<exists>n t g. prt LOG_CRIT ''up'' (mem_open\<lparr>ls_log := (ls_log mem_open)\<lparr>cl_stratege_type := PURE_LOG_TIME,
       cl_time_stratege_type := DAY\<rparr>\<rparr>) = (Returned n, t) \<and> cl_pos (ls_log t) = 1 \<and> log_file t = Some g"
proof -
  let ?s = "mem_open\<lparr>ls_log := (ls_log mem_open)\<lparr>cl_stratege_type := PURE_LOG_TIME, cl_time_stratege_type := DAY\<rparr>\<rparr>"
  have a: "set_log_out_by_time (- 1) mem_open = (Returned 0, ?s)"
    by (simp add: set_log_out_by_time_def ret_def)
  have b: "log_ok {0, 1, 2} ?s"
    by (auto simp: log_ok_def log_core_def mem_open_def mem_log_def plain_os_def CLog_new_def)
  have c: "cl_log_tank (ls_log ?s) = Some LOG_TANK_FILE" "LOG_CRIT \<le> cl_log_level (ls_log ?s)"
    "log_file ?s = Some ''/l.log''" "\<not> os_full (ls_os ?s)" "\<And>g. \<not> os_denied (ls_os ?s) g"
    "tm_mday (cl_cur_filetime (ls_log ?s) ! slot (ls_log ?s)) = 0" "tm_mday (ls_clock ?s (ls_ticks ?s)) = 2" "cl_pos (ls_log ?s) = 0"
    by (simp_all add: mem_open_def mem_log_def plain_os_def CLog_new_def log_file_def slot_def fd_file_def
        less_eq_PURE_LOG_TYPE_E_def tm_zero_def noon_def)
  show ?thesis using daily_log_ignores_hours[OF a _ b c(1-5), of "''up''"] unfolding c(6-8) by auto
qed

section \<open>Logging always returns\<close>

text \<open>
  A log cut by time, its output chosen: \<open>M\<close> is the rest of the program's state, \<open>B\<close> the system at the
  beginning.
\<close>

definition log_frame :: "int \<Rightarrow> 'x \<Rightarrow> os \<Rightarrow> 'x log_sys_scheme \<Rightarrow> bool" where
  "log_frame T M B s \<longleftrightarrow>
     cl_log_tank (ls_log s) = Some T \<and> cl_stratege_type (ls_log s) = PURE_LOG_TIME \<and> log_sys.more s = M \<and>
     os_kept B (ls_os s)"

lemma yields_mod_log:
  assumes "\<And>c. cl_log_tank (f c) = cl_log_tank c \<and> cl_stratege_type (f c) = cl_stratege_type c"
  shows "yields (log_frame T M B) (mod_log f) (log_frame T M B)"
  using assms by (auto simp: yields_def mod_log_def modP_def log_frame_def)

lemma yields_log_basic:
  "yields (log_frame T M B) read_clock (log_frame T M B)" "yields (log_frame T M B) (printf line) (log_frame T M B)"
  by (auto simp: yields_def read_clock_def printf_def modP_def log_frame_def)

lemma os_kept_append: "os_kept s (snd (sys_append fd buf s))"
  by (auto simp: os_kept_def sys_append_def Let_def split: option.split)

lemma yields_os:
  assumes "\<And>o1. \<exists>x o2. m o1 = (Returned x, o2) \<and> os_kept o1 o2"
  shows "yields (log_frame T M B) (log_os m) (log_frame T M B)"
  unfolding yields_def
proof (intro allI impI)
  fix s assume P: "log_frame T M B s"
  obtain x o2 where o: "m (ls_os s) = (Returned x, o2)" "os_kept (ls_os s) o2" using assms by blast
  then have "log_os m s = (Returned x, s\<lparr>ls_os := o2\<rparr>)" by (simp add: log_os_def zoom_def)
  moreover have "log_frame T M B (s\<lparr>ls_os := o2\<rparr>)"
    using P o(2) by (auto simp: log_frame_def intro: os_kept_trans)
  ultimately show "\<exists>x w'. log_os m s = (Returned x, w') \<and> log_frame T M B w'" by blast
qed

lemma yields_log_os:
  "yields (log_frame T M B) (log_os (sys_close fd)) (log_frame T M B)"
  "yields (log_frame T M B) (log_os (sys_open f c)) (log_frame T M B)"
  "yields (log_frame T M B) (log_os (sys_append fd buf)) (log_frame T M B)"
proof -
  show "yields (log_frame T M B) (log_os (sys_close fd)) (log_frame T M B)"
    by (rule yields_os) (rule os_kept_runs)
  show "yields (log_frame T M B) (log_os (sys_open f c)) (log_frame T M B)"
  proof (rule yields_os)
    show "\<exists>x o2. sys_open f c o1 = (Returned x, o2) \<and> os_kept o1 o2" for o1
      using os_kept_calls(3)[of o1 f c] by (auto simp: sys_open_def Let_def)
  qed
  show "yields (log_frame T M B) (log_os (sys_append fd buf)) (log_frame T M B)"
  proof (rule yields_os)
    show "\<exists>x o2. sys_append fd buf o1 = (Returned x, o2) \<and> os_kept o1 o2" for o1
      using os_kept_append[of o1 fd buf] by (auto simp: sys_append_def Let_def split: option.splits)
  qed
qed

text \<open>What the code may rely on of a log it reads in such a state.\<close>

lemma yields_read_log:
  assumes "\<And>c. cl_log_tank c = Some T \<Longrightarrow> cl_stratege_type c = PURE_LOG_TIME \<Longrightarrow>
             yields (log_frame T M B) (k c) (log_frame T M B)"
  shows "yields (log_frame T M B) (bindP (getP ls_log) k) (log_frame T M B)"
  by (rule yields_bindP_getP[where R = "\<lambda>c. cl_log_tank c = Some T \<and> cl_stratege_type c = PURE_LOG_TIME"])
    (use assms in \<open>auto simp: log_frame_def\<close>)

lemma yields_open_slot: "yields (log_frame T M B) (open_slot name t) (log_frame T M B)"
  unfolding open_slot_def Let_def
  by (intro yields_bindP[where Q = "log_frame T M B"] yields_if yields_basic yields_log_os yields_mod_log yields_log_basic) simp_all

lemma yields_new_file: "yields (log_frame T M B) new_file (log_frame T M B)"
  unfolding new_file_def
  by (intro yields_read_log yields_bindP[where Q = "log_frame T M B"] yields_if yields_basic yields_log_basic
      yields_mod_log) (simp_all add: yields_open_slot)

lemma yields_write_slot: "yields (log_frame T M B) (write_slot buf) (log_frame T M B)"
  unfolding write_slot_def Let_def
  by (intro yields_bindP[where Q = "log_frame T M B"] yields_if yields_basic yields_log_os yields_mod_log) simp_all

lemma yields_renew_when:
  "yields (log_frame T M B) k (log_frame T M B) \<Longrightarrow> yields (log_frame T M B) (renew_when c k) (log_frame T M B)"
  unfolding renew_when_def by (intro yields_if yields_bindP[OF yields_new_file] yields_basic)

lemma yields_prt_file: "yields (log_frame T M B) (prt_file t buf) (log_frame T M B)"
  unfolding prt_file_def
  by (intro yields_read_log yields_renew_when) (simp add: yields_read_log yields_renew_when yields_write_slot)

lemma yields_prt: "yields (log_frame T M B) (prt l msg) (log_frame T M B)"
  unfolding prt_def
proof (intro yields_read_log yields_if yields_basic)
  fix c assume c: "cl_log_tank c = Some T"
  show "yields (log_frame T M B) (bindP read_clock (\<lambda>ptime. case cl_log_tank c of None \<Rightarrow> stop_with Undefined
      | Some tank \<Rightarrow> if tank = LOG_TANK_CONSOLE then bindP (printf (snprintf PURE_LOG_MAX_PARA_STR_LEN msg)) (\<lambda>_. ret 0)
        else prt_file ptime (log_line ptime l msg))) (log_frame T M B)"
    unfolding c option.case
    by (intro yields_bindP[where Q = "log_frame T M B"] yields_if yields_basic yields_log_basic yields_prt_file)
qed

end
