(* ===== verification/Adaptor.thy ===== *)
theory Adaptor
  imports PureLog MongoLaws IniReader
begin

text \<open>
  The state of the watchdog \<open>pulld\<close> and its copy of the database adaptor,
  \<open>pulld/src/mongodb/mongo_adaptor.cpp\<close>, which reports its failures to the log of \<open>pure_log.cpp\<close>,
  with \<open>global_conf.cpp\<close>, the paths and the process title. The error codes are those of
  \<open>pulld/src/common.h\<close>.
\<close>

section \<open>Errors and configuration\<close>

datatype rec_error_code =
    REC_ERROR_OK_d
  | REC_ERROR_STREAM_EXIST_d
  | REC_ERROR_PORCESS_INFO_NONE_d
  | REC_ERROR_GET_COLLECTION_FAILED_d
  | REC_ERROR_FORK_FAILED_d
  | REC_ERROR_STREAM_NOT_EXIST_d
  | REC_ERROR_MONGODB_d
  | REC_ERROR_JSON_PARSER_d
  | REC_ERROR_INTERNAL_d
  | REC_ERROR_PORT_UNSPECIFIED_d
  | REC_ERROR_ROOT_PATH_UNSPECIFIED_d
  | REC_ERROR_M3U8_PATH_EXIST_d
  | REC_ERROR_JSON_PARSER_EXCEPTION_d

fun rec_err :: "rec_error_code \<Rightarrow> int" where
  "rec_err REC_ERROR_OK_d = 0"
| "rec_err REC_ERROR_STREAM_EXIST_d = 1"
| "rec_err REC_ERROR_PORCESS_INFO_NONE_d = 2"
| "rec_err REC_ERROR_GET_COLLECTION_FAILED_d = 3"
| "rec_err REC_ERROR_FORK_FAILED_d = 4"
| "rec_err REC_ERROR_STREAM_NOT_EXIST_d = 5"
| "rec_err REC_ERROR_MONGODB_d = 6"
| "rec_err REC_ERROR_JSON_PARSER_d = 7"
| "rec_err REC_ERROR_INTERNAL_d = 8"
| "rec_err REC_ERROR_PORT_UNSPECIFIED_d = 9"
| "rec_err REC_ERROR_ROOT_PATH_UNSPECIFIED_d = 10"
| "rec_err REC_ERROR_M3U8_PATH_EXIST_d = 11"
| "rec_err REC_ERROR_JSON_PARSER_EXCEPTION_d = 12"

definition CONF_PATH_LENGTH :: nat where "CONF_PATH_LENGTH = 256"

text \<open>
  \<open>G_CONF_S\<close>; a string of the argument vector is its address and its text. The descriptive
  members are buffers of \<open>CONF_PATH_LENGTH\<close> bytes.
\<close>

record G_CONF_S =
  gc_argv :: "(nat \<times> string) list"
  gc_argc :: nat
  gc_os_argv :: nat
  gc_last :: nat
  gc_pid_path :: string
  gc_sbin_path :: string
  gc_log_path :: string
  gc_conf_path :: string

text \<open>One pass over a vector of strings: move \<open>last\<close> past those that follow it in memory.\<close>

fun adjacent_end :: "(nat \<times> string) list \<Rightarrow> nat \<Rightarrow> nat" where
  "adjacent_end [] last_p = last_p"
| "adjacent_end ((a, s) # vec) last_p =
     adjacent_end vec (if last_p = a then a + length (c_str s) + 1 else last_p)"

definition init_process_title :: "(nat \<times> string) list \<Rightarrow> G_CONF_S \<Rightarrow> G_CONF_S option" where
  "init_process_title environ i_conf =
     (case gc_argv i_conf of
        [] \<Rightarrow> None
      | (a, _) # _ \<Rightarrow>
          Some (i_conf\<lparr>gc_last := adjacent_end environ (adjacent_end (gc_argv i_conf) a) - 1\<rparr>))"

text \<open>\<open>mem\<close> is the memory from \<open>os_argv\<close> on.\<close>

definition set_process_titile :: "string \<Rightarrow> G_CONF_S \<Rightarrow> char list \<Rightarrow> char list option" where
  "set_process_titile i_title i_conf mem =
     (let len = int (gc_last i_conf) - int (gc_os_argv i_conf) in
      if 0 \<le> len \<and> len \<le> int (length mem)
      then rc_strncpy (replicate (nat len) NUL @ drop (nat len) mem) len i_title (int (length (c_str i_title)))
      else None)"

section \<open>The state of the watchdog\<close>

text \<open>
  \<open>pd_psyslog\<close> is whether \<open>g_psyslog\<close> points to a log, the one of the record this one extends;
  \<open>pd_ran\<close> lists the commands given to \<open>system\<close>.
\<close>

record 'db pulld = log_sys +
  pd_mongo :: "'db dbstate"
  pd_psyslog :: bool
  pd_running :: bool
  pd_ini :: CIniReader
  pd_ran :: "string list"

definition on_mongo :: "('db dbstate, 'a) prog \<Rightarrow> ('db pulld, 'a) prog" where
  "on_mongo = zoom pd_mongo (\<lambda>x s. s\<lparr>pd_mongo := x\<rparr>)"

text \<open>\<open>#define rec_log g_psyslog->prt\<close>.\<close>

definition rec_log :: "PURE_LOG_TYPE_E \<Rightarrow> string \<Rightarrow> ('db pulld, int) prog" where
  "rec_log l msg = bindP (getP pd_psyslog) (\<lambda>p. if p then prt l msg else stop_with Undefined)"

section \<open>The adaptor\<close>

definition log_if :: "bool \<Rightarrow> string \<Rightarrow> ('db pulld, unit) prog" where
  "log_if c msg = (if c then bindP (rec_log LOG_INFO msg) (\<lambda>_. ret ()) else ret ())"

definition connect_d :: "('db, 'j) lib \<Rightarrow> string \<Rightarrow> ('db pulld, string option) prog" where
  "connect_d L addr =
     (let ins = (if l_client_new L (c_str addr) then Some (c_str addr) else None) in
      bindP (on_mongo (modP (\<lambda>w. if ins \<noteq> None then w\<lparr>w_clients := w_clients w + 1\<rparr> else w))) (\<lambda>_.
      assert_then L (ins \<noteq> None)
        (bindP (log_if (ins = None) ''mongodb connect failed'') (\<lambda>_. ret ins))))"

definition connect_close_d :: "string option \<Rightarrow> ('db pulld, unit) prog" where
  "connect_close_d c = on_mongo (modP (\<lambda>w. if c \<noteq> None then w\<lparr>w_clients := w_clients w - 1\<rparr> else w))"

definition collection_d ::
  "('db, 'j) lib \<Rightarrow> string option \<Rightarrow> string \<Rightarrow> string \<Rightarrow> ('db pulld, coll option) prog" where
  "collection_d L conn db coll =
     assert_then L (conn \<noteq> None)
       (case conn of
          None \<Rightarrow> bindP (rec_log LOG_INFO ''get mongodb client failed'') (\<lambda>_. ret None)
        | Some client \<Rightarrow>
            (let h = (client, c_str db, c_str coll);
                 ins = (if l_get_collection L h then Some h else None) in
             bindP (on_mongo (modP (\<lambda>w. if ins \<noteq> None then w\<lparr>w_colls := w_colls w + 1\<rparr> else w))) (\<lambda>_.
             assert_then L (ins \<noteq> None)
               (bindP (log_if (ins = None) ''mongodb get collection failed'') (\<lambda>_. ret ins)))))"

definition collection_release_d :: "coll option \<Rightarrow> ('db pulld, unit) prog" where
  "collection_release_d c = on_mongo (modP (\<lambda>w. if c \<noteq> None then w\<lparr>w_colls := w_colls w - 1\<rparr> else w))"

definition insert_d :: "('db, 'j) lib \<Rightarrow> coll option \<Rightarrow> bson \<Rightarrow> ('db pulld, int) prog" where
  "insert_d L collect query =
     assert_then L (collect \<noteq> None)
       (case collect of
          None \<Rightarrow> ret (rec_err REC_ERROR_GET_COLLECTION_FAILED_d)
        | Some c \<Rightarrow> on_mongo (driver_call (l_insert L c query)))"

text \<open>\<open>if (NULL == collect)\<close> with its message, and the code returned.\<close>

definition no_collection :: "'a \<Rightarrow> ('db pulld, int \<times> 'a) prog" where
  "no_collection x =
     bindP (rec_log LOG_INFO ''get mongodb collection failed'') (\<lambda>_.
     ret (rec_err REC_ERROR_GET_COLLECTION_FAILED_d, x))"

definition update_d :: "('db, 'j) lib \<Rightarrow> coll option \<Rightarrow> bson \<Rightarrow> bson \<Rightarrow> ('db pulld, int) prog" where
  "update_d L collect query upd =
     assert_then L (collect \<noteq> None)
       (case collect of
          None \<Rightarrow> bindP (no_collection ()) (\<lambda>(rv, _). ret rv)
        | Some c \<Rightarrow> on_mongo (driver_call (l_update L c query upd)))"

definition find_d ::
  "('db, 'j) lib \<Rightarrow> coll option \<Rightarrow> bson \<Rightarrow> string list \<Rightarrow> ('db pulld, int \<times> string list) prog" where
  "find_d L collect query lst =
     assert_then L (collect \<noteq> None)
       (case collect of
          None \<Rightarrow> no_collection lst
        | Some c \<Rightarrow>
            bindP (on_mongo (open_cursor L c query)) (\<lambda>docs.
            bindP (find_loop L lst docs) (\<lambda>lst'. ret (0, lst'))))"

definition findOne_d ::
  "('db, 'j) lib \<Rightarrow> coll option \<Rightarrow> bson \<Rightarrow> string \<Rightarrow> ('db pulld, int \<times> string) prog" where
  "findOne_d L collect query item =
     assert_then L (collect \<noteq> None)
       (case collect of
          None \<Rightarrow> no_collection item
        | Some c \<Rightarrow>
            bindP (on_mongo (open_cursor L c query)) (\<lambda>docs.
            case docs of
              [] \<Rightarrow> ret (rec_err REC_ERROR_PORCESS_INFO_NONE_d, item)
            | doc # _ \<Rightarrow>
                (case l_as_json L doc of
                   None \<Rightarrow> stop_with Undefined
                 | Some str \<Rightarrow> ret (rec_err REC_ERROR_OK_d, c_str str))))"

definition remove_d :: "('db, 'j) lib \<Rightarrow> coll option \<Rightarrow> bson \<Rightarrow> ('db pulld, int) prog" where
  "remove_d L collect query =
     assert_then L (collect \<noteq> None)
       (case collect of
          None \<Rightarrow> bindP (no_collection ()) (\<lambda>(rv, _). ret rv)
        | Some c \<Rightarrow> on_mongo (driver_call (l_remove L c query)))"

lemmas adaptor_d_defs = connect_d_def connect_close_d_def collection_d_def collection_release_d_def insert_d_def
  update_d_def find_d_def findOne_d_def remove_d_def

section \<open>The process title\<close>

text \<open>Strings that follow one another in memory from \<open>a\<close> on, and the address after them.\<close>

fun laid_out :: "nat \<Rightarrow> (nat \<times> string) list \<Rightarrow> bool" where
  "laid_out a [] \<longleftrightarrow> True"
| "laid_out a ((b, s) # vec) \<longleftrightarrow> b = a \<and> NUL \<notin> set s \<and> laid_out (a + length s + 1) vec"

definition bytes_of :: "(nat \<times> string) list \<Rightarrow> nat" where
  "bytes_of vec = sum_list (map (\<lambda>(a, s). length s + 1) vec)"

lemma adjacent_end_laid_out: "laid_out a vec \<Longrightarrow> adjacent_end vec a = a + bytes_of vec"
  by (induction vec arbitrary: a) (auto simp: bytes_of_def c_str_id)

lemma laid_out_append: "laid_out a (xs @ ys) \<longleftrightarrow> laid_out a xs \<and> laid_out (a + bytes_of xs) ys"
  by (induction xs arbitrary: a) (auto simp: bytes_of_def add.assoc add.commute add.left_commute)

lemma init_process_title_last:
  assumes "gc_argv c \<noteq> []" "laid_out (fst (hd (gc_argv c))) (gc_argv c @ environ)"
  shows "init_process_title environ c =
           Some (c\<lparr>gc_last := fst (hd (gc_argv c)) + bytes_of (gc_argv c @ environ) - 1\<rparr>)"
proof -
  obtain a s vec where v: "gc_argv c = (a, s) # vec" using assms(1) by (cases "gc_argv c") auto
  have "laid_out a (gc_argv c)" "laid_out (a + bytes_of (gc_argv c)) environ"
    using assms(2) unfolding laid_out_append v by simp_all
  then have "adjacent_end environ (adjacent_end (gc_argv c) a) = a + bytes_of (gc_argv c) + bytes_of environ"
    by (simp add: adjacent_end_laid_out)
  then show ?thesis by (simp add: init_process_title_def v bytes_of_def)
qed

text \<open>
  The process title. With the argument vector and the environment laid out one after the other, as
  the system lays them out, \<open>init_process_title\<close> and \<open>set_process_titile\<close> together write the title,
  cut to the bytes there are less two, over the arguments and nothing behind the environment.
\<close>

theorem process_title_fits:
  assumes "gc_argv c \<noteq> []" "laid_out (gc_os_argv c) (gc_argv c @ environ)" "gc_os_argv c = fst (hd (gc_argv c))"
    and "NUL \<notin> set title" "bytes_of (gc_argv c @ environ) = Suc (Suc n)" "Suc n \<le> length mem"
  shows "\<exists>c' mem'. init_process_title environ c = Some c' \<and> set_process_titile title c' mem = Some mem' \<and>
           buf_str (take (Suc n) mem') = Some (take n title) \<and> drop (Suc n) mem' = drop (Suc n) mem"
proof -
  let ?c' = "c\<lparr>gc_last := gc_os_argv c + Suc n\<rparr>" and ?z = "replicate (Suc n) NUL @ drop (Suc n) mem"
  have i: "init_process_title environ c = Some ?c'"
    using init_process_title_last[OF assms(1), of environ] assms(2,3,5) by simp
  let ?k = "min (length title) n"
  have k: "?k < length ?z" by simp
  have p: "rc_strncpy ?z (int (Suc n)) title (int (length (c_str title))) =
      Some (take ?k title @ NUL # replicate (n - ?k) NUL @ drop (Suc n) mem)"
  proof -
    have "strncpy_i ?z title (int ?k) = Some (take ?k title @ drop ?k ?z)"
      using assms(4) by (simp add: strncpy_i_def strncpy_def c_str_id)
    moreover have "drop ?k ?z = NUL # replicate (n - ?k) NUL @ drop (Suc n) mem"
    proof -
      have "?z = replicate ?k NUL @ replicate (Suc (n - ?k)) NUL @ drop (Suc n) mem"
        unfolding append_assoc[symmetric] replicate_add[symmetric] by simp
      then show ?thesis by simp
    qed
    moreover have "buf_set (take ?k title @ NUL # replicate (n - ?k) NUL @ drop (Suc n) mem) (int ?k) NUL =
        Some (take ?k title @ NUL # replicate (n - ?k) NUL @ drop (Suc n) mem)"
      using list_update_length[of "take ?k title" NUL] by (simp add: buf_set_def)
    moreover have "int (Suc n) - 1 = int n" "int ?k = (if int (length title) < int n then int (length title) else int n)" by auto
    ultimately show ?thesis
      using assms(4) unfolding rc_strncpy_def by (cases "int (length title) < int n") (simp_all add: c_str_id)
  qed
  have f1: "set_process_titile title ?c' mem = Some (take ?k title @ NUL # replicate (n - ?k) NUL @ drop (Suc n) mem)"
  proof -
    have "nat (1 + int n) = Suc n" by linarith
    then show ?thesis using p assms(6) by (simp add: set_process_titile_def Let_def)
  qed
  have f2: "take (Suc n) (take ?k title @ NUL # replicate (n - ?k) NUL @ drop (Suc n) mem) =
      take ?k title @ NUL # replicate (n - ?k) NUL" by (simp add: Suc_diff_le)
  have f3: "buf_str (take ?k title @ NUL # replicate (n - ?k) NUL) = Some (take n title)"
  proof -
    have "take ?k title = take n title" by (simp add: min_def)
    moreover have "NUL \<notin> set (take n title)" using assms(4) by (auto dest: in_set_takeD)
    ultimately show ?thesis by (simp add: buf_str_def c_str_append_nul)
  qed
  have f4: "drop (Suc n) (take ?k title @ NUL # replicate (n - ?k) NUL @ drop (Suc n) mem) = drop (Suc n) mem"
    by (simp add: Suc_diff_le)
  have "buf_str (take (Suc n) (take ?k title @ NUL # replicate (n - ?k) NUL @ drop (Suc n) mem)) = Some (take n title)"
    unfolding f2 by (rule f3)
  with i f1 f4 show ?thesis by blast
qed

theorem process_title_fits_witness:
  "\<exists>c' mem'. init_process_title [(15, ''A=1'')] \<lparr>gc_argv = [(10, ''pull'')], gc_argc = 1, gc_os_argv = 10, gc_last = 0,
       gc_pid_path = [], gc_sbin_path = [], gc_log_path = [], gc_conf_path = []\<rparr> = Some c' \<and>
     set_process_titile ''watchdog'' c' ''pull-A=1-tail'' = Some mem' \<and> buf_str (take 8 mem') = Some ''watchdo''"
  using process_title_fits[of "\<lparr>gc_argv = [(10, ''pull'')], gc_argc = 1, gc_os_argv = 10, gc_last = 0,
      gc_pid_path = [], gc_sbin_path = [], gc_log_path = [], gc_conf_path = []\<rparr>" "[(15, ''A=1'')]" "''watchdog''" 7 "''pull-A=1-tail''"]
  by (auto simp: NUL_def bytes_of_def)

section \<open>The two adaptors\<close>

lemma on_mongo_run:
  "on_mongo (ret x) = ret x" "on_mongo (stop_with r) = stop_with r"
  "on_mongo (bindP m k) = bindP (on_mongo m) (\<lambda>x. on_mongo (k x))"
  "on_mongo (assert_then L b n) = assert_then L b (on_mongo n)"
  by (auto simp: on_mongo_def zoom_def ret_def stop_with_def bindP_def assert_then_def fun_eq_iff
      split: outcome.splits prod.splits)

lemma on_mongo_find_loop: "on_mongo (find_loop L lst docs) = find_loop L lst docs"
  by (rule ext) (simp add: on_mongo_def zoom_def find_loop_eq)

lemma assert_then_cong: "l_asserts L \<Longrightarrow> (b \<Longrightarrow> m = n) \<Longrightarrow> assert_then L b m = assert_then L b n"
  by (simp add: assert_then_def)

text \<open>
  C26 (the two adaptors are the same). Built with its assertions, each operation of the watchdog's adaptor
  does to the database what the server's does, with the same outcome and value, and touches nothing else
  of the watchdog: none of its log messages is ever written.
\<close>

theorem adaptors_agree:
  assumes "l_asserts L"
  shows "connect_d L addr = on_mongo (connect L addr) \<and> connect_close_d c = on_mongo (connect_close c) \<and>
         collection_d L c db tb = on_mongo (collection L c db tb) \<and> collection_release_d h = on_mongo (collection_release h) \<and>
         insert_d L h q = on_mongo (mongo_insert L h q) \<and> update_d L h q u = on_mongo (mongo_update L h q u) \<and>
         find_d L h q lst = on_mongo (mongo_find L h q lst) \<and> findOne_d L h q item = on_mongo (mongo_findOne L h q item) \<and>
         remove_d L h q = on_mongo (mongo_remove L h q)"
  by (auto simp: adaptor_d_defs connect_def connect_close_def collection_def collection_release_def mongo_insert_def
      mongo_update_def mongo_find_def mongo_findOne_def mongo_remove_def on_mongo_run on_mongo_find_loop Let_def log_if_def
      split: option.splits list.splits intro!: assert_then_cong[OF assms] arg_cong[where f = "bindP _"])

theorem adaptors_agree_witness:
  "l_asserts mem_lib \<and>
   remove_d mem_lib (Some (''mongodb://a'', ''d'', ''t'')) [(''host'', Utf8 ''a'')] = on_mongo (mongo_remove mem_lib (Some (''mongodb://a'', ''d'', ''t'')) [(''host'', Utf8 ''a'')])"
proof -
  have "l_asserts mem_lib" by (simp add: mem_lib_def)
  with adaptors_agree[OF this] show ?thesis by blast
qed

end
