(* ===== verification/Pulld.thy ===== *)
theory Pulld
  imports Adaptor PullMain
begin

text \<open>
  \<open>pulld/src/main.cpp\<close>, the watchdog: it tries the lock on the server's pid file, and when it gets it,
  removes the record the dead server left in the registry and starts the server again. What the
  command does that \<open>system\<close> runs, and what happens in the machine while the watchdog sleeps, are
  arguments of the model.
\<close>

section \<open>The registry\<close>

text \<open>The messages of the log are given with their arguments filled in, except \<open>strerror(errno)\<close>.\<close>

text \<open>The query of \<open>is_host_exist\<close>, from the connection to its release.\<close>

definition query_host_d :: "('db, 'j) lib \<Rightarrow> string \<Rightarrow> string \<Rightarrow> ('db pulld, int) prog" where
  "query_host_d L host mdb =
     bindP (connect_d L mdb) (\<lambda>conn.
     bindP (collection_d L conn MONGODB_DATABASE MONGODB_COLLECTION_HOSTINFO) (\<lambda>coll.
     bindP (on_mongo bson_new) (\<lambda>_.
     bindP (findOne_d L coll [(''host'', Utf8 (c_str host))] []) (\<lambda>(rv, item).
     bindP (on_mongo bson_destroy) (\<lambda>_.
     bindP (collection_release_d coll) (\<lambda>_.
     bindP (connect_close_d conn) (\<lambda>_.
     ret rv)))))))"

definition is_host_exist_d :: "('db, 'j) lib \<Rightarrow> string \<Rightarrow> string \<Rightarrow> ('db pulld, bool) prog" where
  "is_host_exist_d L host mdb =
     bindP (rec_log LOG_INFO (''mongo address: '' @ mdb)) (\<lambda>_.
     bindP (query_host_d L host mdb) (\<lambda>rv.
     if rec_err REC_ERROR_OK_d = rv
     then bindP (rec_log LOG_INFO (''cache host: '' @ c_str host @ '' exist'')) (\<lambda>_. ret True)
     else bindP (rec_log LOG_INFO (''cache host: '' @ c_str host @ '' not exist'')) (\<lambda>_. ret False)))"

definition remove_host_d :: "('db, 'j) lib \<Rightarrow> string \<Rightarrow> string \<Rightarrow> ('db pulld, int) prog" where
  "remove_host_d L host mdb =
     bindP (rec_log LOG_INFO (''remove remain host '' @ c_str host)) (\<lambda>_.
     bindP (connect_d L mdb) (\<lambda>conn.
     bindP (collection_d L conn MONGODB_DATABASE MONGODB_COLLECTION_HOSTINFO) (\<lambda>coll.
     bindP (on_mongo bson_new) (\<lambda>_.
     bindP (remove_d L coll [(''host'', Utf8 (c_str host))]) (\<lambda>ok.
     bindP (on_mongo bson_destroy) (\<lambda>_.
     bindP (collection_release_d coll) (\<lambda>_.
     bindP (connect_close_d conn) (\<lambda>_.
     ret (if ok = 0 then rec_err REC_ERROR_MONGODB_d else rec_err REC_ERROR_OK_d)))))))))"

section \<open>Is the server alive\<close>

text \<open>
  The descriptor is closed between taking the lock and looking at the result, and both branches
  close it again; the unlocking works on a closed descriptor.
\<close>

definition check_process_alive :: "('db, 'j) lib \<Rightarrow> string \<Rightarrow> string \<Rightarrow> string \<Rightarrow> ('db pulld, bool) prog" where
  "check_process_alive L file host mdb =
     bindP (log_os (sys_open (c_str file) True)) (\<lambda>m_fd.
     if m_fd = - 1
     then bindP (rec_log LOG_CRIT (''wrtie pid : Open '' @ c_str file)) (\<lambda>_. stop_with (Exited 0))
     else
     bindP (log_os (sys_tlock m_fd)) (\<lambda>rv.
     bindP (log_os (sys_close m_fd)) (\<lambda>_.
     if rv < 0
     then bindP (log_os (sys_close m_fd)) (\<lambda>_. ret True)
     else
     bindP (log_os (sys_ulock m_fd)) (\<lambda>_.
     bindP (rec_log LOG_CRIT (''pull2push does not running, host = '' @ c_str host)) (\<lambda>_.
     bindP (is_host_exist_d L host mdb) (\<lambda>ex.
     bindP (if ex then bindP (remove_host_d L host mdb) (\<lambda>_. ret ()) else ret ()) (\<lambda>_.
     bindP (log_os (sys_close m_fd)) (\<lambda>_. ret False))))))))"

section \<open>Becoming a daemon\<close>

definition write_pid_to_file_d :: "string \<Rightarrow> ('db pulld, unit) prog" where
  "write_pid_to_file_d file =
     bindP (log_os os_getpid) (\<lambda>pid.
     bindP (log_os (sys_open (c_str file) True)) (\<lambda>m_fd.
     if m_fd = - 1
     then bindP (rec_log LOG_CRIT (''wrtie pid : Open '' @ c_str file)) (\<lambda>_. stop_with (Exited 0))
     else
     bindP (log_os (sys_tlock m_fd)) (\<lambda>rv.
     if rv < 0
     then bindP (rec_log LOG_CRIT (''try lock file '' @ c_str file)) (\<lambda>_.
          bindP (printf ''record has runned'') (\<lambda>_. stop_with (Exited 0)))
     else
     (case rn_snprintf 64 (Some (int_dec pid @ [CHR 0x0A])) of
        (None, len) \<Rightarrow> stop_with Undefined
      | (Some buffer, len) \<Rightarrow>
          bindP (log_os (sys_write m_fd (take (nat len) buffer))) (\<lambda>n.
          if n < 0 then bindP (rec_log LOG_CRIT ''wrtie pid failed'') (\<lambda>_. stop_with (Exited 0))
          else printf (''['' @ int_dec pid @ '']+''))))))"

text \<open>A failure of \<open>daemon\<close>: its message and -1; the pid is set from \<open>getpid\<close> on.\<close>

definition daemon_failed :: "string \<Rightarrow> int option \<Rightarrow> ('db pulld, int \<times> int option) prog" where
  "daemon_failed msg pid = bindP (rec_log LOG_CRIT msg) (\<lambda>_. ret (- 1, pid))"

definition daemon_d :: "string \<Rightarrow> ('db pulld, int \<times> int option) prog" where
  "daemon_d pid_path =
     bindP (log_os os_fork_call) (\<lambda>ppid.
     if ppid = - 1 then daemon_failed ''fork() failed'' None
     else if ppid \<noteq> 0 then stop_with (Exited 0)
     else
     bindP (write_pid_to_file_d pid_path) (\<lambda>_.
     bindP (log_os os_getpid) (\<lambda>pid.
     bindP (rec_log LOG_CRIT (''daemon pid = '' @ int_dec pid)) (\<lambda>_.
     bindP (log_os sys_setsid) (\<lambda>sid.
     if sid = - 1 then daemon_failed ''setsid() failed'' (Some pid)
     else
     bindP (log_os (modP (\<lambda>s. s\<lparr>os_umask := 0\<rparr>))) (\<lambda>_.
     bindP (log_os (sys_open ''/dev/null'' False)) (\<lambda>fd.
     if fd = - 1 then daemon_failed ''open(/dev/null) failed'' (Some pid)
     else
     bindP (log_os (sys_dup2 fd 0)) (\<lambda>r0.
     if r0 = - 1 then daemon_failed ''dup2(STDIN) failed'' (Some pid)
     else
     bindP (log_os (sys_dup2 fd 1)) (\<lambda>r1.
     if r1 = - 1 then daemon_failed ''dup2(STDOUT) failed'' (Some pid)
     else if fd > 2
     then bindP (log_os (sys_close fd)) (\<lambda>rc.
          if rc = - 1 then daemon_failed ''close() failed'' (Some pid) else ret (0, Some pid))
     else ret (0, Some pid))))))))))"

section \<open>Paths and addresses\<close>

text \<open>\<open>get_cur_path\<close> of \<open>global_conf.cpp\<close>, into the zeroed buffer of the configuration.\<close>

definition get_cur_path_d :: "string \<Rightarrow> int \<Rightarrow> ('db pulld, string) prog" where
  "get_cur_path_d str i_l =
     (case slash_loop (c_str str) 0 None of
        None \<Rightarrow> stop_with Undefined
      | Some len \<Rightarrow>
          if int len > i_l - 1 then bindP (printf ''path too long'') (\<lambda>_. stop_with (Exited 0))
          else (case rc_strncpy (zero_buf (nat i_l)) i_l str (int len) of
                  None \<Rightarrow> stop_with Undefined
                | Some o_path \<Rightarrow> ret (c_str o_path)))"

definition get_local_ip_d :: "string \<Rightarrow> string \<Rightarrow> ('db pulld, int \<times> string) prog" where
  "get_local_ip_d eth_inf ip =
     bindP (getP ls_os) (\<lambda>s.
     if \<not> os_socket_ok s then bindP (printf ''socket error'') (\<lambda>_. ret (- 1, ip))
     else (case os_ifaddr s (take (IFNAMSIZ - 1) (c_str eth_inf)) of
             None \<Rightarrow> bindP (printf ''ioctl error'') (\<lambda>_. ret (- 1, ip))
           | Some a \<Rightarrow> ret (0, snprintf IP_SIZE a)))"

section \<open>The loop\<close>

definition sig_terminal :: "('db pulld, unit) prog" where
  "sig_terminal =
     bindP (modP (\<lambda>s. s\<lparr>pd_running := False\<rparr>)) (\<lambda>_.
     bindP (rec_log LOG_INFO (CHR 0x0A # ''bye'')) (\<lambda>_. ret ()))"

text \<open>What the rest of the machine does to the system and the database.\<close>

type_synonym 'db others = "os \<times> 'db \<Rightarrow> os \<times> 'db"

definition machine :: "'db others \<Rightarrow> ('db pulld, unit) prog" where
  "machine f =
     modP (\<lambda>s. case f (ls_os s, w_db (pd_mongo s)) of
               (o', d) \<Rightarrow> s\<lparr>ls_os := o', pd_mongo := (pd_mongo s)\<lparr>w_db := d\<rparr>\<rparr>)"

definition run_system :: "(string \<Rightarrow> 'db others) \<Rightarrow> string \<Rightarrow> ('db pulld, unit) prog" where
  "run_system sh cmd =
     bindP (modP (\<lambda>s. s\<lparr>pd_ran := pd_ran s @ [cmd]\<rparr>)) (\<lambda>_. machine (sh cmd))"

text \<open>One pass of the loop up to \<open>sleep(5)\<close>.\<close>

definition watch_round :: "('db, 'j) lib \<Rightarrow> (string \<Rightarrow> 'db others) \<Rightarrow> string \<Rightarrow> string \<Rightarrow> string \<Rightarrow> string
    \<Rightarrow> ('db pulld, unit) prog" where
  "watch_round L sh rec_bin_dir rec_pid_dir local_ip mongo_addr =
     bindP (check_process_alive L rec_pid_dir local_ip mongo_addr) (\<lambda>alive.
     if \<not> alive
     then bindP (rec_log LOG_INFO (''run bin dir: '' @ rec_bin_dir)) (\<lambda>_. run_system sh rec_bin_dir)
     else ret ())"

text \<open>
  A sleep: what the others do, and whether a signal to end arrives. The loop has no end of its own;
  \<open>watch_loop\<close> is what it does for the sleeps of a given list.
\<close>

fun watch_loop :: "('db, 'j) lib \<Rightarrow> (string \<Rightarrow> 'db others) \<Rightarrow> string \<Rightarrow> string \<Rightarrow> string \<Rightarrow> string
    \<Rightarrow> ('db others \<times> bool) list \<Rightarrow> ('db pulld, unit) prog" where
  "watch_loop L sh bin pid ip addr [] s = (Returned (), s)"
| "watch_loop L sh bin pid ip addr ((f, sig) # pauses) s =
     (if pd_running s
      then bindP (watch_round L sh bin pid ip addr) (\<lambda>_.
           bindP (machine f) (\<lambda>_.
           bindP (if sig then sig_terminal else ret ()) (\<lambda>_.
           watch_loop L sh bin pid ip addr pauses))) s
      else (Returned (), s))"

section \<open>The program\<close>

definition on_ini_d :: "(CIniReader, 'a) prog \<Rightarrow> ('db pulld, 'a) prog" where
  "on_ini_d = zoom pd_ini (\<lambda>x s. s\<lparr>pd_ini := x\<rparr>)"

definition new_conf :: "(nat \<times> string) list \<Rightarrow> string \<Rightarrow> G_CONF_S" where
  "new_conf argv sbin_path =
     \<lparr>gc_argv = argv, gc_argc = length argv mod 256, gc_os_argv = fst (hd argv), gc_last = 0,
      gc_pid_path = snprintf CONF_PATH_LENGTH (sbin_path @ ''/'' @ ''../log/pid''),
      gc_sbin_path = sbin_path,
      gc_log_path = snprintf CONF_PATH_LENGTH (sbin_path @ ''/'' @ ''../log/''),
      gc_conf_path = snprintf CONF_PATH_LENGTH (sbin_path @ ''/'' @ ''../conf/1.conf'')\<rparr>"

text \<open>\<open>create CLOG\<close> of \<open>main\<close>.\<close>

definition create_log :: "bool \<Rightarrow> bool \<Rightarrow> string \<Rightarrow> ('db pulld, unit) prog" where
  "create_log lax is_daemon log_path =
     bindP (modP (\<lambda>s. s\<lparr>pd_psyslog := True, ls_log := CLog_new\<rparr>)) (\<lambda>_.
     bindP (if is_daemon then set_log_tank ''file'' else set_log_tank ''console'') (\<lambda>_.
     bindP (set_log_level LOG_INFO) (\<lambda>_.
     bindP (set_log_out_by_time (- 1)) (\<lambda>_.
     bindP (init lax log_path ''error'') (\<lambda>_.
     ret ())))))"

text \<open>\<open>main\<close> from the log on; after \<open>EXIT\<close> the log is deleted.\<close>

definition watch_main :: "('db, 'j) lib \<Rightarrow> (string \<Rightarrow> 'db others) \<Rightarrow> ('db others \<times> bool) list \<Rightarrow> string \<Rightarrow> string \<Rightarrow> string
    \<Rightarrow> string \<Rightarrow> ('db pulld, unit) prog" where
  "watch_main L sh pauses rec_bin_dir rec_pid_dir net_type mongo_addr =
     bindP (get_local_ip_d net_type []) (\<lambda>(_, local_ip).
     bindP (modP (\<lambda>s. s\<lparr>pd_running := True\<rparr>)) (\<lambda>_.
     watch_loop L sh rec_bin_dir rec_pid_dir local_ip mongo_addr pauses))"

text \<open>
  \<open>argv\<close> is the argument vector, \<open>rp\<close> what \<open>realpath\<close> resolves the program's path to; it is written to
  256 bytes. No branch tests a \<open>GetStr\<close> against \<open>NULL\<close>, which it never returns.
\<close>

definition pulld_main :: "('db, 'j) lib \<Rightarrow> bool \<Rightarrow> (string \<Rightarrow> 'db others) \<Rightarrow> ('db others \<times> bool) list
    \<Rightarrow> (nat \<times> string) list \<Rightarrow> string option \<Rightarrow> ('db pulld, int) prog" where
  "pulld_main L lax sh pauses argv rp =
     (if argv = [] \<or> (\<exists>r. rp = Some r \<and> 256 \<le> length r) then stop_with Undefined
      else
      bindP (get_cur_path_d (snd (hd argv)) (int CONF_PATH_LENGTH)) (\<lambda>sbin_path.
      let g_parg = new_conf argv sbin_path in
      bindP (getP (os_files \<circ> ls_os)) (\<lambda>fs.
      bindP (on_ini_d (Load fs (gc_conf_path g_parg))) (\<lambda>_.
      bindP (on_ini_d (GetStr ''system'' ''daemon'')) (\<lambda>dae.
      let is_daemon = (dae = ''on'') in
      bindP (on_ini_d (GetStr ''child'' ''bin_dir'')) (\<lambda>child_bin_dir.
      let rec_bin_dir = snprintf 1024 (child_bin_dir @ ''sbin/pull'');
          rec_pid_dir = snprintf 1024 (child_bin_dir @ ''log/pid'') in
      bindP (on_ini_d (GetStr ''system'' ''net_type'')) (\<lambda>net_type.
      if net_type = [] then bindP (printf ''net_type unspacified'') (\<lambda>_. stop_with (Exited 0))
      else
      bindP (on_ini_d (GetStr ''mongodb'' ''address'')) (\<lambda>mongo_addr.
      if mongo_addr = []
      then bindP (rec_log LOG_INFO ''mongdb address unspecified'') (\<lambda>_. stop_with (Exited 0))
      else
      bindP (create_log lax is_daemon (gc_log_path g_parg)) (\<lambda>_.
      bindP (if is_daemon then daemon_d (gc_pid_path g_parg) else ret (0, None)) (\<lambda>(rv, tmp).
      bindP (if rv \<noteq> 0 then bindP (rec_log LOG_INFO ''daemon error'') (\<lambda>_. ret ())
             else watch_main L sh pauses rec_bin_dir rec_pid_dir net_type mongo_addr) (\<lambda>_.
      bindP CLog_delete (\<lambda>_.
      ret 0))))))))))))"

section \<open>Calls\<close>

lemma bindP_log_os: "m (ls_os s) = (Returned x, o') \<Longrightarrow> bindP (log_os m) k s = k x (s\<lparr>ls_os := o'\<rparr>)"
  by (simp add: log_os_def zoom_def bindP_def)

lemma bindP_never:
  assumes "\<And>x w'. fst (k x w') \<noteq> Returned y"
  shows "fst (bindP m k s) \<noteq> Returned y"
proof (cases "m s")
  case (Pair r w')
  then show ?thesis using assms by (cases r) (simp_all add: bindP_def)
qed

section \<open>The decision\<close>

lemma check_alive_locked:
  assumes "\<not> os_denied (ls_os s) (c_str f)" "os_locks (ls_os s) (c_str f) = Some p" "p \<noteq> os_pid (ls_os s)"
  shows "check_process_alive L f host mdb s =
           (Returned True, s\<lparr>ls_os := (ls_os s)\<lparr>os_files := (if os_files (ls_os s) (c_str f) = None
              then (os_files (ls_os s))(c_str f \<mapsto> []) else os_files (ls_os s))\<rparr>\<rparr>)"
proof -
  define fs where "fs = (if os_files (ls_os s) (c_str f) = None then (os_files (ls_os s))(c_str f \<mapsto> []) else os_files (ls_os s))"
  obtain fd o1 where p: "sys_open (c_str f) True (ls_os s) = (Returned fd, o1)" "0 \<le> fd" "sys_tlock fd o1 = (Returned (- 1), o1)"
    "sys_close fd o1 = (Returned 0, (ls_os s)\<lparr>os_files := fs\<rparr>)"
    "\<And>fs. sys_close fd ((ls_os s)\<lparr>os_files := fs\<rparr>) = (Returned (- 1), (ls_os s)\<lparr>os_files := fs\<rparr>)"
    using probe_locked[OF assms] unfolding fs_def by metis
  have "check_process_alive L f host mdb s = (Returned True, s\<lparr>ls_os := (ls_os s)\<lparr>os_files := fs\<rparr>\<rparr>)"
    using p(2) by (simp add: check_process_alive_def bindP_log_os p(1,3,4,5) ret_def)
  then show ?thesis by (simp add: fs_def)
qed

text \<open>
  The check has two halves: it looks at the lock and gives it back, then it acts on what it saw. Between
  them the lock is free.
\<close>

definition probe_lock :: "string \<Rightarrow> ('db pulld, int \<times> int) prog" where
  "probe_lock file =
     bindP (log_os (sys_open (c_str file) True)) (\<lambda>m_fd.
     if m_fd = - 1
     then bindP (rec_log LOG_CRIT (''wrtie pid : Open '' @ c_str file)) (\<lambda>_. stop_with (Exited 0))
     else
     bindP (log_os (sys_tlock m_fd)) (\<lambda>rv.
     bindP (log_os (sys_close m_fd)) (\<lambda>_. ret (m_fd, rv))))"

definition clean_up :: "('db, 'j) lib \<Rightarrow> string \<Rightarrow> string \<Rightarrow> int \<Rightarrow> ('db pulld, bool) prog" where
  "clean_up L host mdb m_fd =
     bindP (log_os (sys_ulock m_fd)) (\<lambda>_.
     bindP (rec_log LOG_CRIT (''pull2push does not running, host = '' @ c_str host)) (\<lambda>_.
     bindP (is_host_exist_d L host mdb) (\<lambda>ex.
     bindP (if ex then bindP (remove_host_d L host mdb) (\<lambda>_. ret ()) else ret ()) (\<lambda>_.
     bindP (log_os (sys_close m_fd)) (\<lambda>_. ret False)))))"

lemma bindP_if: "bindP (if b then m else n) k = (if b then bindP m k else bindP n k)"
  by simp

lemma bindP_exit: "bindP (stop_with (Exited n)) k = stop_with (Exited n)"
  by (rule ext) (simp add: bindP_def stop_with_def)

lemma check_process_alive_split:
  "check_process_alive L f host mdb =
     bindP (probe_lock f) (\<lambda>(fd, rv).
     if rv < 0 then bindP (log_os (sys_close fd)) (\<lambda>_. ret True) else clean_up L host mdb fd)"
  by (simp add: check_process_alive_def probe_lock_def clean_up_def bindP_assoc bindP_if bindP_exit cong: if_cong)

text \<open>The check when no other process has the lock, up to the messages and the database.\<close>

lemma probe_free_runs:
  assumes "\<not> os_denied (ls_os s) (c_str f)" "\<not> (\<exists>p. os_locks (ls_os s) (c_str f) = Some p \<and> p \<noteq> os_pid (ls_os s))"
  obtains fd o2 where "probe_lock f s = (Returned (fd, 0), s\<lparr>ls_os := o2\<rparr>)"
    and "os_kept (ls_os s) o2" "os_locks o2 (c_str f) = None"
proof -
  obtain fd o1 o2 o3 where p: "sys_open (c_str f) True (ls_os s) = (Returned fd, o1)" "0 \<le> fd" "sys_tlock fd o1 = (Returned 0, o2)"
    "sys_close fd o2 = (Returned 0, o3)" and k: "os_kept (ls_os s) o3" "os_locks o3 (c_str f) = None"
    by (rule probe_free[of "ls_os s" "c_str f"]) (use assms in auto)
  have "probe_lock f s = (Returned (fd, 0), s\<lparr>ls_os := o3\<rparr>)"
    using p(2) by (simp add: probe_lock_def bindP_log_os p(1,3,4) ret_def)
  then show thesis using k by (rule that)
qed

lemma check_free_runs:
  assumes "\<not> os_denied (ls_os s) (c_str f)" "\<not> (\<exists>p. os_locks (ls_os s) (c_str f) = Some p \<and> p \<noteq> os_pid (ls_os s))"
  obtains fd o2 where "os_kept (ls_os s) o2" "os_locks o2 (c_str f) = None"
    and "check_process_alive L f host mdb s = clean_up L host mdb fd (s\<lparr>ls_os := o2\<rparr>)"
proof (rule probe_free_runs[OF assms])
  fix fd o2 assume p: "probe_lock f s = (Returned (fd, 0), s\<lparr>ls_os := o2\<rparr>)" and k: "os_kept (ls_os s) o2" "os_locks o2 (c_str f) = None"
  show thesis
    by (intro that[OF k, of fd]) (simp add: check_process_alive_split bindP_Returned[where m = "probe_lock _", OF p])
qed

lemma check_not_locked:
  assumes "\<not> os_denied (ls_os s) (c_str f)" "\<not> (\<exists>p. os_locks (ls_os s) (c_str f) = Some p \<and> p \<noteq> os_pid (ls_os s))"
  shows "fst (check_process_alive L f host mdb s) \<noteq> Returned True"
proof (rule check_free_runs[OF assms, of L host mdb])
  fix fd o2 assume run: "check_process_alive L f host mdb s = clean_up L host mdb fd (s\<lparr>ls_os := o2\<rparr>)"
  show ?thesis
    unfolding run clean_up_def by (intro bindP_never) (simp add: ret_def)
qed

text \<open>
  C16 (alive means locked). When the pid file can be opened, \<open>check_process_alive\<close> says the server runs
  exactly if another process holds the lock on the file, and then has only created the file if there was
  none; in every other case it does not say so, whatever the log and the database do.
\<close>

theorem check_process_alive_lock:
  assumes "\<not> os_denied (ls_os s) (c_str f)"
  shows "if \<exists>p. os_locks (ls_os s) (c_str f) = Some p \<and> p \<noteq> os_pid (ls_os s)
         then check_process_alive L f host mdb s =
                (Returned True, s\<lparr>ls_os := (ls_os s)\<lparr>os_files := (if os_files (ls_os s) (c_str f) = None
                   then (os_files (ls_os s))(c_str f \<mapsto> []) else os_files (ls_os s))\<rparr>\<rparr>)
         else fst (check_process_alive L f host mdb s) \<noteq> Returned True"
proof (cases "\<exists>p. os_locks (ls_os s) (c_str f) = Some p \<and> p \<noteq> os_pid (ls_os s)")
  case True
  then obtain p where p: "os_locks (ls_os s) (c_str f) = Some p" "p \<noteq> os_pid (ls_os s)" by blast
  show ?thesis using True check_alive_locked[OF assms p, of L host mdb] by simp
next
  case False
  then show ?thesis using check_not_locked[OF assms False] by (simp only: False if_False not_False_eq_True)
qed

text \<open>A watchdog in the foreground on a plain system, and its database.\<close>

definition mem_watch :: "mem_db \<Rightarrow> (string \<rightharpoonup> int) \<Rightarrow> mem_db pulld" where
  "mem_watch d locks =
     \<lparr>ls_log = CLog_new\<lparr>cl_log_tank := Some LOG_TANK_CONSOLE, cl_stratege_type := PURE_LOG_TIME\<rparr>,
      ls_os = plain_os [''/srv/log/pid'' \<mapsto> []] locks, ls_clock = (\<lambda>_. noon), ls_ticks = 0, ls_out = [],
      pd_mongo = \<lparr>w_db = d, w_clients = 0, w_colls = 0, w_cursors = 0, w_bsons = 0\<rparr>, pd_psyslog = True, pd_running = True,
      pd_ini = CIniReader_new, pd_ran = []\<rparr>"

theorem check_process_alive_lock_witness:
  "fst (check_process_alive mem_lib ''/srv/log/pid'' ''10.0.0.7'' ''mongodb://a'' (mem_watch [] [''/srv/log/pid'' \<mapsto> 7])) = Returned True \<and>
   fst (check_process_alive mem_lib ''/srv/log/pid'' ''10.0.0.7'' ''mongodb://a'' (mem_watch [] Map.empty)) \<noteq> Returned True"
proof -
  have c: "c_str ''/srv/log/pid'' = ''/srv/log/pid''" by (simp add: c_str_def NUL_def)
  have n: "\<not> os_denied (ls_os (mem_watch [] l)) (c_str ''/srv/log/pid'')" for l by (simp add: mem_watch_def plain_os_def)
  have l: "\<exists>p. os_locks (ls_os (mem_watch [] [''/srv/log/pid'' \<mapsto> 7])) (c_str ''/srv/log/pid'') = Some p \<and>
      p \<noteq> os_pid (ls_os (mem_watch [] [''/srv/log/pid'' \<mapsto> 7]))"
    unfolding c by (simp add: mem_watch_def plain_os_def)
  have u: "\<not> (\<exists>p. os_locks (ls_os (mem_watch [] Map.empty)) (c_str ''/srv/log/pid'') = Some p \<and>
      p \<noteq> os_pid (ls_os (mem_watch [] Map.empty)))"
    by (simp add: mem_watch_def plain_os_def)
  show ?thesis
    using check_process_alive_lock[OF n, of "[''/srv/log/pid'' \<mapsto> 7]" mem_lib "''10.0.0.7''" "''mongodb://a''"]
      check_process_alive_lock[OF n, of Map.empty mem_lib "''10.0.0.7''" "''mongodb://a''"]
    unfolding if_P[OF l] if_not_P[OF u] by simp
qed

section \<open>A dead server\<close>

text \<open>The log is set up so that writing to it returns.\<close>

definition watching :: "'db pulld \<Rightarrow> bool" where
  "watching s \<longleftrightarrow> pd_psyslog s \<and> cl_log_tank (ls_log s) \<noteq> None \<and> cl_stratege_type (ls_log s) = PURE_LOG_TIME"

text \<open>What logging leaves as it is.\<close>

definition logged :: "'db pulld \<Rightarrow> 'db pulld \<Rightarrow> bool" where
  "logged s t \<longleftrightarrow>
     watching t \<and> pd_mongo t = pd_mongo s \<and> pd_ran t = pd_ran s \<and> pd_running t = pd_running s \<and>
     os_kept (ls_os s) (ls_os t)"

lemma rec_log_runs:
  assumes "watching s"
  obtains v t where "rec_log l msg s = (Returned v, t)" "logged s t"
proof -
  obtain T where T: "cl_log_tank (ls_log s) = Some T" using assms by (auto simp: watching_def)
  then have "log_frame T (log_sys.more s) (ls_os s) s"
    using assms by (simp add: log_frame_def watching_def)
  from yieldsE[OF yields_prt this] obtain v t where p: "prt l msg s = (Returned v, t)"
    "log_frame T (log_sys.more s) (ls_os s) t" .
  have "pd_mongo t = pd_mongo s" "pd_ran t = pd_ran s" "pd_running t = pd_running s" "pd_psyslog t = pd_psyslog s"
    using p(2) by (cases s; cases t; simp add: log_frame_def)+
  then have "logged s t" using p(2) assms by (auto simp: logged_def watching_def log_frame_def)
  moreover have "rec_log l msg s = (Returned v, t)" using p(1) assms by (simp add: rec_log_def watching_def)
  ultimately show thesis using that by blast
qed

definition host_place :: "string \<Rightarrow> coll" where
  "host_place mdb = (c_str mdb, MONGODB_DATABASE, MONGODB_COLLECTION_HOSTINFO)"

definition host_records :: "('db \<Rightarrow> coll \<Rightarrow> bson multiset) \<Rightarrow> 'db \<Rightarrow> string \<Rightarrow> string \<Rightarrow> bson multiset" where
  "host_records docs d mdb host = filter_mset (has_field ''host'' (Utf8 (c_str host))) (docs d (host_place mdb))"

text \<open>The two registry operations after their first message, the database being reachable.\<close>

lemma log_then:
  assumes "watching s" "\<And>v u. logged s u \<Longrightarrow> \<exists>x t. k v u = (Returned x, t) \<and> Q x t"
  shows "\<exists>x t. bindP (rec_log l msg) k s = (Returned x, t) \<and> Q x t"
proof -
  obtain v u where "rec_log l msg s = (Returned v, u)" "logged s u" using rec_log_runs[OF assms(1)] .
  with assms(2)[of u v] show ?thesis by (simp add: bindP_def)
qed

lemma bindP_on_mongo: "m (pd_mongo s) = (Returned x, w) \<Longrightarrow> bindP (on_mongo m) k s = k x (s\<lparr>pd_mongo := w\<rparr>)"
  by (simp add: on_mongo_def zoom_def bindP_def)

lemma connect_d_up:
  assumes "db_up L mdb MONGODB_DATABASE MONGODB_COLLECTION_HOSTINFO"
  shows "bindP (connect_d L mdb) k s = k (Some (c_str mdb)) (s\<lparr>pd_mongo := (pd_mongo s)\<lparr>w_clients := w_clients (pd_mongo s) + 1\<rparr>\<rparr>)"
    and "bindP (collection_d L (Some (c_str mdb)) MONGODB_DATABASE MONGODB_COLLECTION_HOSTINFO) h s =
           h (Some (host_place mdb)) (s\<lparr>pd_mongo := (pd_mongo s)\<lparr>w_colls := w_colls (pd_mongo s) + 1\<rparr>\<rparr>)"
  using assms
  by (simp_all add: connect_d_def collection_d_def db_up_def assert_then_def log_if_def bindP_assoc bindP_on_mongo[OF refl]
      modP_def host_place_def Let_def bindP_on_mongo)

lemma adaptor_d_runs:
  "bindP (on_mongo bson_new) k s = k () (s\<lparr>pd_mongo := (pd_mongo s)\<lparr>w_bsons := w_bsons (pd_mongo s) + 1\<rparr>\<rparr>)"
  "bindP (on_mongo bson_destroy) k s = k () (s\<lparr>pd_mongo := (pd_mongo s)\<lparr>w_bsons := w_bsons (pd_mongo s) - 1\<rparr>\<rparr>)"
  "bindP (collection_release_d (Some c)) k s = k () (s\<lparr>pd_mongo := (pd_mongo s)\<lparr>w_colls := w_colls (pd_mongo s) - 1\<rparr>\<rparr>)"
  "bindP (connect_close_d (Some a)) k s = k () (s\<lparr>pd_mongo := (pd_mongo s)\<lparr>w_clients := w_clients (pd_mongo s) - 1\<rparr>\<rparr>)"
  by (simp_all add: bson_new_def bson_destroy_def collection_release_d_def connect_close_d_def bindP_on_mongo modP_def)

lemma findOne_d_up:
  assumes "\<forall>doc\<in>set (l_find L c q (w_db (pd_mongo s))). l_as_json L doc \<noteq> None"
  shows "bindP (findOne_d L (Some c) q item) h s =
     (case l_find L c q (w_db (pd_mongo s)) of
        [] \<Rightarrow> h (rec_err REC_ERROR_PORCESS_INFO_NONE_d, item)
      | doc # _ \<Rightarrow> h (rec_err REC_ERROR_OK_d, c_str (the (l_as_json L doc))))
     (s\<lparr>pd_mongo := (pd_mongo s)\<lparr>w_cursors := w_cursors (pd_mongo s) + 1\<rparr>\<rparr>)"
  using assms
  by (auto simp: findOne_d_def assert_then_def bindP_assoc bindP_on_mongo open_cursor_def
      split: list.split option.split)

text \<open>What a call of the watchdog leaves as it is.\<close>

definition kept :: "'db pulld \<Rightarrow> 'db pulld \<Rightarrow> bool" where
  "kept s t \<longleftrightarrow>
     watching t \<and> pd_ran t = pd_ran s \<and> pd_running t = pd_running s \<and>
     os_kept (ls_os s) (ls_os t)"

lemma kept_refl: "watching s \<Longrightarrow> kept s s"
  by (simp add: kept_def)

lemma kept_trans [trans]: "kept s t \<Longrightarrow> kept t u \<Longrightarrow> kept s u"
  by (auto simp: kept_def intro: os_kept_trans)

lemma kept_watching: "kept s t \<Longrightarrow> watching t"
  by (simp add: kept_def)

lemma logged_kept: "logged s t \<Longrightarrow> kept s t"
  by (simp add: kept_def logged_def)

lemma kept_os: "watching s \<Longrightarrow> os_kept (ls_os s) o2 \<Longrightarrow> kept s (s\<lparr>ls_os := o2\<rparr>)"
  by (simp add: kept_def watching_def)

lemma is_host_exist_d_runs:
  assumes "watching s" "lib_laws L docs" "db_up L mdb MONGODB_DATABASE MONGODB_COLLECTION_HOSTINFO"
  shows "\<exists>b t. is_host_exist_d L host mdb s = (Returned b, t) \<and>
           (b \<longleftrightarrow> host_records docs (w_db (pd_mongo s)) mdb host \<noteq> {#}) \<and> kept s t \<and> w_db (pd_mongo t) = w_db (pd_mongo s)"
  unfolding is_host_exist_d_def
proof (rule log_then[OF assms(1)])
  fix v u assume u: "logged s u"
  let ?found = "l_find L (host_place mdb) [(''host'', Utf8 (c_str host))] (w_db (pd_mongo u))"
  let ?u = "u\<lparr>pd_mongo := (pd_mongo u)\<lparr>w_cursors := w_cursors (pd_mongo u) + 1\<rparr>\<rparr>"
  have m: "mset ?found = host_records docs (w_db (pd_mongo u)) mdb host"
    unfolding host_records_def by (rule find_lawD[OF lib_lawsD(1)[OF assms(2)]]) simp
  then have "set ?found \<subseteq> set_mset (docs (w_db (pd_mongo u)) (host_place mdb))"
    by (metis host_records_def multiset_filter_subset set_mset_mono set_mset_mset)
  then have js: "\<forall>doc\<in>set ?found. l_as_json L doc \<noteq> None"
    using lib_lawsD(6)[OF assms(2)] unfolding text_law_def by blast
  have wu: "watching ?u" using u by (simp add: logged_def watching_def)
  let ?b = "?found \<noteq> []"
  have run: "query_host_d L host mdb u = (Returned (if ?b then 0 else 2), ?u)"
    using js by (cases ?found) (auto simp: query_host_d_def connect_d_up[OF assms(3)] adaptor_d_runs findOne_d_up ret_def)
  have b: "?b \<longleftrightarrow> host_records docs (w_db (pd_mongo s)) mdb host \<noteq> {#}"
    using m u by (cases ?found) (auto simp: logged_def)
  have k: "kept s t \<and> w_db (pd_mongo t) = w_db (pd_mongo s)" if "logged ?u t" for t
    using that u by (auto simp: kept_def logged_def intro: os_kept_trans)
  let ?Q = "\<lambda>x t. (x \<longleftrightarrow> host_records docs (w_db (pd_mongo s)) mdb host \<noteq> {#}) \<and> kept s t \<and> w_db (pd_mongo t) = w_db (pd_mongo s)"
  have "\<exists>x t. bindP (rec_log LOG_INFO msg) (\<lambda>_. ret ?b) ?u = (Returned x, t) \<and> ?Q x t" for msg
    by (rule log_then[OF wu]) (use b k in \<open>auto simp: ret_def\<close>)
  then show "\<exists>x t. bindP (query_host_d L host mdb) (\<lambda>rv.
     if rec_err REC_ERROR_OK_d = rv
     then bindP (rec_log LOG_INFO (''cache host: '' @ c_str host @ '' exist'')) (\<lambda>_. ret True)
     else bindP (rec_log LOG_INFO (''cache host: '' @ c_str host @ '' not exist'')) (\<lambda>_. ret False)) u = (Returned x, t) \<and> ?Q x t"
    unfolding bindP_Returned[where m = "query_host_d L host mdb", OF run] by (cases ?b) simp_all
qed

text \<open>
  What an attempt to remove a record of the host does to the number of its records: it does not grow, and when the
  driver accepts what it is asked it is one less.
\<close>

definition one_less :: "('db, 'j) lib \<Rightarrow> ('db \<Rightarrow> coll \<Rightarrow> bson multiset) \<Rightarrow> string \<Rightarrow> string \<Rightarrow> 'db \<Rightarrow> 'db \<Rightarrow> bool" where
  "one_less L docs mdb host d d' \<longleftrightarrow>
     size (host_records docs d' mdb host) \<le> size (host_records docs d mdb host) \<and>
     (driver_ok L (host_place mdb) \<longrightarrow>
        size (host_records docs d' mdb host) = size (host_records docs d mdb host) - 1)"

lemma one_lessD:
  assumes "one_less L docs mdb host d d'"
  shows "size (host_records docs d' mdb host) \<le> size (host_records docs d mdb host)"
    and "driver_ok L (host_place mdb) \<Longrightarrow> size (host_records docs d' mdb host) = size (host_records docs d mdb host) - 1"
  using assms by (simp_all add: one_less_def)

lemma one_less_none: "host_records docs d mdb host = {#} \<Longrightarrow> one_less L docs mdb host d d"
  by (simp only: one_less_def size_empty diff_0_eq_0 simp_thms order_refl)

lemma remove_one_less:
  assumes "lib_laws L docs" "l_remove L (host_place mdb) [(''host'', Utf8 (c_str host))] d = (ok, d')"
  shows "one_less L docs mdb host d d'"
proof -
  let ?P = "has_field ''host'' (Utf8 (c_str host))" and ?c = "host_place mdb"
  have "docs d' = docs d \<and> (ok \<longrightarrow> filter_mset ?P (docs d ?c) = {#}) \<or>
      ok \<and> (\<exists>x. x \<in># docs d ?c \<and> ?P x \<and> docs d' = (docs d)(?c := docs d ?c - {#x#}))"
    using lib_lawsD(4)[OF assms(1), unfolded remove_law_def, rule_format, OF _ assms(2)] by simp
  then show ?thesis
  proof (elim disjE conjE exE)
    assume d: "docs d' = docs d" and none: "ok \<longrightarrow> filter_mset ?P (docs d ?c) = {#}"
    have same: "host_records docs d' mdb host = host_records docs d mdb host" by (simp only: host_records_def d)
    have "host_records docs d mdb host = {#}" if "driver_ok L ?c"
      using none that assms(2) unfolding driver_ok_def host_records_def by (metis fst_conv)
    then show ?thesis unfolding one_less_def same by (metis diff_0_eq_0 order_refl size_empty)
  next
    fix x assume x: "x \<in># docs d ?c" "?P x" "docs d' = (docs d)(?c := docs d ?c - {#x#})"
    have fd: "filter_mset ?P (D - {#x#}) = filter_mset ?P D - {#x#}" for D using x(2) by (simp add: filter_diff_mset)
    have "host_records docs d' mdb host = host_records docs d mdb host - {#x#}"
      unfolding host_records_def fd[symmetric] by (simp add: x(3))
    moreover have "x \<in># host_records docs d mdb host" unfolding host_records_def using x(1,2) by simp
    ultimately have "size (host_records docs d' mdb host) = size (host_records docs d mdb host) - 1"
      by (simp only: size_Diff_singleton)
    then show ?thesis by (simp only: one_less_def diff_le_self simp_thms)
  qed
qed

lemma remove_host_d_runs:
  assumes "watching s" "lib_laws L docs" "db_up L mdb MONGODB_DATABASE MONGODB_COLLECTION_HOSTINFO"
  shows "\<exists>v t. remove_host_d L host mdb s = (Returned v, t) \<and> kept s t \<and>
           one_less L docs mdb host (w_db (pd_mongo s)) (w_db (pd_mongo t))"
  unfolding remove_host_d_def
proof (rule log_then[OF assms(1)])
  fix v u assume u: "logged s u"
  obtain ok d where r: "l_remove L (host_place mdb) [(''host'', Utf8 (c_str host))] (w_db (pd_mongo u)) = (ok, d)" by fastforce
  have rm: "bindP (remove_d L (Some (host_place mdb)) [(''host'', Utf8 (c_str host))]) h q =
      h (if ok then 1 else 0) (q\<lparr>pd_mongo := (pd_mongo q)\<lparr>w_db := d\<rparr>\<rparr>)"
    if "w_db (pd_mongo q) = w_db (pd_mongo u)" for h and q :: "'a pulld"
    using that r by (simp add: remove_d_def assert_then_def bindP_on_mongo driver_call_def)
  let ?u = "u\<lparr>pd_mongo := (pd_mongo u)\<lparr>w_db := d\<rparr>\<rparr>"
  let ?rest = "bindP (connect_d L mdb) (\<lambda>conn.
     bindP (collection_d L conn MONGODB_DATABASE MONGODB_COLLECTION_HOSTINFO) (\<lambda>coll.
     bindP (on_mongo bson_new) (\<lambda>_.
     bindP (remove_d L coll [(''host'', Utf8 (c_str host))]) (\<lambda>ok.
     bindP (on_mongo bson_destroy) (\<lambda>_.
     bindP (collection_release_d coll) (\<lambda>_.
     bindP (connect_close_d conn) (\<lambda>_.
     ret (if ok = 0 then rec_err REC_ERROR_MONGODB_d else rec_err REC_ERROR_OK_d))))))))"
  obtain e where run: "?rest u = (Returned e, ?u)"
    by (simp add: connect_d_up[OF assms(3)] adaptor_d_runs rm ret_def)
  have "w_db (pd_mongo u) = w_db (pd_mongo s)" using u by (simp add: logged_def)
  then have "one_less L docs mdb host (w_db (pd_mongo s)) d" using remove_one_less[OF assms(2) r] by simp
  moreover have "kept s ?u" using u by (auto simp: kept_def logged_def watching_def)
  ultimately show "\<exists>x t. ?rest u = (Returned x, t) \<and> kept s t \<and> one_less L docs mdb host (w_db (pd_mongo s)) (w_db (pd_mongo t))"
    unfolding run by simp
qed

lemma watching_os: "watching (s\<lparr>ls_os := o'\<rparr>) = watching s"
  by (simp add: watching_def)

text \<open>The check when no other process has the lock.\<close>

lemma clean_record_runs:
  assumes "watching s" "lib_laws L docs" "db_up L mdb MONGODB_DATABASE MONGODB_COLLECTION_HOSTINFO"
    and "b \<longleftrightarrow> host_records docs (w_db (pd_mongo s)) mdb host \<noteq> {#}"
  obtains t where "(if b then bindP (remove_host_d L host mdb) (\<lambda>_. ret ()) else ret ()) s = (Returned (), t)" "kept s t"
    and "one_less L docs mdb host (w_db (pd_mongo s)) (w_db (pd_mongo t))"
proof (cases b)
  case False
  then show ?thesis using that[of s] assms(1,4) one_less_none[of docs _ mdb host L] by (simp add: ret_def kept_def)
next
  case True
  obtain v t where t: "remove_host_d L host mdb s = (Returned v, t)" "kept s t"
    "one_less L docs mdb host (w_db (pd_mongo s)) (w_db (pd_mongo t))"
    using remove_host_d_runs[OF assms(1-3), of host] by auto
  show ?thesis
    by (rule that[of t]) (use True t in \<open>auto simp: bindP_def ret_def\<close>)
qed

lemma clean_up_runs:
  fixes host :: string
  assumes "watching s" "lib_laws L docs" "db_up L mdb MONGODB_DATABASE MONGODB_COLLECTION_HOSTINFO"
  obtains t where "clean_up L host mdb fd s = (Returned False, t)" "kept s t"
    and "one_less L docs mdb host (w_db (pd_mongo s)) (w_db (pd_mongo t))"
proof -
  let ?R = "host_records docs (w_db (pd_mongo s)) mdb host"
  obtain v4 o4 where c4: "sys_ulock fd (ls_os s) = (Returned v4, o4)" "os_kept (ls_os s) o4" using os_kept_runs(2) by blast
  let ?s4 = "s\<lparr>ls_os := o4\<rparr>"
  have k4: "kept s ?s4" "watching ?s4" using c4(2) assms(1) by (simp_all add: kept_def watching_def)
  obtain v5 s5 where l5: "rec_log LOG_CRIT (''pull2push does not running, host = '' @ c_str host) ?s4 = (Returned v5, s5)" "logged ?s4 s5"
    using rec_log_runs[OF k4(2)] .
  have w5: "watching s5" "w_db (pd_mongo s5) = w_db (pd_mongo s)" "kept ?s4 s5"
    using l5(2) logged_kept[OF l5(2)] by (auto simp: logged_def simp del: not_None_eq)
  obtain b s6 where e6: "is_host_exist_d L host mdb s5 = (Returned b, s6)" "b \<longleftrightarrow> ?R \<noteq> {#}" "kept s5 s6"
      "w_db (pd_mongo s6) = w_db (pd_mongo s5)"
    using is_host_exist_d_runs[OF w5(1) assms(2,3), of host] w5(2) by auto
  have w6: "watching s6" "w_db (pd_mongo s6) = w_db (pd_mongo s)" using e6 w5 by (auto simp: kept_def)
  obtain s7 where r7: "(if b then bindP (remove_host_d L host mdb) (\<lambda>_. ret ()) else ret ()) s6 = (Returned (), s7)" "kept s6 s7"
      "one_less L docs mdb host (w_db (pd_mongo s)) (w_db (pd_mongo s7))"
    using clean_record_runs[OF w6(1) assms(2,3), of b host] e6(2) unfolding w6(2) by metis
  obtain v8 o8 where c8: "sys_close fd (ls_os s7) = (Returned v8, o8)" "os_kept (ls_os s7) o8" using os_kept_runs(1) by blast
  have "clean_up L host mdb fd s = (Returned False, s7\<lparr>ls_os := o8\<rparr>)"
    unfolding clean_up_def by (simp add: bindP_log_os c4(1) c8(1) ret_def
        bindP_Returned[where m = "rec_log _ _", OF l5(1)[simplified]] bindP_Returned[where m = "is_host_exist_d _ _ _", OF e6(1)]
        bindP_Returned[where m = "if _ then _ else _", OF r7(1)])
  moreover have "kept s (s7\<lparr>ls_os := o8\<rparr>)"
    using kept_os[OF _ c8(2)] r7(2) by (blast intro: kept_trans k4(1) w5(3) e6(3) dest: kept_watching)
  ultimately show thesis using r7(3) by (intro that[of "s7\<lparr>ls_os := o8\<rparr>"]) simp_all
qed

lemma check_process_dead_runs:
  fixes host :: string
  assumes "watching s" "lib_laws L docs" "db_up L mdb MONGODB_DATABASE MONGODB_COLLECTION_HOSTINFO"
    and "\<not> os_denied (ls_os s) (c_str f)" "\<forall>p. os_locks (ls_os s) (c_str f) = Some p \<longrightarrow> p = os_pid (ls_os s)"
  obtains t where "check_process_alive L f host mdb s = (Returned False, t)" "kept s t" "os_locks (ls_os t) (c_str f) = None"
    and "one_less L docs mdb host (w_db (pd_mongo s)) (w_db (pd_mongo t))"
proof (rule check_free_runs[OF assms(4), of L host mdb])
  show "\<not> (\<exists>p. os_locks (ls_os s) (c_str f) = Some p \<and> p \<noteq> os_pid (ls_os s))" using assms(5) by blast
next
  fix fd o2 assume o2: "os_kept (ls_os s) o2" "os_locks o2 (c_str f) = None"
    and run: "check_process_alive L f host mdb s = clean_up L host mdb fd (s\<lparr>ls_os := o2\<rparr>)"
  let ?s = "s\<lparr>ls_os := o2\<rparr>"
  have w: "watching ?s" using assms(1) by (simp add: watching_def)
  obtain t where t: "clean_up L host mdb fd ?s = (Returned False, t)" "kept ?s t"
    and "one_less L docs mdb host (w_db (pd_mongo ?s)) (w_db (pd_mongo t))"
    by (rule clean_up_runs[OF w assms(2,3), of host fd])
  moreover have "os_locks (ls_os t) (c_str f) = None" using t(2) o2(2) by (force simp: kept_def os_kept_def)
  moreover have "kept s t" using kept_os[OF assms(1) o2(1)] t(2) by (rule kept_trans)
  ultimately show thesis by (intro that) (simp_all add: run)
qed

text \<open>A round in which no other process holds the lock, up to what the command does.\<close>

lemma watch_round_dead:
  fixes host :: string
  assumes "watching s" "lib_laws L docs" "db_up L mdb MONGODB_DATABASE MONGODB_COLLECTION_HOSTINFO"
    and "\<not> os_denied (ls_os s) (c_str f)" "\<forall>p. os_locks (ls_os s) (c_str f) = Some p \<longrightarrow> p = os_pid (ls_os s)"
  obtains u where "watch_round L sh cmd f host mdb s = machine (sh cmd) u" "pd_ran u = pd_ran s @ [cmd]"
    and "watching u" "os_kept (ls_os s) (ls_os u)" "os_locks (ls_os u) (c_str f) = None"
    and "one_less L docs mdb host (w_db (pd_mongo s)) (w_db (pd_mongo u))"
proof -
  obtain t where t: "check_process_alive L f host mdb s = (Returned False, t)" "kept s t" "os_locks (ls_os t) (c_str f) = None"
    and gone: "one_less L docs mdb host (w_db (pd_mongo s)) (w_db (pd_mongo t))"
    by (rule check_process_dead_runs[OF assms, of host])
  obtain v u where u: "rec_log LOG_INFO (''run bin dir: '' @ cmd) t = (Returned v, u)" "logged t u"
    using rec_log_runs[OF kept_watching[OF t(2)]] .
  have k: "kept s u" using t(2) logged_kept[OF u(2)] by (rule kept_trans)
  have l: "os_locks (ls_os u) (c_str f) = None" using u(2) t(3) by (force simp: logged_def os_kept_def)
  have run: "watch_round L sh cmd f host mdb s = machine (sh cmd) (u\<lparr>pd_ran := pd_ran u @ [cmd]\<rparr>)"
    by (simp add: watch_round_def bindP_Returned[where m = "check_process_alive _ _ _ _", OF t(1)]
        bindP_Returned[where m = "rec_log _ _", OF u(1)[simplified]] run_system_def)
  show thesis
    by (rule that[OF run]) (use k l gone u(2) in \<open>simp_all add: kept_def logged_def watching_def\<close>)
qed

text \<open>
  C3 (a dead server is replaced). In a round in which no other process holds the lock, with a database that can be
  reached and accepts the removal, and one record of the host in the registry, the watchdog removes the record and then runs
  the server's command, once; a server that starts from that database can register the host.
\<close>

theorem dead_server_replaced:
  assumes "watching s" "lib_laws L docs" "db_up L mdb MONGODB_DATABASE MONGODB_COLLECTION_HOSTINFO"
    and "driver_ok L (host_place mdb)"
    and "\<not> os_denied (ls_os s) (c_str f)" "\<forall>p. os_locks (ls_os s) (c_str f) = Some p \<longrightarrow> p = os_pid (ls_os s)"
    and "size (host_records docs (w_db (pd_mongo s)) mdb host) = 1"
  shows "\<exists>u. watch_round L sh cmd f host mdb s = machine (sh cmd) u \<and> pd_ran u = pd_ran s @ [cmd] \<and>
           host_records docs (w_db (pd_mongo u)) mdb host = {#} \<and>
           (\<forall>w port. w_db_address w = mdb \<and> w_db w = w_db (pd_mongo u) \<longrightarrow>
              fst (host_register L host port w) = Returned True)"
proof -
  obtain u where u: "watch_round L sh cmd f host mdb s = machine (sh cmd) u" "pd_ran u = pd_ran s @ [cmd]"
    and gone: "host_records docs (w_db (pd_mongo u)) mdb host = {#}"
    by (rule watch_round_dead[OF assms(1-3,5,6), of sh cmd host]) (use assms(4,7) one_lessD(2)[OF _ assms(4)] in fastforce)
  have "fst (host_register L host port w) = Returned True"
    if "w_db_address w = mdb" "w_db w = w_db (pd_mongo u)" for w port
  proof -
    have "hosts_up L w" using assms(3) that(1) by (simp add: hosts_up_def)
    moreover have "host_docs docs w (c_str host) = {#}"
      using gone that by (simp add: host_docs_def host_records_def host_coll_def host_place_def)
    ultimately show ?thesis using host_register_free[OF assms(2), of w host port] by (metis fst_conv)
  qed
  with u gone show ?thesis by blast
qed

lemma mem_watch_watching: "watching (mem_watch d l)"
  by (simp add: watching_def mem_watch_def)

theorem dead_server_replaced_witness:
  "\<exists>u. watch_round mem_lib (\<lambda>c. id) ''/srv/sbin/pull'' ''/srv/log/pid'' ''10.0.0.7'' ''mongodb://a''
         (mem_watch [mem_host_entry] Map.empty) = machine id u \<and>
       pd_ran u = [''/srv/sbin/pull''] \<and> host_records mem_docs (w_db (pd_mongo u)) ''mongodb://a'' ''10.0.0.7'' = {#}"
proof -
  let ?s = "mem_watch [mem_host_entry] Map.empty"
  have n: "\<not> os_denied (ls_os ?s) (c_str ''/srv/log/pid'')"
    "\<forall>p. os_locks (ls_os ?s) (c_str ''/srv/log/pid'') = Some p \<longrightarrow> p = os_pid (ls_os ?s)"
    by (simp_all add: mem_watch_def plain_os_def)
  have up: "db_up mem_lib ''mongodb://a'' MONGODB_DATABASE MONGODB_COLLECTION_HOSTINFO"
    using mem_configured_up[of "[]"] by (simp add: hosts_up_def mem_configured mem_world_def)
  have sz: "size (host_records mem_docs (w_db (pd_mongo ?s)) ''mongodb://a'' ''10.0.0.7'') = 1"
    by (simp add: host_records_def host_place_def mem_watch_def mem_host_entry_def has_field_def c_str_def NUL_def mem_docs_def)
  from dead_server_replaced[OF mem_watch_watching mem_lib_laws up mem_driver_ok n sz, of "\<lambda>c. id" "''/srv/sbin/pull''"]
  show ?thesis by (auto simp: mem_watch_def)
qed

section \<open>A live server\<close>

definition locked_by_other :: "string \<Rightarrow> os \<Rightarrow> bool" where
  "locked_by_other f o' \<longleftrightarrow> \<not> os_denied o' f \<and> (\<exists>p. os_locks o' f = Some p \<and> p \<noteq> os_pid o')"

lemma watch_round_live:
  assumes "locked_by_other (c_str f) (ls_os s)"
  obtains fs where "watch_round L sh cmd f host mdb s = (Returned (), s\<lparr>ls_os := (ls_os s)\<lparr>os_files := fs\<rparr>\<rparr>)"
    and "dom (os_files (ls_os s)) \<subseteq> dom fs"
proof -
  let ?fs = "if os_files (ls_os s) (c_str f) = None then (os_files (ls_os s))(c_str f \<mapsto> []) else os_files (ls_os s)"
  obtain p where "os_locks (ls_os s) (c_str f) = Some p" "p \<noteq> os_pid (ls_os s)" "\<not> os_denied (ls_os s) (c_str f)"
    using assms unfolding locked_by_other_def by blast
  then have "check_process_alive L f host mdb s = (Returned True, s\<lparr>ls_os := (ls_os s)\<lparr>os_files := ?fs\<rparr>\<rparr>)"
    by (intro check_alive_locked)
  then show thesis by (intro that[of ?fs]) (simp_all add: watch_round_def bindP_def ret_def subset_insertI)
qed

lemma machine_run:
  "machine g s = (Returned (), s\<lparr>ls_os := fst (g (ls_os s, w_db (pd_mongo s))),
     pd_mongo := (pd_mongo s)\<lparr>w_db := snd (g (ls_os s, w_db (pd_mongo s)))\<rparr>\<rparr>)"
  by (simp add: machine_def modP_def split: prod.split)

text \<open>
  C28 (a live server is left alone). As long as another process holds the lock on the pid file, whatever
  else happens in the machine, the watchdog runs no command and opens no connection to the database,
  and it ends its loop after the first sleep in which a signal arrives.
\<close>

theorem live_server_left_alone:
  assumes "watching s" "pd_running s" "locked_by_other (c_str f) (ls_os s)"
    and "\<And>g o' d. g \<in> set (last_one # gs) \<Longrightarrow> locked_by_other (c_str f) o' \<Longrightarrow> locked_by_other (c_str f) (fst (g (o', d)))"
  shows "\<exists>t. watch_loop L sh cmd f host mdb (map (\<lambda>g. (g, False)) gs @ (last_one, True) # rest) s = (Returned (), t) \<and>
           \<not> pd_running t \<and> pd_ran t = pd_ran s \<and> w_clients (pd_mongo t) = w_clients (pd_mongo s) \<and>
           w_cursors (pd_mongo t) = w_cursors (pd_mongo s)"
  using assms
proof (induction gs arbitrary: s)
  case Nil
  obtain fs where r: "watch_round L sh cmd f host mdb s = (Returned (), s\<lparr>ls_os := (ls_os s)\<lparr>os_files := fs\<rparr>\<rparr>)"
    by (rule watch_round_live[OF Nil.prems(3)])
  let ?s1 = "s\<lparr>ls_os := (ls_os s)\<lparr>os_files := fs\<rparr>\<rparr>"
  let ?s2 = "snd (machine last_one ?s1)\<lparr>pd_running := False\<rparr>"
  have w: "watching ?s2" using Nil.prems(1) by (simp add: machine_run watching_def)
  obtain v t where l: "rec_log LOG_INFO (CHR 0x0A # ''bye'') ?s2 = (Returned v, t)" "logged ?s2 t"
    using rec_log_runs[OF w] by blast
  have sg: "sig_terminal (snd (machine last_one ?s1)) = (Returned (), t)"
    using l(1) by (simp add: sig_terminal_def bindP_def ret_def modP_def)
  have nr: "\<not> pd_running t" using l(2) by (simp add: logged_def)
  then have tl: "watch_loop L sh cmd f host mdb rest t = (Returned (), t)" by (cases rest) auto
  have "watch_loop L sh cmd f host mdb ((last_one, True) # rest) s = (Returned (), t)"
    using Nil.prems(2) r sg tl machine_run[of last_one ?s1] by (simp add: bindP_def)
  then show ?case using nr l(2) by (auto simp: logged_def machine_run)
next
  case (Cons g gs)
  obtain fs where r: "watch_round L sh cmd f host mdb s = (Returned (), s\<lparr>ls_os := (ls_os s)\<lparr>os_files := fs\<rparr>\<rparr>)"
    by (rule watch_round_live[OF Cons.prems(3)])
  let ?s1 = "s\<lparr>ls_os := (ls_os s)\<lparr>os_files := fs\<rparr>\<rparr>"
  let ?s2 = "snd (machine g ?s1)"
  have "locked_by_other (c_str f) (ls_os ?s1)" using Cons.prems(3) by (simp add: locked_by_other_def)
  then have lk: "locked_by_other (c_str f) (ls_os ?s2)" using Cons.prems(4)[of g] by (simp add: machine_run)
  have w: "watching ?s2" "pd_running ?s2" using Cons.prems(1,2) by (simp_all add: machine_run watching_def)
  have "watch_loop L sh cmd f host mdb (map (\<lambda>g. (g, False)) (g # gs) @ (last_one, True) # rest) s =
      watch_loop L sh cmd f host mdb (map (\<lambda>g. (g, False)) gs @ (last_one, True) # rest) ?s2"
    using Cons.prems(2) r machine_run[of g ?s1] by (simp add: bindP_def ret_def)
  moreover have "\<exists>t. watch_loop L sh cmd f host mdb (map (\<lambda>g. (g, False)) gs @ (last_one, True) # rest) ?s2 = (Returned (), t) \<and>
           \<not> pd_running t \<and> pd_ran t = pd_ran ?s2 \<and> w_clients (pd_mongo t) = w_clients (pd_mongo ?s2) \<and>
           w_cursors (pd_mongo t) = w_cursors (pd_mongo ?s2)"
    by (rule Cons.IH[OF w lk]) (use Cons.prems(4) in auto)
  ultimately show ?case by (simp add: machine_run)
qed

lemma mem_watch_ran: "pd_ran (mem_watch d l) = []"
  by (simp add: mem_watch_def)

theorem live_server_left_alone_witness:
  "\<exists>t. watch_loop mem_lib (\<lambda>c. id) ''/srv/sbin/pull'' ''/srv/log/pid'' ''10.0.0.7'' ''mongodb://a''
         [(id, False), (id, True), (id, False)] (mem_watch [] [''/srv/log/pid'' \<mapsto> 7]) = (Returned (), t) \<and>
       \<not> pd_running t \<and> pd_ran t = []"
proof -
  have c: "c_str ''/srv/log/pid'' = ''/srv/log/pid''" by (simp add: c_str_def NUL_def)
  have l: "locked_by_other (c_str ''/srv/log/pid'') (ls_os (mem_watch [] [''/srv/log/pid'' \<mapsto> 7]))"
    unfolding c by (simp add: locked_by_other_def mem_watch_def plain_os_def)
  have r: "pd_running (mem_watch [] [''/srv/log/pid'' \<mapsto> 7])" by (simp add: mem_watch_def)
  show ?thesis
    using live_server_left_alone[OF mem_watch_watching r l, of id "[id]" mem_lib "\<lambda>c. id" "''/srv/sbin/pull''"
        "''10.0.0.7''" "''mongodb://a''" "[(id, False)]"]
    by (auto simp del: watch_loop.simps simp: mem_watch_ran)
qed

section \<open>A server in the foreground\<close>

text \<open>The server takes the lock on its pid file in \<open>daemon\<close> only.\<close>

definition same_locks :: "'db server \<Rightarrow> 'db server \<Rightarrow> bool" where
  "same_locks s t \<longleftrightarrow> os_locks (sv_os t) = os_locks (sv_os s)"

lemma same_locks_frame: "transp same_locks" "reflp same_locks"
  by (auto simp: transp_def reflp_def same_locks_def)

lemma keeps_same_locks:
  "keeps same_locks (on_world m)" "keeps same_locks (on_ini n)" "keeps same_locks (ret x)" "keeps same_locks (stop_with r)"
  "keeps same_locks (getP g)" "(\<And>s. sv_os (f s) = sv_os s) \<Longrightarrow> keeps same_locks (modP f)"
  by (auto simp: keeps_def same_locks_def on_world_def on_ini_def zoom_def ret_def stop_with_def getP_def modP_def split: prod.split)

lemma keeps_same_locks_os: "keeps same_locks (on_os (get_local_ip e ip))" "keeps same_locks (on_os (sys_unlink p))"
  by (auto simp: keeps_def same_locks_def on_os_def zoom_def get_local_ip_def sys_unlink_def modP_def getP_def bindP_def ret_def Let_def
      split: option.split)

lemmas keeps_locks_intros = keeps_bindP[OF _ _ same_locks_frame(1)] keeps_forP[OF _ same_locks_frame]
  keeps_same_locks keeps_same_locks_os

lemma serving_keeps_locks:
  "keeps same_locks (CRestApi_init L ip)" "keeps same_locks (CRestApi_run L bind_ok reqs)"
proof -
  have "keeps same_locks (serve_one L req)" for req
    unfolding serve_one_def by (cases "route L (fst req)") (auto intro!: keeps_locks_intros)
  then show "keeps same_locks (CRestApi_run L bind_ok reqs)"
    unfolding CRestApi_run_def by (auto intro!: keeps_locks_intros)
  show "keeps same_locks (CRestApi_init L ip)"
    unfolding CRestApi_init_def by (auto intro!: keeps_locks_intros)
qed

lemma main_serve_keeps_locks: "keeps same_locks (main_serve L bind_ok reqs pid_path ip n)"
  unfolding main_serve_def by (intro keeps_locks_intros serving_keeps_locks)

text \<open>Does the configuration say \<open>daemon=on\<close>?\<close>

definition daemon_mode :: "string \<Rightarrow> 'db server \<Rightarrow> bool" where
  "daemon_mode argv0 s \<longleftrightarrow>
     (case get_cur_path argv0 (zero_buf MAX_PATH_LENGTH) (int MAX_PATH_LENGTH) of
        None \<Rightarrow> False
      | Some (_, buf) \<Rightarrow>
          fst (bindP (on_ini (Load (os_files (sv_os s)) (beside (c_str buf) DEFAULT_CONF_PATH))) (\<lambda>_.
               on_ini (GetStr ''system'' ''daemon'')) s) = Returned ''on'')"

lemma foreground_keeps_locks:
  assumes "\<not> daemon_mode argv0 s"
  shows "same_locks s (snd (pull_main L bind_ok reqs argv0 s))"
proof (cases "get_cur_path argv0 (zero_buf MAX_PATH_LENGTH) (int MAX_PATH_LENGTH)")
  case None
  then show ?thesis by (simp add: pull_main_def stop_with_def same_locks_def)
next
  case (Some res)
  obtain rv buf where res: "res = (rv, buf)" by (cases res)
  let ?conf = "beside (c_str buf) DEFAULT_CONF_PATH" and ?pid = "beside (c_str buf) ''../log/pid''"
  let ?m = "bindP (on_ini (Load (os_files (sv_os s)) ?conf)) (\<lambda>_. on_ini (GetStr ''system'' ''daemon''))"
  let ?k = "\<lambda>dae. bindP (if dae = ''on'' then go_daemon ?pid else ret ()) (\<lambda>_.
     bindP (on_ini (GetStr ''system'' ''net_type'')) (\<lambda>net_type.
     bindP (on_os (get_local_ip net_type [])) (\<lambda>(_, local_ip).
     bindP (on_ini (GetInt ''system'' ''worker'')) (\<lambda>worker_num.
     if worker_num = 0 then stop_with (Exited 0)
     else main_serve L bind_ok reqs ?pid local_ip worker_num))))"
  have main: "pull_main L bind_ok reqs argv0 s = bindP ?m ?k s"
    using Some res by (simp add: pull_main_def Let_def bindP_assoc)
  obtain r s1 where m: "?m s = (r, s1)" by fastforce
  have k1: "same_locks s s1"
    using keepsD[of same_locks ?m, OF _ m] by (auto intro!: keeps_locks_intros)
  show ?thesis
  proof (cases r)
    case (Returned dae)
    have "dae \<noteq> ''on''" using assms m Returned Some res by (auto simp: daemon_mode_def)
    then have "keeps same_locks (?k dae)"
      by (auto intro!: keeps_locks_intros keeps_if main_serve_keeps_locks simp: case_prod_beta)
    then have "same_locks s1 (snd (?k dae s1))" by (simp add: keeps_def)
    then show ?thesis
      using k1 unfolding main bindP_Returned[where m = ?m, OF m[unfolded Returned]] by (simp add: same_locks_def)
  qed (use k1 m in \<open>simp_all add: main bindP_def\<close>)
qed

text \<open>
  C39 (a server in the foreground looks dead). Unless its configuration says \<open>daemon=on\<close>, the server leaves
  the locks of the system as they are, whatever requests it serves; so a watchdog that finds those locks,
  with none on the pid file, takes a server that is running for dead.
\<close>

theorem foreground_server_looks_dead:
  assumes "\<not> daemon_mode argv0 s" "os_locks (sv_os s) (c_str f) = None"
    and "os_locks (ls_os v) = os_locks (sv_os (snd (pull_main L bind_ok reqs argv0 s)))" "\<not> os_denied (ls_os v) (c_str f)"
  shows "os_locks (sv_os (snd (pull_main L bind_ok reqs argv0 s))) = os_locks (sv_os s) \<and>
         fst (check_process_alive L' f host mdb v) \<noteq> Returned True"
proof -
  have l: "os_locks (sv_os (snd (pull_main L bind_ok reqs argv0 s))) = os_locks (sv_os s)"
    using foreground_keeps_locks[OF assms(1)] by (simp add: same_locks_def)
  then show ?thesis using check_not_locked[OF assms(4)] assms(2,3) by simp
qed

theorem foreground_server_looks_dead_witness:
  "fst (check_process_alive mem_lib ''/srv/log/pid'' ''10.0.0.7'' ''mongodb://a''
     (mem_watch [] (os_locks (sv_os (snd (pull_main mem_lib (\<lambda>p. True) [] ''/opt/sbin/pull'' (mem_server [] mem_conf)))))))
   \<noteq> Returned True"
proof -
  have g: "get_cur_path ''/opt/sbin/pull'' (zero_buf MAX_PATH_LENGTH) (int MAX_PATH_LENGTH) =
      Some (0, ''/opt/sbin'' @ replicate 247 NUL)" by code_simp
  have c: "c_str (''/opt/sbin'' @ replicate 247 NUL) = ''/opt/sbin''" by code_simp
  have b: "beside ''/opt/sbin'' DEFAULT_CONF_PATH = ''/opt/sbin/../conf/1.conf''" by code_simp
  have v: "ini_val (sv_ini (mem_loaded [])) ''system'' ''daemon'' = []"
  proof -
    have "load_loop load_init mem_conf \<noteq> None \<and>
       (case load_final (the (load_loop load_init mem_conf)) ''system'' of None \<Rightarrow> [] | Some km \<Rightarrow> (case km ''daemon'' of None \<Rightarrow> [] | Some v \<Rightarrow> c_str v)) = []"
      by code_simp
    then show ?thesis by (auto simp: mem_loaded_def mem_server_def on_ini_def zoom_def Load_def plain_os_def ini_val_def)
  qed
  let ?s = "mem_server [] mem_conf"
  obtain r s1 where ld: "on_ini (Load (os_files (sv_os ?s)) ''/opt/sbin/../conf/1.conf'') ?s = (r, s1)" by fastforce
  have s1: "s1 = mem_loaded []" using ld by (simp add: mem_loaded_def)
  obtain i where "on_ini (GetStr ''system'' ''daemon'') s1 = (Returned [], s1\<lparr>sv_ini := i\<rparr>)"
    using on_ini_GetStr[of s1 "''system''" "''daemon''"] mem_loaded_fits[of "[]"] v unfolding s1 by auto
  then have d: "\<not> daemon_mode ''/opt/sbin/pull'' ?s"
    unfolding daemon_mode_def g option.case prod.case c b by (cases r) (simp_all add: bindP_def ld)
  let ?locks = "os_locks (sv_os (snd (pull_main mem_lib (\<lambda>p. True) [] ''/opt/sbin/pull'' ?s)))"
  have l: "os_locks (sv_os ?s) (c_str ''/srv/log/pid'') = None" by (simp add: mem_server_def plain_os_def)
  have e: "os_locks (ls_os (mem_watch [] ?locks)) = ?locks" "\<not> os_denied (ls_os (mem_watch [] ?locks)) (c_str ''/srv/log/pid'')"
    by (simp_all add: mem_watch_def plain_os_def)
  show ?thesis using foreground_server_looks_dead[OF d l e] by blast
qed

section \<open>The holders of pid files\<close>

text \<open>To the watchdog, whoever holds a pid file by its contract is alive.\<close>

context pid_file_holder
begin

lemma seen_alive:
  assumes "hold f s = (Returned x, t)" "ok x" "pre f s"
    and "os_locks (ls_os v) (c_str f) = os_locks (sys t) (c_str f)" "os_pid (ls_os v) \<noteq> os_pid (sys t)"
    and "\<not> os_denied (ls_os v) (c_str f)"
  shows "fst (check_process_alive L f host mdb v) = Returned True"
  using check_alive_locked[OF assms(6), of "os_pid (sys t)" L host mdb] holds_lock[OF assms(1-3)] assms(4,5) by simp

end

lemma log_os_ReturnedE:
  assumes "bindP (log_os m) k s = (Returned x, t)"
  obtains y o' where "m (ls_os s) = (Returned y, o')" "k y (s\<lparr>ls_os := o'\<rparr>) = (Returned x, t)"
  using assms by (cases "m (ls_os s)"; cases "fst (m (ls_os s))") (auto simp: log_os_def zoom_def bindP_def)

lemma never_returns:
  "bindP m (\<lambda>_. stop_with (Exited n)) s \<noteq> (Returned x, t)"
  "bindP m (\<lambda>_. bindP m' (\<lambda>_. stop_with (Exited n))) s \<noteq> (Returned x, t)"
  by (auto simp: bindP_eq_Returned stop_with_def)

lemma write_pid_d_result:
  assumes "write_pid_to_file_d f s = (Returned (), t)"
  shows "os_locks (ls_os t) (c_str f) = Some (os_pid (ls_os t)) \<and> os_pid (ls_os t) = os_pid (ls_os s) \<and>
         os_denied (ls_os t) = os_denied (ls_os s) \<and>
         os_locks (ls_os s) (c_str f) \<in> {None, Some (os_pid (ls_os t))} \<and>
         (int_range (os_pid (ls_os t)) \<longrightarrow>
            (\<exists>old. os_files (ls_os t) (c_str f) = Some (int_dec (os_pid (ls_os t)) @ CHR 0x0A # old)))"
proof -
  let ?o = "ls_os s" and ?line = "int_dec (os_pid (ls_os s)) @ [CHR 0x0A]"
  obtain buffer len where b: "rn_snprintf 64 (Some ?line) = (Some buffer, len)"
    by (simp add: rn_snprintf_def Let_def)
  obtain fd o1 rv o2 n o3 where o: "sys_open (c_str f) True ?o = (Returned fd, o1)" "fd \<noteq> - 1"
    and l: "sys_tlock fd o1 = (Returned rv, o2)" "\<not> rv < 0"
    and w: "sys_write fd (take (nat len) buffer) o2 = (Returned n, o3)" "\<not> n < 0" and t: "ls_os t = o3"
    using assms unfolding write_pid_to_file_d_def
    by (elim log_os_ReturnedE)
      (auto simp: os_getpid_def getP_def b never_returns printf_def modP_def bindP_assoc split: if_splits elim!: log_os_ReturnedE)
  have o1: "o1 = ?o\<lparr>os_files := (if os_files ?o (c_str f) = None then (os_files ?o)(c_str f \<mapsto> []) else os_files ?o),
      os_fds := (fd, c_str f) # os_fds ?o\<rparr>" "fd_file (os_fds o1) fd = Some (c_str f)"
    using o by (auto simp: sys_open_def Let_def fd_file_def split: if_splits)
  have o2: "os_files o2 = os_files o1" "os_fds o2 = os_fds o1" "os_locks o2 (c_str f) = Some (os_pid ?o)"
    "os_denied o2 = os_denied ?o" "os_pid o2 = os_pid ?o" "os_locks ?o (c_str f) \<in> {None, Some (os_pid ?o)}"
    using l o1 by (auto simp: sys_tlock_def split: option.splits if_splits)
  have o3: "\<exists>old. o3 = o2\<lparr>os_files := (os_files o2)(c_str f \<mapsto> take (nat len) buffer @ old)\<rparr>"
    using w o1(2) o2(2) by (auto simp: sys_write_def Let_def split: if_splits)
  have "take (nat len) buffer = ?line" if "int_range (os_pid ?o)"
  proof -
    have "length ?line < 64" using length_int_dec[OF that] by simp
    then show ?thesis using b by (auto simp: rn_snprintf_def snprintf_ret_def Let_def snprintf_id split: if_splits)
  qed
  then show ?thesis using o3 o2 t by auto
qed

interpretation watch_pid: pid_file_holder write_pid_to_file_d ls_os "\<lambda>_. True" "\<lambda>_ _. True"
  by unfold_locales (use write_pid_d_result in auto)

lemma go_daemon_daemon:
  assumes "go_daemon f s = (Returned (), t)"
  shows "\<exists>p. daemon f (sv_os s) = (Returned (err ERROR_OK, p), sv_os t)"
  using assms
  by (cases "daemon f (sv_os s)")
    (auto simp: go_daemon_def bindP_eq_Returned on_os_def zoom_def new_identity_def modP_def stop_with_def split: if_splits prod.splits)

interpretation server_main: pid_file_holder go_daemon sv_os "\<lambda>_. True" "\<lambda>f s. std_apart f (sv_os s)"
proof
  fix f :: string and s t :: "'a server" and x :: unit
  assume "go_daemon f s = (Returned x, t)" and pre: "std_apart f (sv_os s)"
  then obtain p where d: "daemon f (sv_os s) = (Returned (err ERROR_OK, p), sv_os t)"
    using go_daemon_daemon[of f s t] by auto
  show "os_locks (sv_os t) (c_str f) = Some (os_pid (sv_os t))"
    using server_daemon.holds_lock[OF d _ pre] by simp
  show "os_locks (sv_os s) (c_str f) \<in> {None, Some (os_pid (sv_os t))}"
    using server_daemon.takes_free[OF d _ pre] by simp
  show "int_range (os_pid (sv_os t)) \<Longrightarrow> \<exists>old. os_files (sv_os t) (c_str f) = Some (int_dec (os_pid (sv_os t)) @ CHR 0x0A # old)"
    using server_daemon.holds_text[OF d _ pre] by simp
qed

text \<open>
  A server in the background looks alive. Once the server has become a daemon, and for as long as
  it initialises and serves requests, whatever they are, a watchdog that sees its locks finds it alive.
\<close>

theorem daemon_server_looks_alive:
  assumes "go_daemon f s = (Returned (), s1)" "std_apart f (sv_os s)" "sv_os s2 = sv_os s1"
    and "bindP (CRestApi_init L ip) (\<lambda>_. CRestApi_run L bind_ok reqs) s2 = (Returned x, s3)"
    and "os_locks (ls_os v) = os_locks (sv_os s3)" "os_pid (ls_os v) \<noteq> os_pid (sv_os s1)" "\<not> os_denied (ls_os v) (c_str f)"
  shows "fst (check_process_alive L' f host mdb v) = Returned True"
proof -
  have "keeps same_locks (bindP (CRestApi_init L ip) (\<lambda>_. CRestApi_run L bind_ok reqs))"
    by (intro keeps_locks_intros serving_keeps_locks)
  from keepsD[OF this assms(4)] have "os_locks (sv_os s3) = os_locks (sv_os s1)"
    using assms(3) by (simp add: same_locks_def)
  with assms(5) have "os_locks (ls_os v) (c_str f) = os_locks (sv_os s1) (c_str f)" by simp
  from server_main.seen_alive[OF assms(1) TrueI assms(2) this assms(6,7)] show ?thesis .
qed

lemma mem_daemon:
  obtains o' where "daemon ''/srv/log/pid'' (sv_os (mem_loaded [])) = (Returned (0, Some 43), o')" "os_pid o' = 43"
proof -
  have o: "sv_os (mem_loaded []) = plain_os [''/opt/sbin/../conf/1.conf'' \<mapsto> mem_conf] Map.empty"
    by (simp add: mem_loaded_def on_ini_def zoom_def mem_server_def split: prod.split)
  have "fst (daemon ''/srv/log/pid'' (plain_os [''/opt/sbin/../conf/1.conf'' \<mapsto> mem_conf] Map.empty)) = Returned (0, Some 43)"
    "os_pid (snd (daemon ''/srv/log/pid'' (plain_os [''/opt/sbin/../conf/1.conf'' \<mapsto> mem_conf] Map.empty))) = 43"
    by code_simp+
  then show thesis unfolding o[symmetric] by (intro that) (auto simp: prod_eq_iff)
qed

lemma atoi_80: "atoi ''80'' = Some 80"
  by code_simp

theorem daemon_server_looks_alive_witness:
  "fst (check_process_alive mem_lib ''/srv/log/pid'' ''10.0.0.7'' ''mongodb://a''
     (mem_watch [] (os_locks (sv_os (snd (go_daemon ''/srv/log/pid'' (mem_loaded []))))))) = Returned True"
proof -
  let ?f = "''/srv/log/pid''" and ?s = "mem_loaded []"
  let ?s1 = "snd (go_daemon ?f ?s)"
  obtain o' where d: "daemon ?f (sv_os ?s) = (Returned (0, Some 43), o')" "os_pid o' = 43" by (rule mem_daemon)
  have g: "go_daemon ?f ?s = (Returned (), ?s1)" and o: "sv_os ?s1 = o'"
    using d(1) by (simp_all add: go_daemon_def bindP_def on_os_def zoom_def new_identity_def modP_def)
  have pre: "std_apart ?f (sv_os ?s)"
    by (simp add: std_apart_def mem_loaded_def on_ini_def zoom_def mem_server_def plain_os_def fd_file_def c_str_def NUL_def
        split: prod.split)
  let ?s2 = "?s\<lparr>sv_os := o'\<rparr>"
  have "host_docs mem_docs (configured ?s) (c_str (c_str ''10.0.0.7'')) = {#}"
    unfolding mem_configured by (simp add: host_docs_def mem_world_def)
  then obtain w' where "host_register mem_lib (c_str ''10.0.0.7'') 80 (configured ?s) = (Returned True, w')"
    using host_register_free[OF mem_lib_laws mem_configured_up] by metis
  then obtain s3 where "CRestApi_init mem_lib ''10.0.0.7'' ?s2 = (Returned 0, s3)"
    using CRestApi_init_eq[of ?s2 80 mem_lib "''10.0.0.7''" True w'] mem_loaded_fits[of "[]"]
    by (auto simp: configured_def mem_loaded_vals atoi_80)
  then have run: "bindP (CRestApi_init mem_lib ''10.0.0.7'') (\<lambda>_. CRestApi_run mem_lib (\<lambda>p. True) []) ?s2 = (Returned 0, s3)"
    by (simp add: bindP_def CRestApi_run_def ret_def getP_def)
  have "os_locks (sv_os s3) = os_locks o'"
    using keepsD[OF keeps_bindP[OF serving_keeps_locks(1) serving_keeps_locks(2) same_locks_frame(1)] run]
    by (simp add: same_locks_def)
  then have locks: "os_locks (ls_os (mem_watch [] (os_locks (sv_os ?s1)))) = os_locks (sv_os s3)"
    by (simp add: mem_watch_def plain_os_def o)
  have "os_pid (ls_os (mem_watch [] (os_locks (sv_os ?s1)))) \<noteq> os_pid (sv_os ?s1)"
    "\<not> os_denied (ls_os (mem_watch [] (os_locks (sv_os ?s1)))) (c_str ?f)"
    using d(2) o by (simp_all add: mem_watch_def plain_os_def)
  from daemon_server_looks_alive[OF g pre _ run locks this] show ?thesis by (simp add: o)
qed

text \<open>
  C31 (one watchdog per pid file). When \<open>write_pid_to_file\<close> of a watchdog has returned, its pid reads back
  from the file, and a second watchdog that shares the locks does not get past its own
  \<open>write_pid_to_file\<close>.
\<close>

theorem second_watchdog_exits:
  fixes s v :: "'db pulld"
  assumes "write_pid_to_file_d f s = (Returned (), t)" "int_range (os_pid (ls_os t))"
    and "os_locks (ls_os v) = os_locks (ls_os t)" "os_files (ls_os v) = os_files (ls_os t)"
    and "os_pid (ls_os v) \<noteq> os_pid (ls_os t)" "\<not> os_denied (ls_os v) (c_str f)"
  shows "fst (write_pid_to_file_d f v) \<noteq> Returned () \<and>
         fst (get_pid_from_file f any (ls_os v)) = Returned (err ERROR_OK, os_pid (ls_os t))"
proof -
  have "fst (write_pid_to_file_d f v) \<noteq> Returned ()"
  proof
    assume "fst (write_pid_to_file_d f v) = Returned ()"
    then obtain u where u: "write_pid_to_file_d f v = (Returned (), u)" by (metis prod.collapse)
    have "os_pid (ls_os u) = os_pid (ls_os t)"
      by (rule watch_pid.one_holder[OF assms(1) TrueI TrueI _ u TrueI TrueI]) (simp add: assms(3))
    then show False using write_pid_d_result[OF u] assms(5) by simp
  qed
  then show ?thesis using watch_pid.reads_back[OF assms(1) _ _ assms(2)] assms(4,6) by simp
qed

definition mem_second :: "mem_db pulld" where
  "mem_second =
     (let first = (mem_watch [] Map.empty)\<lparr>ls_os := (plain_os Map.empty Map.empty)\<lparr>os_pid := 7\<rparr>\<rparr>;
          after = snd (write_pid_to_file_d ''/srv/log/pid'' first)
      in after\<lparr>ls_os := (ls_os after)\<lparr>os_pid := 42\<rparr>\<rparr>)"

theorem second_watchdog_exits_witness:
  "fst (write_pid_to_file_d ''/srv/log/pid'' mem_second) \<noteq> Returned () \<and>
   fst (get_pid_from_file ''/srv/log/pid'' 0 (ls_os mem_second)) = Returned (0, 7)"
proof -
  let ?f = "''/srv/log/pid''"
  let ?a = "(mem_watch [] Map.empty)\<lparr>ls_os := (plain_os Map.empty Map.empty)\<lparr>os_pid := 7\<rparr>\<rparr>"
  have "fst (write_pid_to_file_d ?f ?a) = Returned ()" by code_simp
  then obtain t where r: "write_pid_to_file_d ?f ?a = (Returned (), t)" by (metis prod.collapse)
  have v: "mem_second = t\<lparr>ls_os := (ls_os t)\<lparr>os_pid := 42\<rparr>\<rparr>" by (simp add: mem_second_def r)
  have "os_pid (ls_os t) = 7" "os_denied (ls_os t) = (\<lambda>_. False)"
    using write_pid_d_result[OF r] by (simp_all add: plain_os_def)
  with second_watchdog_exits[OF r, of mem_second 0] show ?thesis
    by (simp add: v int_range_def INT_MIN_def INT_MAX_def)
qed

section \<open>Starting without a database\<close>

lemma on_ini_d_GetStr:
  "ini_fits (pd_ini s) \<Longrightarrow>
   \<exists>i. on_ini_d (GetStr m k) s = (Returned (ini_val (pd_ini s) m k), s\<lparr>pd_ini := i\<rparr>) \<and> ini_fits i \<and>
       ini_val i = ini_val (pd_ini s)"
  using cfg.get_str_ok[of "pd_ini s" m k] by (auto simp: on_ini_d_def zoom_def)

lemma rec_log_null: "\<not> pd_psyslog s \<Longrightarrow> bindP (rec_log l msg) k s = (Undefined, s)"
  by (simp add: rec_log_def bindP_assoc)

text \<open>
  C40 (no address, no message). Started as \<open>p/q\<close> with a configuration that names a network device but no
  database address, the watchdog does not exit with its message: it calls a method of a log that has
  not been created, which is undefined.
\<close>

theorem missing_address_undefined:
  assumes "NUL \<notin> set p" "NUL \<notin> set q" "CHR ''/'' \<notin> set q" "length p < 256" "\<And>r. rp = Some r \<Longrightarrow> length r < 256"
    and "on_ini_d (Load (os_files (ls_os s)) (snprintf CONF_PATH_LENGTH (p @ ''/../conf/1.conf''))) s = (Returned res, s1)"
    and "ini_fits (pd_ini s1)" "ini_val (pd_ini s1) ''system'' ''net_type'' \<noteq> []"
    and "ini_val (pd_ini s1) ''mongodb'' ''address'' = []" "\<not> pd_psyslog s1"
  shows "fst (pulld_main L lax sh pauses ((a, p @ CHR ''/'' # q) # argv) rp s) = Undefined"
proof -
  have cs: "c_str (p @ CHR ''/'' # q) = p @ CHR ''/'' # q"
    using assms(1,2) by (intro c_str_id) (auto simp: NUL_def)
  have sl: "slash_loop (p @ CHR ''/'' # q) 0 None = Some (length p)"
    using assms(3) by (intro slash_loop_last) simp_all
  have "\<exists>b. rc_strncpy (zero_buf 256) 256 (p @ CHR ''/'' # q) (int (length p)) = Some b \<and> buf_str b = Some p"
    using rc_strncpy_eq[of "int (length p)" 256 "zero_buf 256" "p @ CHR ''/'' # q"] assms(4) cs by (auto simp: min_def)
  then obtain b where b: "rc_strncpy (zero_buf 256) 256 (p @ CHR ''/'' # q) (int (length p)) = Some b" "c_str b = p"
    by (auto simp: buf_str_def split: if_splits)
  have path: "get_cur_path_d (p @ CHR ''/'' # q) (int CONF_PATH_LENGTH) s = (Returned p, s)"
    using assms(4) b by (simp add: get_cur_path_d_def cs sl CONF_PATH_LENGTH_def ret_def)
  obtain i1 where i1: "on_ini_d (GetStr ''system'' ''daemon'') s1 = (Returned (ini_val (pd_ini s1) ''system'' ''daemon''), s1\<lparr>pd_ini := i1\<rparr>)"
    "ini_fits i1" "ini_val i1 = ini_val (pd_ini s1)"
    using on_ini_d_GetStr[OF assms(7)] by blast
  obtain i2 where i2: "on_ini_d (GetStr ''child'' ''bin_dir'') (s1\<lparr>pd_ini := i1\<rparr>) =
      (Returned (ini_val i1 ''child'' ''bin_dir''), s1\<lparr>pd_ini := i2\<rparr>)" "ini_fits i2" "ini_val i2 = ini_val i1"
    using on_ini_d_GetStr[of "s1\<lparr>pd_ini := i1\<rparr>" "''child''" "''bin_dir''"] i1(2) by auto
  obtain i3 where i3: "on_ini_d (GetStr ''system'' ''net_type'') (s1\<lparr>pd_ini := i2\<rparr>) =
      (Returned (ini_val i2 ''system'' ''net_type''), s1\<lparr>pd_ini := i3\<rparr>)" "ini_fits i3" "ini_val i3 = ini_val i2"
    using on_ini_d_GetStr[of "s1\<lparr>pd_ini := i2\<rparr>" "''system''" "''net_type''"] i2(2) by auto
  obtain i4 where i4: "on_ini_d (GetStr ''mongodb'' ''address'') (s1\<lparr>pd_ini := i3\<rparr>) =
      (Returned (ini_val i3 ''mongodb'' ''address''), s1\<lparr>pd_ini := i4\<rparr>)"
    using on_ini_d_GetStr[of "s1\<lparr>pd_ini := i3\<rparr>" "''mongodb''" "''address''"] i3(2) by auto
  have v: "ini_val i2 ''system'' ''net_type'' \<noteq> []" "ini_val i3 ''mongodb'' ''address'' = []"
    using assms(8,9) i1(3) i2(3) i3(3) by simp_all
  have rp: "\<not> (\<exists>r. rp = Some r \<and> 256 \<le> length r)" using assms(5) by (auto simp: not_le)
  have conf: "gc_conf_path (new_conf ((a, p @ CHR ''/'' # q) # argv) p) = snprintf CONF_PATH_LENGTH (p @ ''/../conf/1.conf'')"
    by (simp add: new_conf_def)
  show ?thesis
    using rp v assms(10)
    by (simp add: pulld_main_def bindP_Returned[where m = "get_cur_path_d _ _", OF path] Let_def conf
        bindP_Returned[where m = "on_ini_d (Load _ _)", OF assms(6)[simplified]]
        bindP_Returned[where m = "on_ini_d (GetStr _ ''daemon'')", OF i1(1)[simplified]]
        bindP_Returned[where m = "on_ini_d (GetStr _ ''bin_dir'')", OF i2(1)[simplified]]
        bindP_Returned[where m = "on_ini_d (GetStr _ ''net_type'')", OF i3(1)[simplified]]
        bindP_Returned[where m = "on_ini_d (GetStr _ ''address'')", OF i4(1)[simplified]] rec_log_null stop_with_def)
qed

definition mem_bare :: "mem_db pulld" where
  "mem_bare = (mem_watch [] Map.empty)
     \<lparr>pd_psyslog := False, ls_os := plain_os [''/srv/../conf/1.conf'' \<mapsto> ''[system]'' @ [CHR 0x0A] @ ''net_type=eth0''] Map.empty\<rparr>"

theorem missing_address_undefined_witness:
  "fst (pulld_main mem_lib True (\<lambda>c. id) [] [(100, ''/srv/pulld'')] None mem_bare) = Undefined"
proof -
  let ?text = "''[system]'' @ [CHR 0x0A] @ ''net_type=eth0''" and ?path = "snprintf CONF_PATH_LENGTH (''/srv'' @ ''/../conf/1.conf'')"
  have pth: "?path = ''/srv/../conf/1.conf''" by code_simp
  have l: "load_loop load_init ?text \<noteq> None \<and>
     (case load_final (the (load_loop load_init ?text)) ''system'' of None \<Rightarrow> [] | Some km \<Rightarrow> (case km ''net_type'' of None \<Rightarrow> [] | Some v \<Rightarrow> c_str v)) = ''eth0'' \<and>
     (case load_final (the (load_loop load_init ?text)) ''mongodb'' of None \<Rightarrow> [] | Some km \<Rightarrow> (case km ''address'' of None \<Rightarrow> [] | Some v \<Rightarrow> c_str v)) = []"
    by code_simp
  have fs: "os_files (ls_os mem_bare) ''/srv/../conf/1.conf'' = Some ?text" by (simp add: mem_bare_def plain_os_def)
  have new: "pd_ini mem_bare = CIniReader_new" "\<not> pd_psyslog mem_bare" by (simp_all add: mem_bare_def mem_watch_def)
  obtain st where st: "load_loop load_init ?text = Some st" using l by auto
  let ?i = "CIniReader_new\<lparr>m_fp := True, m_Map := load_final st\<rparr>"
  have ld: "Load (os_files (ls_os mem_bare)) ?path CIniReader_new = (Returned INI_SUCCESS, ?i)"
    unfolding pth by (simp add: Load_def fs[simplified] st[simplified])
  have "on_ini_d (Load (os_files (ls_os mem_bare)) ?path) mem_bare = (Returned INI_SUCCESS, mem_bare\<lparr>pd_ini := ?i\<rparr>)"
    unfolding on_ini_d_def zoom_def new(1) ld by simp
  moreover have "ini_fits ?i" using Load_fits[OF ini_fits_new ld] .
  moreover have "ini_val ?i ''system'' ''net_type'' = ''eth0''" "ini_val ?i ''mongodb'' ''address'' = []"
    using l unfolding st option.sel by (simp_all add: ini_val_def)
  ultimately show ?thesis
    using missing_address_undefined[of "''/srv''" "''pulld''" None mem_bare INI_SUCCESS "mem_bare\<lparr>pd_ini := ?i\<rparr>" mem_lib True
        "\<lambda>c. id" "[]" 100 "[]"] new(2) by (simp add: NUL_def)
qed

end
