(* ===== verification/Host.thy ===== *)
theory Host
  imports Pulld
begin

text \<open>
  The machine on which both programs run: a watchdog, the servers it or somebody else starts, and what they
  share, which is the files, the locks and the database. A step is a part of one of the two programs that uses the
  locks or the database once, or a fault around them, and the steps interleave in any order. The two programs must
  name the same pid file, here \<open>f\<close>, though the server reaches it through its own directory. The servers are
  configured to run as daemons; what becomes of one that is not is a property of \<open>Pulld\<close>.
\<close>

section \<open>The parts of the two programs\<close>

text \<open>
  A round of the watchdog in three parts: it looks at the lock and gives it back; when it got the lock, it asks the
  registry; then it removes the record it found and runs the command. Only the first has the lock.
\<close>

definition ask_registry :: "('db, 'j) lib \<Rightarrow> string \<Rightarrow> string \<Rightarrow> int \<Rightarrow> ('db pulld, bool) prog" where
  "ask_registry L host mdb m_fd =
     bindP (log_os (sys_ulock m_fd)) (\<lambda>_.
     bindP (rec_log LOG_CRIT (''pull2push does not running, host = '' @ c_str host)) (\<lambda>_.
     is_host_exist_d L host mdb))"

definition clean_and_run :: "('db, 'j) lib \<Rightarrow> (string \<Rightarrow> 'db others) \<Rightarrow> string \<Rightarrow> string \<Rightarrow> string \<Rightarrow> int \<Rightarrow> bool
    \<Rightarrow> ('db pulld, unit) prog" where
  "clean_and_run L sh cmd host mdb m_fd ex =
     bindP (if ex then bindP (remove_host_d L host mdb) (\<lambda>_. ret ()) else ret ()) (\<lambda>_.
     bindP (log_os (sys_close m_fd)) (\<lambda>_.
     bindP (rec_log LOG_INFO (''run bin dir: '' @ cmd)) (\<lambda>_. run_system sh cmd)))"

lemma clean_up_split:
  "clean_up L host mdb fd =
     bindP (ask_registry L host mdb fd) (\<lambda>ex.
     bindP (if ex then bindP (remove_host_d L host mdb) (\<lambda>_. ret ()) else ret ()) (\<lambda>_.
     bindP (log_os (sys_close fd)) (\<lambda>_. ret False)))"
  by (simp add: clean_up_def ask_registry_def bindP_assoc)

lemma watch_round_split:
  "watch_round L sh cmd f host mdb =
     bindP (probe_lock f) (\<lambda>(fd, rv).
     if rv < 0 then bindP (log_os (sys_close fd)) (\<lambda>_. ret ())
     else bindP (ask_registry L host mdb fd) (clean_and_run L sh cmd host mdb fd))"
proof -
  have "bindP (clean_up L host mdb fd) (\<lambda>alive.
      if \<not> alive then bindP (rec_log LOG_INFO (''run bin dir: '' @ cmd)) (\<lambda>_. run_system sh cmd) else ret ()) =
    bindP (ask_registry L host mdb fd) (clean_and_run L sh cmd host mdb fd)" for fd
    unfolding clean_up_split bindP_assoc clean_and_run_def by (simp add: bindP_assoc)
  then show ?thesis
    unfolding watch_round_def check_process_alive_split bindP_assoc
    by (intro arg_cong[where f = "bindP (probe_lock f)"] ext) (simp add: split_beta bindP_if bindP_assoc)
qed

text \<open>\<open>init\<close> of a server in two parts: up to the answer of the registry, and the insertion of its record.\<close>

definition init_check :: "('db, 'j) lib \<Rightarrow> string \<Rightarrow> ('db server, int) prog" where
  "init_check L host =
     bindP (on_ini (GetInt ''system'' ''listen'')) (\<lambda>port.
     bindP (modP (\<lambda>s. s\<lparr>sv_app := (sv_app s)\<lparr>ad_port := port\<rparr>\<rparr>)) (\<lambda>_.
     if port = 0 then stop_with (Exited 0)
     else
     bindP (modP (\<lambda>s. s\<lparr>sv_app := (sv_app s)\<lparr>ad_host := c_str host\<rparr>\<rparr>)) (\<lambda>_.
     bindP (on_ini (GetStr ''mongodb'' ''address'')) (\<lambda>address.
     bindP (on_world (bindP Instance (\<lambda>_. set_mongodb address))) (\<lambda>_.
     bindP (on_world (is_host_exist L (c_str host))) (\<lambda>ex.
     if ex then stop_with (Exited 0) else ret port))))))"

definition init_insert :: "('db, 'j) lib \<Rightarrow> string \<Rightarrow> int \<Rightarrow> ('db server, int) prog" where
  "init_insert L host port = bindP (on_world (register_host_to_cache L (c_str host) port)) (\<lambda>_. ret 0)"

lemma on_world_bindP: "on_world (bindP m k) = bindP (on_world m) (\<lambda>x. on_world (k x))"
  by (rule ext) (auto simp: on_world_def zoom_def bindP_def split: prod.splits outcome.splits)

lemma on_world_ret: "on_world (ret x) = ret x"
  by (rule ext) (simp add: on_world_def zoom_def ret_def)

lemma CRestApi_init_split: "CRestApi_init L host = bindP (init_check L host) (init_insert L host)"
proof -
  have "bindP (on_world (host_register L h port)) (\<lambda>ok. if \<not> ok then stop_with (Exited 0) else ret (0 :: int)) =
      bindP (on_world (is_host_exist L h)) (\<lambda>ex. bindP (if ex then stop_with (Exited 0) else ret port)
        (\<lambda>port. bindP (on_world (register_host_to_cache L h port)) (\<lambda>_. ret 0)))" for h port
    unfolding host_register_def on_world_bindP bindP_assoc
    by (intro arg_cong[where f = "bindP (on_world (is_host_exist L h))"] ext)
      (auto simp: on_world_bindP on_world_ret bindP_assoc bindP_exit)
  then show ?thesis
    unfolding CRestApi_init_def init_check_def init_insert_def
    by (simp add: bindP_assoc bindP_if bindP_exit cong: if_cong)
qed

section \<open>The machine\<close>

text \<open>
  How far a server has come in \<open>main\<close>: its configuration is read, \<open>daemon\<close> has returned, the registry had no record
  when it asked (with the port it will insert), \<open>init\<close> has returned. A server is known by the pid of the daemon it
  becomes. And how far the watchdog has come in its round: with the descriptor and the result of the look, and
  with the answer of the registry.
\<close>

datatype stage = Booting | Locked | Cleared int | Serving

datatype watch_stage = Asleep | Looked int int | Asked int bool

record 'db host =
  ho_files :: "string \<rightharpoonup> string"
  ho_locks :: "string \<rightharpoonup> int"
  ho_db :: 'db
  ho_watch :: "'db pulld"
  ho_round :: watch_stage
  ho_procs :: "int \<rightharpoonup> stage \<times> 'db server"

definition os_in :: "'db host \<Rightarrow> os \<Rightarrow> os" where
  "os_in h s = s\<lparr>os_files := ho_files h, os_locks := ho_locks h\<rparr>"

text \<open>A program with the shared parts as they are, and the machine after it.\<close>

definition server_in :: "'db host \<Rightarrow> 'db server \<Rightarrow> 'db server" where
  "server_in h s = s\<lparr>sv_os := os_in h (sv_os s), sv_world := (sv_world s)\<lparr>w_db := ho_db h\<rparr>\<rparr>"

definition watch_in :: "'db host \<Rightarrow> 'db pulld" where
  "watch_in h = (ho_watch h)\<lparr>ls_os := os_in h (ls_os (ho_watch h)), pd_mongo := (pd_mongo (ho_watch h))\<lparr>w_db := ho_db h\<rparr>\<rparr>"

definition put_shared :: "os \<Rightarrow> 'db \<Rightarrow> 'db host \<Rightarrow> 'db host" where
  "put_shared s d h = h\<lparr>ho_files := os_files s, ho_locks := os_locks s, ho_db := d\<rparr>"

definition put_server :: "int \<Rightarrow> stage \<Rightarrow> 'db server \<Rightarrow> 'db host \<Rightarrow> 'db host" where
  "put_server p st t h = (put_shared (sv_os t) (w_db (sv_world t)) h)\<lparr>ho_procs := (ho_procs h)(p \<mapsto> (st, t))\<rparr>"

definition put_watch :: "'db pulld \<Rightarrow> 'db host \<Rightarrow> 'db host" where
  "put_watch t h = (put_shared (ls_os t) (w_db (pd_mongo t)) h)\<lparr>ho_watch := t\<rparr>"

definition at_stage :: "watch_stage \<Rightarrow> 'db host \<Rightarrow> 'db host" where
  "at_stage r h = h\<lparr>ho_round := r\<rparr>"

text \<open>A process that ends loses its locks; the last change it made stays.\<close>

definition proc_gone :: "int \<Rightarrow> 'db host \<Rightarrow> 'db host" where
  "proc_gone p h =
     h\<lparr>ho_procs := (ho_procs h)(p := None), ho_locks := (\<lambda>g. if ho_locks h g = Some p then None else ho_locks h g)\<rparr>"

definition server_gone :: "int \<Rightarrow> 'db server \<Rightarrow> 'db host \<Rightarrow> 'db host" where
  "server_gone p t h = proc_gone p (put_shared (sv_os t) (w_db (sv_world t)) h)"

text \<open>
  A server at the call of \<open>daemon\<close>: its configuration is read and usable, it names the watchdog's database, and
  the daemon will be the process \<open>p\<close>.
\<close>

definition usable :: "string \<Rightarrow> 'db server \<Rightarrow> bool" where
  "usable mdb s \<longleftrightarrow>
     ini_fits (sv_ini s) \<and> (\<exists>port. atoi (ini_val (sv_ini s) ''system'' ''listen'') = Some port \<and> port \<noteq> 0) \<and>
     c_str (ini_val (sv_ini s) ''mongodb'' ''address'') = c_str mdb \<and> w_host (sv_world s) = []"

definition bootable :: "string \<Rightarrow> string \<Rightarrow> int \<Rightarrow> 'db server \<Rightarrow> bool" where
  "bootable f mdb p s \<longleftrightarrow> usable mdb s \<and> os_fork (sv_os s) = ChildSide p \<and> std_apart f (sv_os s)"

text \<open>A process that somebody starts, with a pid nobody has.\<close>

definition starts :: "string \<Rightarrow> string \<Rightarrow> int \<Rightarrow> 'db server \<Rightarrow> 'db host \<Rightarrow> 'db host \<Rightarrow> bool" where
  "starts f mdb p s h h' \<longleftrightarrow>
     bootable f mdb p s \<and> 0 < p \<and> ho_procs h p = None \<and> p \<notin> ran (ho_locks h) \<and> p \<noteq> os_pid (ls_os (ho_watch h)) \<and>
     h' = h\<lparr>ho_procs := (ho_procs h)(p \<mapsto> (Booting, s))\<rparr>"

section \<open>Its steps\<close>

text \<open>
  What the two programs do. The command the watchdog runs starts a server, or nothing; a call of a server's \<open>main\<close>
  that does not return ends the server.
\<close>

inductive program_step :: "('db, 'j) lib \<Rightarrow> string \<Rightarrow> string \<Rightarrow> string \<Rightarrow> string \<Rightarrow> 'db host \<Rightarrow> 'db host \<Rightarrow> bool"
  for L f ip mdb cmd where
  watch_looks:
  "ho_round h = Asleep \<Longrightarrow> probe_lock f (watch_in h) = (Returned (fd, rv), t) \<Longrightarrow>
   program_step L f ip mdb cmd h (at_stage (Looked fd rv) (put_watch t h))"
| watch_content:
  "ho_round h = Looked fd rv \<Longrightarrow> rv < 0 \<Longrightarrow> log_os (sys_close fd) (watch_in h) = (Returned c, t) \<Longrightarrow>
   program_step L f ip mdb cmd h (at_stage Asleep (put_watch t h))"
| watch_asks:
  "ho_round h = Looked fd rv \<Longrightarrow> 0 \<le> rv \<Longrightarrow> ask_registry L ip mdb fd (watch_in h) = (Returned ex, t) \<Longrightarrow>
   program_step L f ip mdb cmd h (at_stage (Asked fd ex) (put_watch t h))"
| watch_in_vain:
  "ho_round h = Asked fd ex \<Longrightarrow> clean_and_run L (\<lambda>_. id) cmd ip mdb fd ex (watch_in h) = (Returned (), t) \<Longrightarrow>
   program_step L f ip mdb cmd h (at_stage Asleep (put_watch t h))"
| watch_restarts:
  "ho_round h = Asked fd ex \<Longrightarrow> clean_and_run L (\<lambda>_. id) cmd ip mdb fd ex (watch_in h) = (Returned (), t) \<Longrightarrow>
   starts f mdb p s (at_stage Asleep (put_watch t h)) h' \<Longrightarrow> program_step L f ip mdb cmd h h'"
| daemonized:
  "ho_procs h p = Some (Booting, s) \<Longrightarrow> go_daemon f (server_in h s) = (Returned (), t) \<Longrightarrow>
   program_step L f ip mdb cmd h (put_server p Locked t h)"
| no_daemon:
  "ho_procs h p = Some (Booting, s) \<Longrightarrow> go_daemon f (server_in h s) = (r, t) \<Longrightarrow> r \<noteq> Returned () \<Longrightarrow>
   program_step L f ip mdb cmd h (server_gone p t h)"
| cleared:
  "ho_procs h p = Some (Locked, s) \<Longrightarrow> init_check L ip (server_in h s) = (Returned port, t) \<Longrightarrow>
   program_step L f ip mdb cmd h (put_server p (Cleared port) t h)"
| refused:
  "ho_procs h p = Some (Locked, s) \<Longrightarrow> init_check L ip (server_in h s) = (r, t) \<Longrightarrow> (\<forall>port. r \<noteq> Returned port) \<Longrightarrow>
   program_step L f ip mdb cmd h (server_gone p t h)"
| registered:
  "ho_procs h p = Some (Cleared port, s) \<Longrightarrow> init_insert L ip port (server_in h s) = (Returned c, t) \<Longrightarrow>
   program_step L f ip mdb cmd h (put_server p Serving t h)"
| failed:
  "ho_procs h p = Some (Cleared port, s) \<Longrightarrow> init_insert L ip port (server_in h s) = (r, t) \<Longrightarrow> (\<forall>c. r \<noteq> Returned c) \<Longrightarrow>
   program_step L f ip mdb cmd h (server_gone p t h)"

text \<open>
  What happens around them: somebody starts a server by hand; a server is killed, or ended by a signal it
  handles, at any stage; the rest of the database changes.
\<close>

inductive fault_step :: "('db, 'j) lib \<Rightarrow> ('db \<Rightarrow> coll \<Rightarrow> bson multiset) \<Rightarrow> string \<Rightarrow> string \<Rightarrow> string
    \<Rightarrow> 'db host \<Rightarrow> 'db host \<Rightarrow> bool" for L docs f ip mdb where
  by_hand: "starts f mdb p s h h' \<Longrightarrow> fault_step L docs f ip mdb h h'"
| killed: "ho_procs h p = Some (st, s) \<Longrightarrow> fault_step L docs f ip mdb h (proc_gone p h)"
| signalled:
  "ho_procs h p = Some (st, s) \<Longrightarrow> sig_handler_terminal L (server_in h s) = (r, t) \<Longrightarrow>
   fault_step L docs f ip mdb h (server_gone p t h)"
| others:
  "host_records docs d mdb ip = host_records docs (ho_db h) mdb ip \<Longrightarrow> fault_step L docs f ip mdb h (h\<lparr>ho_db := d\<rparr>)"

definition host_step :: "('db, 'j) lib \<Rightarrow> ('db \<Rightarrow> coll \<Rightarrow> bson multiset) \<Rightarrow> string \<Rightarrow> string \<Rightarrow> string \<Rightarrow> string
    \<Rightarrow> 'db host \<Rightarrow> 'db host \<Rightarrow> bool" where
  "host_step L docs f ip mdb cmd h h' \<longleftrightarrow> program_step L f ip mdb cmd h h' \<or> fault_step L docs f ip mdb h h'"

section \<open>What the programs do to the shared parts\<close>

lemma go_daemon_runs:
  assumes "go_daemon f s = (r, t)" "os_fork (sv_os s) = ChildSide p" "std_apart f (sv_os s)"
  shows "own_only ((sv_os s)\<lparr>os_pid := p\<rparr>) (sv_os t)" "sv_ini t = sv_ini s" "w_db (sv_world t) = w_db (sv_world s)"
    and "w_host (sv_world t) = w_host (sv_world s)"
    and "r = Returned () \<Longrightarrow> os_locks (sv_os t) (c_str f) = Some p" "r = Returned () \<Longrightarrow> os_locks (sv_os s) (c_str f) \<in> {None, Some p}"
proof -
  obtain q o' where d: "daemon f (sv_os s) = (q, o')" by fastforce
  have o: "sv_os t = o'" and rest: "sv_ini t = sv_ini s" "w_db (sv_world t) = w_db (sv_world s)" "w_host (sv_world t) = w_host (sv_world s)"
    using assms(1) d
    by (auto simp: go_daemon_def on_os_def zoom_def bindP_def stop_with_def new_identity_def modP_def split: outcome.splits if_splits)
  then show "own_only ((sv_os s)\<lparr>os_pid := p\<rparr>) (sv_os t)" "sv_ini t = sv_ini s" "w_db (sv_world t) = w_db (sv_world s)"
    "w_host (sv_world t) = w_host (sv_world s)"
    using daemon_own_only[OF assms(2) d] by simp_all
  assume "r = Returned ()"
  with assms(1) have g: "go_daemon f s = (Returned (), t)" by simp
  have "os_pid (sv_os t) = p" using daemon_own_only[OF assms(2) d] o by (simp add: own_only_def)
  then show "os_locks (sv_os t) (c_str f) = Some p" "os_locks (sv_os s) (c_str f) \<in> {None, Some p}"
    using server_main.holds_lock[OF g TrueI assms(3)] server_main.takes_free[OF g TrueI assms(3)] by simp_all
qed

text \<open>The two parts of \<open>init\<close> of a usable server, when the database can be reached.\<close>

lemma host_docs_records: "c_str (w_db_address w) = c_str mdb \<Longrightarrow> host_docs docs w (c_str ip) = host_records docs (w_db w) mdb ip"
  by (simp add: host_docs_def host_records_def host_coll_def host_place_def)

lemma hosts_up_at: "c_str (w_db_address w) = c_str mdb \<Longrightarrow> db_up L mdb MONGODB_DATABASE MONGODB_COLLECTION_HOSTINFO \<Longrightarrow> hosts_up L w"
  by (simp add: hosts_up_def db_up_def)

lemma init_check_runs:
  fixes ip :: string
  assumes "usable mdb s" "lib_laws L docs" "db_up L mdb MONGODB_DATABASE MONGODB_COLLECTION_HOSTINFO"
  obtains port t where
    "init_check L ip s = (if host_records docs (w_db (sv_world s)) mdb ip = {#} then Returned port else Exited 0, t)"
    and "sv_os t = sv_os s" "w_db (sv_world t) = w_db (sv_world s)" "c_str (w_db_address (sv_world t)) = c_str mdb"
    and "w_host (sv_world t) = []"
proof -
  obtain port where u: "ini_fits (sv_ini s)" "atoi (ini_val (sv_ini s) ''system'' ''listen'') = Some port" "port \<noteq> 0"
    "c_str (ini_val (sv_ini s) ''mongodb'' ''address'') = c_str mdb" "w_host (sv_world s) = []"
    using assms(1) unfolding usable_def by blast
  obtain i1 where i1: "GetInt ''system'' ''listen'' (sv_ini s) = (Returned port, i1)" "ini_fits i1"
    "ini_val i1 = ini_val (sv_ini s)"
    using GetInt_eq[OF u(1), of "''system''" "''listen''"] u(2) by auto
  obtain i2 where i2: "GetStr ''mongodb'' ''address'' i1 = (Returned (ini_val (sv_ini s) ''mongodb'' ''address''), i2)"
    using cfg.get_str_ok[OF i1(2), of "''mongodb''" "''address''"] i1(3) by auto
  let ?w = "configured s"
  have w: "c_str (w_db_address ?w) = c_str mdb" "w_db ?w = w_db (sv_world s)" "w_host ?w = []"
    using u(4,5) by (simp_all add: configured_def)
  have inst: "bindP Instance (\<lambda>_. set_mongodb a) v = (Returned (), v\<lparr>w_instance := True, w_db_address := c_str a\<rparr>)"
    for a and v :: "'a world"
    by (cases "w_instance v") (simp_all add: Instance_def set_mongodb_def modP_def bindP_def)
  have ask: "is_host_exist L (c_str ip) ?w =
      (Returned (host_records docs (w_db (sv_world s)) mdb ip \<noteq> {#}), ?w\<lparr>w_cursors := w_cursors ?w + 1\<rparr>)"
    using is_host_exist_up[OF assms(2) hosts_up_at[OF w(1) assms(3)], of "c_str ip"] host_docs_records[OF w(1), of docs ip] w(2) by simp
  let ?t = "s\<lparr>sv_ini := i2, sv_app := \<lparr>ad_host = c_str ip, ad_port = port\<rparr>, sv_world := ?w\<lparr>w_cursors := w_cursors ?w + 1\<rparr>\<rparr>"
  have app: "sv_app s\<lparr>ad_port := port, ad_host := c_str ip\<rparr> = \<lparr>ad_host = c_str ip, ad_port = port\<rparr>"
    by (cases "sv_app s") simp
  have "init_check L ip s = (if host_records docs (w_db (sv_world s)) mdb ip = {#} then Returned port else Exited 0, ?t)"
    using u(3) i1(1) i2 ask[unfolded configured_def]
    by (simp add: init_check_def bindP_def modP_def on_ini_def on_world_def zoom_def inst[unfolded bindP_def] app stop_with_def
        ret_def configured_def)
  then show thesis by (rule that) (use w in simp_all)
qed

lemma init_insert_runs:
  fixes ip :: string
  assumes "c_str (w_db_address (sv_world s)) = c_str mdb" "lib_laws L docs" "db_up L mdb MONGODB_DATABASE MONGODB_COLLECTION_HOSTINFO"
    and "host_records docs (w_db (sv_world s)) mdb ip = {#}"
  obtains t where "init_insert L ip port s = (Returned 0, t)" "sv_os t = sv_os s" "w_host (sv_world t) = c_str ip"
    and "size (host_records docs (w_db (sv_world t)) mdb ip) \<le> 1"
    and "driver_ok L (host_place mdb) \<Longrightarrow> size (host_records docs (w_db (sv_world t)) mdb ip) = 1"
proof -
  let ?w = "sv_world s" and ?x = "[(''host'', Utf8 (c_str ip)), (''port'', Int32 port)]" and ?c = "host_place mdb"
  have c: "host_coll ?w = ?c" using assms(1) by (simp add: host_coll_def host_place_def)
  obtain ok d where i: "l_insert L ?c ?x (w_db ?w) = (ok, d)" by fastforce
  have i': "l_insert L (host_coll ?w) [(''host'', Utf8 (c_str (c_str ip))), (''port'', Int32 port)] (w_db ?w) = (ok, d)"
    using i c by simp
  note reg = register_up[OF hosts_up_at[OF assms(1,3)] i']
  let ?t = "s\<lparr>sv_world := ?w\<lparr>w_host := c_str ip, w_port := port, w_db := d\<rparr>\<rparr>"
  have run: "init_insert L ip port s = (Returned 0, ?t)"
    by (simp add: init_insert_def on_world_def zoom_def bindP_def reg ret_def)
  have none: "filter_mset (has_field ''host'' (Utf8 (c_str ip))) (docs (w_db ?w) ?c) = {#}"
    using assms(4) unfolding host_records_def .
  have d: "docs d ?c = docs (w_db ?w) ?c \<and> \<not> ok \<or> (\<exists>y. same_fields ?x y \<and> docs d ?c = add_mset y (docs (w_db ?w) ?c))"
    using lib_lawsD(2)[OF assms(2), unfolded insert_law_def, rule_format, OF i] by (cases ok) (force simp only: if_True fun_upd_same, simp)
  have le: "size (host_records docs d mdb ip) \<le> 1"
    unfolding host_records_def using d none by (elim disjE exE conjE) (simp_all only: filter_mset_add_mset size_empty, simp_all)
  have one: "size (host_records docs d mdb ip) = 1" if "driver_ok L ?c"
  proof -
    have "ok" using that i unfolding driver_ok_def by (metis fst_conv)
    then obtain y where y: "same_fields ?x y" "docs d ?c = add_mset y (docs (w_db ?w) ?c)" using d by blast
    then have "has_field ''host'' (Utf8 (c_str ip)) y" by (simp add: same_fields_def has_field_def)
    then show ?thesis unfolding host_records_def y(2) by (simp only: filter_mset_add_mset none if_True) simp
  qed
  show thesis by (rule that[OF run]) (use le one in simp_all)
qed

text \<open>
  What a part of the watchdog's round does: it writes to its log, gives up locks of its own at most, and the records
  of the host do not grow.
\<close>

definition watched :: "('db \<Rightarrow> coll \<Rightarrow> bson multiset) \<Rightarrow> string \<Rightarrow> string \<Rightarrow> 'db pulld \<Rightarrow> 'db pulld \<Rightarrow> bool" where
  "watched docs ip mdb s t \<longleftrightarrow>
     watching t \<and> os_kept (ls_os s) (ls_os t) \<and>
     size (host_records docs (w_db (pd_mongo t)) mdb ip) \<le> size (host_records docs (w_db (pd_mongo s)) mdb ip)"

lemma watchedD:
  assumes "watched docs ip mdb s t"
  shows "watching t" "os_kept (ls_os s) (ls_os t)"
    "size (host_records docs (w_db (pd_mongo t)) mdb ip) \<le> size (host_records docs (w_db (pd_mongo s)) mdb ip)"
  using assms by (simp_all add: watched_def)

lemma kept_watched:
  "kept s t \<Longrightarrow> size (host_records docs (w_db (pd_mongo t)) mdb ip) \<le> size (host_records docs (w_db (pd_mongo s)) mdb ip) \<Longrightarrow>
   watched docs ip mdb s t"
  by (simp add: watched_def kept_def)

lemma os_kept_files: "dom (os_files s) \<subseteq> dom fs \<Longrightarrow> os_kept s (s\<lparr>os_files := fs\<rparr>)"
  by (simp add: os_kept_def)

lemma probe_runs:
  assumes "watching s" "\<not> os_denied (ls_os s) (c_str f)"
  obtains fd t where
    "probe_lock f s =
       (Returned (fd, if \<exists>p. os_locks (ls_os s) (c_str f) = Some p \<and> p \<noteq> os_pid (ls_os s) then - 1 else 0), t)"
    and "watched docs ip mdb s t" "w_db (pd_mongo t) = w_db (pd_mongo s)" "pd_ran t = pd_ran s"
proof (cases "\<exists>p. os_locks (ls_os s) (c_str f) = Some p \<and> p \<noteq> os_pid (ls_os s)")
  case False
  obtain fd o2 where p: "probe_lock f s = (Returned (fd, 0), s\<lparr>ls_os := o2\<rparr>)" "os_kept (ls_os s) o2"
    by (rule probe_free_runs[OF assms(2) False])
  show thesis
    by (rule that[of fd "s\<lparr>ls_os := o2\<rparr>"]) (use False p assms(1) in \<open>simp_all only: if_False\<close>, simp_all add: watched_def watching_def)
next
  case True
  then obtain p where l: "os_locks (ls_os s) (c_str f) = Some p" "p \<noteq> os_pid (ls_os s)" by blast
  let ?fs = "if os_files (ls_os s) (c_str f) = None then (os_files (ls_os s))(c_str f \<mapsto> []) else os_files (ls_os s)"
  let ?t = "s\<lparr>ls_os := (ls_os s)\<lparr>os_files := ?fs\<rparr>\<rparr>"
  obtain fd o1 where p: "sys_open (c_str f) True (ls_os s) = (Returned fd, o1)" "0 \<le> fd" "sys_tlock fd o1 = (Returned (- 1), o1)"
    "sys_close fd o1 = (Returned 0, (ls_os s)\<lparr>os_files := ?fs\<rparr>)"
    using probe_locked[OF assms(2) l] by metis
  have run: "probe_lock f s = (Returned (fd, - 1), ?t)"
    using p(2) by (simp add: probe_lock_def bindP_log_os p(1,3,4) ret_def)
  have "os_kept (ls_os s) ((ls_os s)\<lparr>os_files := ?fs\<rparr>)" by (rule os_kept_files) auto
  then have "watched docs ip mdb s ?t" using assms(1) by (simp add: watched_def watching_def)
  with run True show thesis by (intro that[of fd ?t]) (simp_all only: if_True, simp_all)
qed

lemma close_runs:
  assumes "watching s"
  obtains c t where "log_os (sys_close fd) s = (Returned c, t)" "watched docs ip mdb s t"
    and "w_db (pd_mongo t) = w_db (pd_mongo s)" "pd_ran t = pd_ran s"
proof -
  obtain v o' where c: "sys_close fd (ls_os s) = (Returned v, o')" "os_kept (ls_os s) o'" using os_kept_runs(1) by blast
  show thesis
    by (rule that[of v "s\<lparr>ls_os := o'\<rparr>"]) (use c assms in \<open>simp_all add: log_os_def zoom_def watched_def watching_def\<close>)
qed

lemma ask_runs:
  fixes ip :: string
  assumes "watching s" "lib_laws L docs" "db_up L mdb MONGODB_DATABASE MONGODB_COLLECTION_HOSTINFO"
  obtains t where "ask_registry L ip mdb fd s = (Returned (host_records docs (w_db (pd_mongo s)) mdb ip \<noteq> {#}), t)"
    and "watched docs ip mdb s t" "w_db (pd_mongo t) = w_db (pd_mongo s)" "pd_ran t = pd_ran s"
proof -
  obtain v4 o4 where c4: "sys_ulock fd (ls_os s) = (Returned v4, o4)" "os_kept (ls_os s) o4" using os_kept_runs(2) by blast
  let ?s4 = "s\<lparr>ls_os := o4\<rparr>"
  have k4: "kept s ?s4" "watching ?s4" using c4(2) assms(1) by (simp_all add: kept_def watching_def)
  obtain v5 s5 where l5: "rec_log LOG_CRIT (''pull2push does not running, host = '' @ c_str ip) ?s4 = (Returned v5, s5)" "logged ?s4 s5"
    using rec_log_runs[OF k4(2)] .
  have w5: "watching s5" "w_db (pd_mongo s5) = w_db (pd_mongo s)" "kept ?s4 s5"
    using l5(2) logged_kept[OF l5(2)] by (auto simp: logged_def simp del: not_None_eq)
  obtain b t where e: "is_host_exist_d L ip mdb s5 = (Returned b, t)" "b \<longleftrightarrow> host_records docs (w_db (pd_mongo s)) mdb ip \<noteq> {#}"
    "kept s5 t" "w_db (pd_mongo t) = w_db (pd_mongo s5)"
    using is_host_exist_d_runs[OF w5(1) assms(2,3), of ip] w5(2) by auto
  have run: "ask_registry L ip mdb fd s = (Returned b, t)"
    unfolding ask_registry_def
    by (simp add: bindP_log_os c4(1) bindP_Returned[where m = "rec_log _ _", OF l5(1)[simplified]] e(1))
  have k: "kept s t" using k4(1) w5(3) e(3) by (blast intro: kept_trans)
  have db: "w_db (pd_mongo t) = w_db (pd_mongo s)" using e(4) w5(2) by simp
  show thesis
    by (rule that[of t]) (use run e(2) k db kept_watched[OF k, of docs mdb ip] in \<open>simp_all add: kept_def\<close>)
qed

lemma clean_runs:
  fixes ip :: string
  assumes "watching s" "lib_laws L docs" "db_up L mdb MONGODB_DATABASE MONGODB_COLLECTION_HOSTINFO"
  obtains t where "clean_and_run L (\<lambda>_. id) cmd ip mdb fd ex s = (Returned (), t)"
    and "watched docs ip mdb s t" "pd_ran t = pd_ran s @ [cmd]"
    and "if ex then one_less L docs mdb ip (w_db (pd_mongo s)) (w_db (pd_mongo t)) else w_db (pd_mongo t) = w_db (pd_mongo s)"
proof -
  obtain s7 where r7: "(if ex then bindP (remove_host_d L ip mdb) (\<lambda>_. ret ()) else ret ()) s = (Returned (), s7)" "kept s s7"
    "if ex then one_less L docs mdb ip (w_db (pd_mongo s)) (w_db (pd_mongo s7)) else w_db (pd_mongo s7) = w_db (pd_mongo s)"
  proof (cases ex)
    case True
    obtain v t where "remove_host_d L ip mdb s = (Returned v, t)" "kept s t"
      "one_less L docs mdb ip (w_db (pd_mongo s)) (w_db (pd_mongo t))"
      using remove_host_d_runs[OF assms, of ip] by auto
    with True show thesis by (intro that[of t]) (auto simp: bindP_def ret_def)
  next
    case False
    then show thesis using assms(1) by (intro that[of s]) (simp_all add: ret_def kept_refl)
  qed
  obtain v8 o8 where c8: "sys_close fd (ls_os s7) = (Returned v8, o8)" "os_kept (ls_os s7) o8" using os_kept_runs(1) by blast
  let ?s8 = "s7\<lparr>ls_os := o8\<rparr>"
  have k8: "kept s7 ?s8" using kept_os[OF kept_watching[OF r7(2)] c8(2)] .
  obtain v9 u where l9: "rec_log LOG_INFO (''run bin dir: '' @ cmd) ?s8 = (Returned v9, u)" "logged ?s8 u"
    using rec_log_runs[OF kept_watching[OF k8]] .
  have k: "kept s u" using r7(2) k8 logged_kept[OF l9(2)] by (blast intro: kept_trans)
  let ?t = "u\<lparr>pd_ran := pd_ran u @ [cmd]\<rparr>"
  have run: "clean_and_run L (\<lambda>_. id) cmd ip mdb fd ex s = (Returned (), ?t)"
    unfolding clean_and_run_def
    by (simp add: bindP_Returned[where m = "if _ then _ else _", OF r7(1)] bindP_log_os c8(1)
        bindP_Returned[where m = "rec_log _ _", OF l9(1)[simplified]] run_system_def machine_run)
  have db: "w_db (pd_mongo u) = w_db (pd_mongo s7)" using l9(2) by (simp add: logged_def)
  have le: "size (host_records docs (w_db (pd_mongo u)) mdb ip) \<le> size (host_records docs (w_db (pd_mongo s)) mdb ip)"
    using r7(3) one_lessD(1) db by (auto split: if_splits)
  have "watched docs ip mdb s u" by (rule kept_watched[OF k le])
  then have "watched docs ip mdb s ?t" by (simp add: watched_def watching_def)
  then show thesis
    by (rule that[OF run]) (use k r7(3) db in \<open>simp_all add: kept_def\<close>)
qed

text \<open>The handler of a signal: the records of other hosts stay, and those of its own do not grow.\<close>

definition records_shrink :: "('db \<Rightarrow> coll \<Rightarrow> bson multiset) \<Rightarrow> coll \<Rightarrow> bson_value \<Rightarrow> bson_value \<Rightarrow> 'db world \<Rightarrow> 'db world \<Rightarrow> bool" where
  "records_shrink docs c v u w w' \<longleftrightarrow>
     (let R = filter_mset (has_field ''host'' u) (docs (w_db w) c);
          R' = filter_mset (has_field ''host'' u) (docs (w_db w') c)
      in size R' \<le> size R \<and> (v \<noteq> u \<longrightarrow> R' = R))"

lemma records_shrink_frame: "transp (records_shrink docs c v u)" "reflp (records_shrink docs c v u)"
  unfolding transp_def reflp_def records_shrink_def Let_def by (auto intro: order_trans)

lemma records_shrink_same: "w_db w' = w_db w \<Longrightarrow> records_shrink docs c v u w w'"
  by (simp add: records_shrink_def)

lemma remove_one_shrinks:
  assumes "remove_law L docs" "scalar v"
  shows "keeps (records_shrink docs c v u) (remove_one L db tb [(''host'', v)])"
proof -
  have rm: "records_shrink docs c v u w (snd (mongo_remove L k [(''host'', v)] w))" for k and w :: "'a world"
  proof (cases k)
    case None
    then show ?thesis by (auto simp: mongo_remove_def assert_then_def ret_def stop_with_def intro: records_shrink_same)
  next
    case (Some h)
    obtain ok d where r: "l_remove L h [(''host'', v)] (w_db w) = (ok, d)" by fastforce
    have "w_db (snd (mongo_remove L k [(''host'', v)] w)) = d"
      using Some r by (simp add: mongo_remove_def assert_then_def driver_call_def)
    moreover have "docs d = docs (w_db w) \<or>
        (\<exists>x. x \<in># docs (w_db w) h \<and> has_field ''host'' v x \<and> docs d = (docs (w_db w))(h := docs (w_db w) h - {#x#}))"
      using assms r unfolding remove_law_def by metis
    ultimately show ?thesis
      by (auto simp: records_shrink_def has_field_def filter_diff_mset size_mset_mono)
  qed
  show ?thesis
    unfolding remove_one_def with_collection_def
    by (intro keeps_bindP[OF _ _ records_shrink_frame(1)])
      (auto simp: keeps_def rm getP_def ret_def connect_def collection_def bson_new_def bson_destroy_def modP_def stop_with_def
        collection_release_def connect_close_def assert_then_def Let_def bindP_def split: option.split intro: records_shrink_same)
qed

lemma signal_runs:
  assumes "lib_laws L docs" "sig_handler_terminal L s = (r, t)"
  shows "sv_os t = sv_os s"
    and "size (host_records docs (w_db (sv_world t)) mdb ip) \<le> size (host_records docs (w_db (sv_world s)) mdb ip)"
    and "c_str (w_host (sv_world s)) \<noteq> c_str ip \<Longrightarrow>
      host_records docs (w_db (sv_world t)) mdb ip = host_records docs (w_db (sv_world s)) mdb ip"
proof -
  let ?w = "(sv_world s)\<lparr>w_instance := True\<rparr>" and ?h = "Utf8 (c_str (w_host (sv_world s)))"
  have i: "Instance (sv_world s) = (Returned (), ?w)" by (simp add: Instance_def modP_def)
  then have t: "sv_world t = snd (remove_host L ?w)" "sv_os t = sv_os s"
    using assms(2)
    by (auto simp: sig_handler_terminal_def on_world_def zoom_def bindP_def stop_with_def split: outcome.splits prod.splits)
  have "snd (remove_host L ?w) = snd (remove_one L MONGODB_DATABASE MONGODB_COLLECTION_HOSTINFO [(''host'', ?h)] ?w)"
    by (simp add: remove_host_def)
  then have "records_shrink docs (host_place mdb) ?h (Utf8 (c_str ip)) ?w (sv_world t)"
    using remove_one_shrinks[OF lib_lawsD(4)[OF assms(1)], of ?h "host_place mdb" "Utf8 (c_str ip)"
        MONGODB_DATABASE MONGODB_COLLECTION_HOSTINFO] t(1)
    by (simp add: keeps_def)
  with t(2) show "sv_os t = sv_os s"
    "size (host_records docs (w_db (sv_world t)) mdb ip) \<le> size (host_records docs (w_db (sv_world s)) mdb ip)"
    "c_str (w_host (sv_world s)) \<noteq> c_str ip \<Longrightarrow>
      host_records docs (w_db (sv_world t)) mdb ip = host_records docs (w_db (sv_world s)) mdb ip"
    unfolding records_shrink_def host_records_def Let_def by simp_all
qed


section \<open>The invariant\<close>

text \<open>The database can be reached, whatever it accepts and refuses, and the host has an address.\<close>

definition host_env :: "('db, 'j) lib \<Rightarrow> ('db \<Rightarrow> coll \<Rightarrow> bson multiset) \<Rightarrow> string \<Rightarrow> string \<Rightarrow> bool" where
  "host_env L docs ip mdb \<longleftrightarrow>
     lib_laws L docs \<and> db_up L mdb MONGODB_DATABASE MONGODB_COLLECTION_HOSTINFO \<and> c_str ip \<noteq> []"

fun proc_ok :: "string \<Rightarrow> string \<Rightarrow> int \<Rightarrow> stage \<times> 'db server \<Rightarrow> bool" where
  "proc_ok f mdb p (Booting, s) \<longleftrightarrow> bootable f mdb p s"
| "proc_ok f mdb p (Locked, s) \<longleftrightarrow> usable mdb s"
| "proc_ok f mdb p (Cleared port, s) \<longleftrightarrow> c_str (w_db_address (sv_world s)) = c_str mdb \<and> w_host (sv_world s) = []"
| "proc_ok f mdb p (Serving, s) \<longleftrightarrow> True"

definition past_boot :: "'db host \<Rightarrow> int \<Rightarrow> bool" where
  "past_boot h p \<longleftrightarrow> (\<exists>st s. ho_procs h p = Some (st, s) \<and> st \<noteq> Booting)"

definition about_to_insert :: "'db host \<Rightarrow> int \<Rightarrow> bool" where
  "about_to_insert h p \<longleftrightarrow> (\<exists>port s. ho_procs h p = Some (Cleared port, s))"

definition serving :: "'db host \<Rightarrow> int \<Rightarrow> bool" where
  "serving h p \<longleftrightarrow> (\<exists>s. ho_procs h p = Some (Serving, s))"

definition own_records :: "('db \<Rightarrow> coll \<Rightarrow> bson multiset) \<Rightarrow> string \<Rightarrow> string \<Rightarrow> 'db host \<Rightarrow> nat" where
  "own_records docs ip mdb h = size (host_records docs (ho_db h) mdb ip)"

text \<open>
  The lock is with the server that has become a daemon, if there is one; there is at most one record of the host,
  and none while a server is about to insert its own.
\<close>

definition host_inv :: "('db \<Rightarrow> coll \<Rightarrow> bson multiset) \<Rightarrow> string \<Rightarrow> string \<Rightarrow> string \<Rightarrow> 'db host \<Rightarrow> bool" where
  "host_inv docs f ip mdb h \<longleftrightarrow>
     watching (ho_watch h) \<and> \<not> os_denied (ls_os (ho_watch h)) (c_str f) \<and> ho_procs h (os_pid (ls_os (ho_watch h))) = None \<and>
     (\<forall>q. ho_locks h (c_str f) = Some q \<longleftrightarrow> past_boot h q) \<and>
     (\<forall>p x. ho_procs h p = Some x \<longrightarrow> proc_ok f mdb p x) \<and>
     own_records docs ip mdb h \<le> 1 \<and> (\<forall>p. about_to_insert h p \<longrightarrow> own_records docs ip mdb h = 0)"

definition host_started :: "('db \<Rightarrow> coll \<Rightarrow> bson multiset) \<Rightarrow> string \<Rightarrow> string \<Rightarrow> string \<Rightarrow> 'db host \<Rightarrow> bool" where
  "host_started docs f ip mdb h \<longleftrightarrow>
     watching (ho_watch h) \<and> \<not> os_denied (ls_os (ho_watch h)) (c_str f) \<and> ho_round h = Asleep \<and> ho_procs h = Map.empty \<and>
     ho_locks h (c_str f) = None \<and> own_records docs ip mdb h \<le> 1"

lemma host_started_inv: "host_started docs f ip mdb h \<Longrightarrow> host_inv docs f ip mdb h"
  by (simp add: host_started_def host_inv_def past_boot_def about_to_insert_def)

lemma host_sel [simp]:
  "ho_procs (put_server p st t h) = (ho_procs h)(p \<mapsto> (st, t))" "ho_procs (server_gone p t h) = (ho_procs h)(p := None)"
  "ho_procs (proc_gone p h) = (ho_procs h)(p := None)" "ho_procs (put_watch u h) = ho_procs h" "ho_procs (at_stage r h) = ho_procs h"
  "ho_watch (put_server p st t h) = ho_watch h" "ho_watch (server_gone p t h) = ho_watch h"
  "ho_watch (proc_gone p h) = ho_watch h" "ho_watch (put_watch u h) = u" "ho_watch (at_stage r h) = ho_watch h"
  "ho_db (put_server p st t h) = w_db (sv_world t)" "ho_db (server_gone p t h) = w_db (sv_world t)"
  "ho_db (proc_gone p h) = ho_db h" "ho_db (put_watch u h) = w_db (pd_mongo u)" "ho_db (at_stage r h) = ho_db h"
  "ho_locks (put_server p st t h) = os_locks (sv_os t)" "ho_locks (put_watch u h) = os_locks (ls_os u)"
  "ho_locks (at_stage r h) = ho_locks h" "ho_files (at_stage r h) = ho_files h"
  "ho_files (put_server p st t h) = os_files (sv_os t)" "ho_files (server_gone p t h) = os_files (sv_os t)"
  "ho_files (proc_gone p h) = ho_files h" "ho_files (put_watch u h) = os_files (ls_os u)"
  "ho_round (put_server p st t h) = ho_round h" "ho_round (server_gone p t h) = ho_round h"
  "ho_round (proc_gone p h) = ho_round h" "ho_round (put_watch u h) = ho_round h" "ho_round (at_stage r h) = r"
  by (simp_all add: put_server_def server_gone_def proc_gone_def put_watch_def put_shared_def at_stage_def)

lemma gone_locks:
  "ho_locks (proc_gone p h) g = (if ho_locks h g = Some p then None else ho_locks h g)"
  "ho_locks (server_gone p t h) g = (if os_locks (sv_os t) g = Some p then None else os_locks (sv_os t) g)"
  by (simp_all add: proc_gone_def server_gone_def put_shared_def)

lemma server_in_sel [simp]:
  "sv_ini (server_in h s) = sv_ini s" "w_db (sv_world (server_in h s)) = ho_db h" "os_locks (sv_os (server_in h s)) = ho_locks h"
  "os_files (sv_os (server_in h s)) = ho_files h" "w_host (sv_world (server_in h s)) = w_host (sv_world s)"
  "w_db_address (sv_world (server_in h s)) = w_db_address (sv_world s)"
  "os_fork (sv_os (server_in h s)) = os_fork (sv_os s)" "usable mdb (server_in h s) = usable mdb s"
  "std_apart f (sv_os (server_in h s)) = std_apart f (sv_os s)"
  by (simp_all add: server_in_def os_in_def usable_def std_apart_def)

lemma watch_in_sel [simp]:
  "watching (watch_in h) = watching (ho_watch h)" "os_denied (ls_os (watch_in h)) = os_denied (ls_os (ho_watch h))"
  "os_pid (ls_os (watch_in h)) = os_pid (ls_os (ho_watch h))" "os_locks (ls_os (watch_in h)) = ho_locks h"
  "os_files (ls_os (watch_in h)) = ho_files h" "w_db (pd_mongo (watch_in h)) = ho_db h" "pd_ran (watch_in h) = pd_ran (ho_watch h)"
  by (simp_all add: watch_in_def os_in_def watching_def)

lemma host_invD:
  assumes "host_inv docs f ip mdb h"
  shows "watching (ho_watch h)" "\<not> os_denied (ls_os (ho_watch h)) (c_str f)" "ho_procs h (os_pid (ls_os (ho_watch h))) = None"
    and "ho_locks h (c_str f) = Some q \<longleftrightarrow> past_boot h q" "ho_procs h p = Some x \<Longrightarrow> proc_ok f mdb p x"
    and "own_records docs ip mdb h \<le> 1" "about_to_insert h p \<Longrightarrow> own_records docs ip mdb h = 0"
  using assms unfolding host_inv_def by blast+

lemma host_envD:
  assumes "host_env L docs ip mdb"
  shows "lib_laws L docs" "db_up L mdb MONGODB_DATABASE MONGODB_COLLECTION_HOSTINFO" "c_str ip \<noteq> []"
  using assms unfolding host_env_def by blast+

text \<open>There is one holder of the lock, so there is one server past its boot.\<close>

lemma one_past_boot: "host_inv docs f ip mdb h \<Longrightarrow> past_boot h p \<Longrightarrow> past_boot h q \<Longrightarrow> p = q"
  using host_invD(4) by (metis option.inject)

lemma stages_past_boot: "serving h p \<Longrightarrow> past_boot h p" "about_to_insert h p \<Longrightarrow> past_boot h p"
  by (auto simp: serving_def past_boot_def about_to_insert_def)

lemma lock_free: "host_inv docs f ip mdb h \<Longrightarrow> ho_locks h (c_str f) = None \<longleftrightarrow> \<not> (\<exists>q. past_boot h q)"
  using host_invD(4)[of docs f ip mdb h] by (cases "ho_locks h (c_str f)") auto

section \<open>Every step keeps it\<close>

text \<open>A process that is gone, whatever it did to its own locks and the records.\<close>

lemma inv_gone:
  assumes "host_inv docs f ip mdb h" "ho_procs h p = Some x"
    and "ho_procs h' = (ho_procs h)(p := None)" "ho_watch h' = ho_watch h"
    and "ho_locks h' (c_str f) = (if ho_locks h (c_str f) = Some p then None else ho_locks h (c_str f))"
    and "own_records docs ip mdb h' \<le> own_records docs ip mdb h"
  shows "host_inv docs f ip mdb h'"
proof -
  note i = host_invD[OF assms(1)]
  have pb: "past_boot h' q \<longleftrightarrow> past_boot h q \<and> q \<noteq> p" and ins: "about_to_insert h' q \<Longrightarrow> about_to_insert h q" for q
    by (auto simp: past_boot_def about_to_insert_def assms(3) split: if_splits)
  have l: "ho_locks h' (c_str f) = Some q \<longleftrightarrow> past_boot h' q" for q
    unfolding pb assms(5) i(4)[symmetric] by auto
  have z: "own_records docs ip mdb h' = 0" if "about_to_insert h' q" for q
    using i(7)[OF ins[OF that]] assms(6) by simp
  show ?thesis
    unfolding host_inv_def using i l z assms(3,4,6) by auto
qed

lemma inv_boot_ends:
  assumes "host_inv docs f ip mdb h" "ho_procs h p = Some (Booting, s)" "go_daemon f (server_in h s) = (r, t)"
  shows "host_inv docs f ip mdb (server_gone p t h)"
proof -
  have b: "os_fork (sv_os s) = ChildSide p" "std_apart f (sv_os s)"
    using host_invD(5)[OF assms(1,2)] by (simp_all add: bootable_def)
  note g = go_daemon_runs[OF assms(3), simplified, OF b]
  show ?thesis
    by (rule inv_gone[OF assms(1,2)]) (use g(3) own_only_lock[OF g(1), of "c_str f"] in \<open>simp_all add: gone_locks own_records_def\<close>)
qed

lemma inv_daemonized:
  assumes "host_inv docs f ip mdb h" "ho_procs h p = Some (Booting, s)" "go_daemon f (server_in h s) = (Returned (), t)"
  shows "host_inv docs f ip mdb (put_server p Locked t h)" "\<not> (\<exists>q. past_boot h q)"
    and "own_records docs ip mdb (put_server p Locked t h) = own_records docs ip mdb h"
proof -
  note i = host_invD[OF assms(1)]
  have b: "os_fork (sv_os s) = ChildSide p" "std_apart f (sv_os s)" "usable mdb s"
    using i(5)[OF assms(2)] by (simp_all add: bootable_def)
  note g = go_daemon_runs[OF assms(3), simplified, OF b(1,2)]
  have "\<not> past_boot h p" using assms(2) by (simp add: past_boot_def)
  then have free: "ho_locks h (c_str f) = None" using g(6) i(4)[of p] by auto
  then have none: "\<not> past_boot h q" for q using i(4)[of q] by simp
  then show "\<not> (\<exists>q. past_boot h q)" by blast
  have pb: "past_boot (put_server p Locked t h) q \<longleftrightarrow> q = p" for q
    using none[of q] by (auto simp: past_boot_def)
  have ins: "\<not> about_to_insert (put_server p Locked t h) q" for q
    using none[of q] by (auto simp: past_boot_def about_to_insert_def)
  have u: "usable mdb t" using b(3) g(2,4) by (simp add: usable_def)
  show r: "own_records docs ip mdb (put_server p Locked t h) = own_records docs ip mdb h"
    using g(3) by (simp add: own_records_def)
  have w: "p \<noteq> os_pid (ls_os (ho_watch h))" using i(3) assms(2) by auto
  show "host_inv docs f ip mdb (put_server p Locked t h)"
    unfolding host_inv_def pb r using i(1-3,5,6) g(5) ins u w by auto
qed

text \<open>A server that has the lock goes on, or ends.\<close>

lemma inv_goes_on:
  assumes "host_inv docs f ip mdb h" "ho_procs h p = Some (st, s)" "st \<noteq> Booting" "st' \<noteq> Booting"
    and "os_locks (sv_os t) = ho_locks h" "proc_ok f mdb p (st', t)"
    and "own_records docs ip mdb (put_server p st' t h) \<le> 1"
    and "\<And>port. st' = Cleared port \<Longrightarrow> own_records docs ip mdb (put_server p st' t h) = 0"
  shows "host_inv docs f ip mdb (put_server p st' t h)"
proof -
  note i = host_invD[OF assms(1)]
  have p: "past_boot h p" using assms(2,3) by (auto simp: past_boot_def)
  have pb: "past_boot (put_server p st' t h) q \<longleftrightarrow> past_boot h q" for q
    using p assms(4) by (auto simp: past_boot_def)
  have "own_records docs ip mdb (put_server p st' t h) = 0" if "about_to_insert (put_server p st' t h) q" for q
  proof -
    have "past_boot h q" using stages_past_boot(2)[OF that] pb by blast
    then have "q = p" using one_past_boot[OF assms(1) _ p] by blast
    with that assms(8) show ?thesis by (auto simp: about_to_insert_def)
  qed
  moreover have "p \<noteq> os_pid (ls_os (ho_watch h))" using i(3) assms(2) by auto
  ultimately show ?thesis
    unfolding host_inv_def pb using i(1-5) assms(5,6,7) by auto
qed

lemma check_outcome:
  assumes "host_inv docs f ip mdb h" "host_env L docs ip mdb" "ho_procs h p = Some (Locked, s)"
  obtains port t where "init_check L ip (server_in h s) = (if own_records docs ip mdb h = 0 then Returned port else Exited 0, t)"
    and "os_locks (sv_os t) = ho_locks h" "os_files (sv_os t) = ho_files h" "w_db (sv_world t) = ho_db h"
    and "own_records docs ip mdb h = 0 \<Longrightarrow> host_inv docs f ip mdb (put_server p (Cleared port) t h)"
    and "host_inv docs f ip mdb (server_gone p t h)"
proof -
  have u: "usable mdb (server_in h s)" using host_invD(5)[OF assms(1,3)] by simp
  obtain port t where t: "init_check L ip (server_in h s) = (if host_records docs (ho_db h) mdb ip = {#} then Returned port else Exited 0, t)"
    "sv_os t = sv_os (server_in h s)" "w_db (sv_world t) = ho_db h" "c_str (w_db_address (sv_world t)) = c_str mdb"
    "w_host (sv_world t) = []"
    using init_check_runs[OF u host_envD(1,2)[OF assms(2)], of ip] by (metis server_in_sel(2))
  have z: "own_records docs ip mdb h = 0 \<longleftrightarrow> host_records docs (ho_db h) mdb ip = {#}" by (simp add: own_records_def)
  have same: "own_records docs ip mdb (put_server p st t h) = own_records docs ip mdb h" for st
    by (simp add: own_records_def t(3))
  show thesis
  proof (rule that[of port t])
    show "init_check L ip (server_in h s) = (if own_records docs ip mdb h = 0 then Returned port else Exited 0, t)"
      using t(1) by (simp only: z)
    show "host_inv docs f ip mdb (put_server p (Cleared port) t h)" if "own_records docs ip mdb h = 0"
      by (rule inv_goes_on[OF assms(1,3)]) (use that t(2,4,5) same in simp_all)
    show "host_inv docs f ip mdb (server_gone p t h)"
      by (rule inv_gone[OF assms(1,3)]) (use t(2,3) in \<open>simp_all add: gone_locks own_records_def\<close>)
  qed (use t in simp_all)
qed

lemma insert_outcome:
  assumes "host_inv docs f ip mdb h" "host_env L docs ip mdb" "ho_procs h p = Some (Cleared port, s)"
  obtains t where "init_insert L ip port (server_in h s) = (Returned 0, t)"
    and "os_locks (sv_os t) = ho_locks h" "os_files (sv_os t) = ho_files h"
    and "host_inv docs f ip mdb (put_server p Serving t h)"
    and "driver_ok L (host_place mdb) \<Longrightarrow> own_records docs ip mdb (put_server p Serving t h) = 1"
proof -
  have s: "c_str (w_db_address (sv_world (server_in h s))) = c_str mdb" using host_invD(5)[OF assms(1,3)] by simp
  have "about_to_insert h p" using assms(3) by (auto simp: about_to_insert_def)
  then have z: "host_records docs (w_db (sv_world (server_in h s))) mdb ip = {#}"
    using host_invD(7)[OF assms(1)] by (simp add: own_records_def)
  obtain t where t: "init_insert L ip port (server_in h s) = (Returned 0, t)" "sv_os t = sv_os (server_in h s)"
    "w_host (sv_world t) = c_str ip" "size (host_records docs (w_db (sv_world t)) mdb ip) \<le> 1"
    "driver_ok L (host_place mdb) \<Longrightarrow> size (host_records docs (w_db (sv_world t)) mdb ip) = 1"
    by (rule init_insert_runs[OF s host_envD(1,2)[OF assms(2)] z, of port]) (rule that)
  have "host_inv docs f ip mdb (put_server p Serving t h)"
    by (rule inv_goes_on[OF assms(1,3)]) (use t(2,4) in \<open>simp_all add: own_records_def\<close>)
  then show thesis
    by (intro that[of t]) (use t(1,2,5) in \<open>simp_all only: own_records_def host_sel server_in_sel\<close>)
qed

lemma inv_starts:
  assumes "host_inv docs f ip mdb h" "starts f mdb p s h h'"
  shows "host_inv docs f ip mdb h'" "past_boot h' q \<longleftrightarrow> past_boot h q" "own_records docs ip mdb h' = own_records docs ip mdb h"
proof -
  note i = host_invD[OF assms(1)]
  have h': "h' = h\<lparr>ho_procs := (ho_procs h)(p \<mapsto> (Booting, s))\<rparr>" and p: "bootable f mdb p s" "ho_procs h p = None"
    "p \<noteq> os_pid (ls_os (ho_watch h))"
    using assms(2) by (simp_all add: starts_def)
  have s: "past_boot h' q \<longleftrightarrow> past_boot h q" "about_to_insert h' q \<longleftrightarrow> about_to_insert h q" for q
    using p(2) by (auto simp: h' past_boot_def about_to_insert_def)
  then show "past_boot h' q \<longleftrightarrow> past_boot h q" by simp
  show r: "own_records docs ip mdb h' = own_records docs ip mdb h" by (simp add: h' own_records_def)
  show "host_inv docs f ip mdb h'"
    unfolding host_inv_def r s using i p(1,3) by (auto simp: h')
qed

lemma inv_signalled:
  assumes "host_inv docs f ip mdb h" "host_env L docs ip mdb" "ho_procs h p = Some (st, s)"
    and "sig_handler_terminal L (server_in h s) = (r, t)"
  shows "host_inv docs f ip mdb (server_gone p t h)"
proof (rule inv_gone[OF assms(1,3)])
  note sg = signal_runs[OF host_envD(1)[OF assms(2)] assms(4)]
  show "ho_locks (server_gone p t h) (c_str f) = (if ho_locks h (c_str f) = Some p then None else ho_locks h (c_str f))"
    using sg(1) by (simp add: gone_locks)
  show "own_records docs ip mdb (server_gone p t h) \<le> own_records docs ip mdb h"
    using sg(2)[of mdb ip] by (simp add: own_records_def)
qed simp_all

text \<open>The parts of the watchdog's round. None of them fails, and none touches the server's lock.\<close>

lemma watched_lock:
  assumes "host_inv docs f ip mdb h" "os_kept (ls_os (watch_in h)) o2"
  shows "os_locks o2 (c_str f) = ho_locks h (c_str f)"
proof (cases "ho_locks h (c_str f)")
  case None
  then show ?thesis using assms(2) by (force simp: os_kept_def)
next
  case (Some q)
  then have "past_boot h q" using host_invD(4)[OF assms(1)] by blast
  then have "q \<noteq> os_pid (ls_os (watch_in h))" using host_invD(3)[OF assms(1)] by (auto simp: past_boot_def)
  then show ?thesis using os_kept_other[OF assms(2), of "c_str f" q] Some by simp
qed

lemma inv_watched:
  assumes "host_inv docs f ip mdb h" "watched docs ip mdb (watch_in h) t"
  shows "host_inv docs f ip mdb (at_stage r (put_watch t h))"
proof -
  note i = host_invD[OF assms(1)] and w = watchedD[OF assms(2)]
  let ?h = "at_stage r (put_watch t h)"
  have s: "past_boot ?h q \<longleftrightarrow> past_boot h q" "about_to_insert ?h q \<longleftrightarrow> about_to_insert h q" for q
    by (simp_all add: past_boot_def about_to_insert_def)
  have le: "own_records docs ip mdb ?h \<le> own_records docs ip mdb h" using w(3) by (simp add: own_records_def)
  have z: "own_records docs ip mdb ?h = 0" if "about_to_insert h q" for q using i(7)[OF that] le by simp
  have k: "os_denied (ls_os t) = os_denied (ls_os (ho_watch h))" "os_pid (ls_os t) = os_pid (ls_os (ho_watch h))"
    using os_kept_sel[OF w(2)] by simp_all
  have l: "ho_locks ?h (c_str f) = ho_locks h (c_str f)" using watched_lock[OF assms(1) w(2)] by simp
  have "own_records docs ip mdb ?h \<le> 1" using le i(6) by linarith
  then show ?thesis
    unfolding host_inv_def s l using i(1-5) z w(1) k by simp
qed

lemma look_outcome:
  assumes "host_inv docs f ip mdb h"
  obtains fd t where "probe_lock f (watch_in h) = (Returned (fd, if \<exists>q. past_boot h q then - 1 else 0), t)"
    and "watched docs ip mdb (watch_in h) t" "w_db (pd_mongo t) = ho_db h" "pd_ran t = pd_ran (ho_watch h)"
proof -
  note i = host_invD[OF assms]
  have eq: "(\<exists>p. os_locks (ls_os (watch_in h)) (c_str f) = Some p \<and> p \<noteq> os_pid (ls_os (watch_in h))) \<longleftrightarrow> (\<exists>q. past_boot h q)"
  proof -
    have "q \<noteq> os_pid (ls_os (watch_in h))" if "past_boot h q" for q using i(3) that by (auto simp: past_boot_def)
    then show ?thesis using i(4) by (metis watch_in_sel(4))
  qed
  have w: "watching (watch_in h)" "\<not> os_denied (ls_os (watch_in h)) (c_str f)" using i(1,2) by simp_all
  obtain fd t where "probe_lock f (watch_in h) = (Returned (fd, if \<exists>q. past_boot h q then - 1 else 0), t)"
    "watched docs ip mdb (watch_in h) t" "w_db (pd_mongo t) = w_db (pd_mongo (watch_in h))" "pd_ran t = pd_ran (watch_in h)"
    by (rule probe_runs[OF w, of docs ip mdb, unfolded eq]) (rule that)
  then show thesis by (intro that[of fd t]) simp_all
qed

lemma ask_outcome:
  assumes "host_inv docs f ip mdb h" "host_env L docs ip mdb"
  obtains t where "ask_registry L ip mdb fd (watch_in h) = (Returned (own_records docs ip mdb h \<noteq> 0), t)"
    and "watched docs ip mdb (watch_in h) t" "w_db (pd_mongo t) = ho_db h" "pd_ran t = pd_ran (ho_watch h)"
proof -
  have "watching (watch_in h)" using host_invD(1)[OF assms(1)] by simp
  from ask_runs[OF this host_envD(1,2)[OF assms(2)], of ip fd] show thesis
    using that by (simp add: own_records_def) blast
qed

lemma clean_outcome:
  assumes "host_inv docs f ip mdb h" "host_env L docs ip mdb"
  obtains t where "clean_and_run L (\<lambda>_. id) cmd ip mdb fd ex (watch_in h) = (Returned (), t)"
    and "watched docs ip mdb (watch_in h) t" "pd_ran t = pd_ran (ho_watch h) @ [cmd]"
    and "\<not> ex \<Longrightarrow> w_db (pd_mongo t) = ho_db h"
    and "ex \<Longrightarrow> driver_ok L (host_place mdb) \<Longrightarrow> own_records docs ip mdb (put_watch t h) = 0"
proof -
  have "watching (watch_in h)" using host_invD(1)[OF assms(1)] by simp
  then obtain t where t: "clean_and_run L (\<lambda>_. id) cmd ip mdb fd ex (watch_in h) = (Returned (), t)"
    "watched docs ip mdb (watch_in h) t" "pd_ran t = pd_ran (watch_in h) @ [cmd]"
    "if ex then one_less L docs mdb ip (w_db (pd_mongo (watch_in h))) (w_db (pd_mongo t))
     else w_db (pd_mongo t) = w_db (pd_mongo (watch_in h))"
    by (rule clean_runs[OF _ host_envD(1,2)[OF assms(2)], of _ cmd ip fd ex]) (rule that)
  have "own_records docs ip mdb (put_watch t h) = 0" if "ex" "driver_ok L (host_place mdb)"
  proof -
    have "own_records docs ip mdb (put_watch t h) = own_records docs ip mdb h - 1"
      using t(4) one_lessD(2)[OF _ that(2)] that(1) by (simp add: own_records_def)
    then show ?thesis using host_invD(6)[OF assms(1)] by simp
  qed
  then show thesis using t by (intro that[of t]) simp_all
qed

lemma watch_step_inv:
  assumes "host_inv docs f ip mdb h" "host_env L docs ip mdb"
  shows "probe_lock f (watch_in h) = (Returned x, t) \<Longrightarrow> host_inv docs f ip mdb (at_stage r (put_watch t h))"
    and "log_os (sys_close fd) (watch_in h) = (Returned c, t) \<Longrightarrow> host_inv docs f ip mdb (at_stage r (put_watch t h))"
    and "ask_registry L ip mdb fd (watch_in h) = (Returned b, t) \<Longrightarrow> host_inv docs f ip mdb (at_stage r (put_watch t h))"
    and "clean_and_run L (\<lambda>_. id) cmd ip mdb fd ex (watch_in h) = (Returned (), t) \<Longrightarrow>
         host_inv docs f ip mdb (at_stage r (put_watch t h))"
proof -
  have w: "watching (watch_in h)" using host_invD(1)[OF assms(1)] by simp
  show "host_inv docs f ip mdb (at_stage r (put_watch t h))" if "probe_lock f (watch_in h) = (Returned x, t)"
    using look_outcome[OF assms(1)] that inv_watched[OF assms(1)] by (metis prod.inject)
  show "host_inv docs f ip mdb (at_stage r (put_watch t h))" if "log_os (sys_close fd) (watch_in h) = (Returned c, t)"
    using close_runs[OF w, of fd docs ip mdb] that inv_watched[OF assms(1)] by (metis prod.inject)
  show "host_inv docs f ip mdb (at_stage r (put_watch t h))" if "ask_registry L ip mdb fd (watch_in h) = (Returned b, t)"
    using ask_outcome[OF assms, of fd] that inv_watched[OF assms(1)] by (metis prod.inject)
  show "host_inv docs f ip mdb (at_stage r (put_watch t h))"
    if "clean_and_run L (\<lambda>_. id) cmd ip mdb fd ex (watch_in h) = (Returned (), t)"
    using clean_outcome[OF assms, of cmd fd ex] that inv_watched[OF assms(1)] by (metis prod.inject)
qed

lemma program_step_inv:
  assumes "host_inv docs f ip mdb h" "host_env L docs ip mdb" "program_step L f ip mdb cmd h h'"
  shows "host_inv docs f ip mdb h'"
  using assms(3)
proof cases
  case (watch_looks fd rv t)
  then show ?thesis using watch_step_inv(1)[OF assms(1,2)] by simp
next
  case (watch_content fd rv c t)
  then show ?thesis using watch_step_inv(2)[OF assms(1,2)] by simp
next
  case (watch_asks fd rv ex t)
  then show ?thesis using watch_step_inv(3)[OF assms(1,2)] by simp
next
  case (watch_in_vain fd ex t)
  then show ?thesis using watch_step_inv(4)[OF assms(1,2)] by simp
next
  case (watch_restarts fd ex t p s)
  then show ?thesis using inv_starts(1)[OF watch_step_inv(4)[OF assms(1,2)]] by blast
next
  case (daemonized p s t)
  then show ?thesis using inv_daemonized(1)[OF assms(1)] by simp
next
  case (no_daemon p s r t)
  then show ?thesis using inv_boot_ends[OF assms(1)] by simp
next
  case (cleared p s port t)
  then show ?thesis by (elim check_outcome[OF assms(1,2), elim_format]) (auto split: if_splits)
next
  case (refused p s r t)
  then show ?thesis by (elim check_outcome[OF assms(1,2), elim_format]) auto
next
  case (registered p port s c t)
  then show ?thesis by (elim insert_outcome[OF assms(1,2), elim_format]) auto
next
  case (failed p port s r t)
  then show ?thesis by (elim insert_outcome[OF assms(1,2), elim_format]) auto
qed

lemma fault_step_inv:
  assumes "host_inv docs f ip mdb h" "host_env L docs ip mdb" "fault_step L docs f ip mdb h h'"
  shows "host_inv docs f ip mdb h'"
  using assms(3)
proof cases
  case (by_hand p s)
  then show ?thesis using inv_starts(1)[OF assms(1)] by blast
next
  case (killed p st s)
  show ?thesis unfolding killed(1)
    by (rule inv_gone[OF assms(1) killed(2)]) (simp_all add: gone_locks own_records_def)
next
  case (signalled p st s r t)
  then show ?thesis using inv_signalled[OF assms(1,2)] by blast
next
  case (others d)
  then show ?thesis using assms(1) by (simp add: host_inv_def past_boot_def about_to_insert_def own_records_def)
qed

interpretation machine_host: guarded_system
  "\<lambda>h. host_env L docs ip mdb \<and> host_started docs f ip mdb h" "host_step L docs f ip mdb cmd"
  "\<lambda>h. host_env L docs ip mdb \<and> host_inv docs f ip mdb h"
  by unfold_locales (use host_started_inv program_step_inv fault_step_inv in \<open>auto simp: host_step_def\<close>)

section \<open>Starting a server again\<close>

lemma go_daemon_succeeds:
  assumes "os_fork (sv_os s) = ChildSide p" "able f (sv_os s)" "os_locks (sv_os s) (c_str f) = None"
    and "os_files (sv_os s) ''/dev/null'' \<noteq> None" "0 < p"
  shows "\<exists>t. go_daemon f s = (Returned (), t)"
proof -
  obtain o' where "daemon f (sv_os s) = (Returned (err ERROR_OK, Some p), o')" using daemon_succeeds[OF assms] by blast
  then show ?thesis by (simp add: go_daemon_def on_os_def zoom_def bindP_def new_identity_def modP_def)
qed

text \<open>A server that can start, with a pid nobody has. What happens to the rest of the machine does not stop it.\<close>

definition newcomer :: "string \<Rightarrow> string \<Rightarrow> int \<Rightarrow> 'db server \<Rightarrow> 'db host \<Rightarrow> bool" where
  "newcomer f mdb p s h \<longleftrightarrow>
     bootable f mdb p s \<and> able f (sv_os s) \<and> 0 < p \<and> ho_procs h p = None \<and> p \<notin> ran (ho_locks h) \<and>
     p \<noteq> os_pid (ls_os (ho_watch h)) \<and> ho_files h ''/dev/null'' \<noteq> None"

lemma newcomer_kept:
  assumes "newcomer f mdb p s h" "ho_procs h' p = None" "ran (ho_locks h') \<subseteq> ran (ho_locks h)"
    and "os_pid (ls_os (ho_watch h')) = os_pid (ls_os (ho_watch h))" "dom (ho_files h) \<subseteq> dom (ho_files h')"
  shows "newcomer f mdb p s h'"
  using assms by (auto simp: newcomer_def)

lemma newcomer_watched:
  assumes "newcomer f mdb p s h" "watched docs ip mdb (watch_in h) t"
  shows "newcomer f mdb p s (at_stage r (put_watch t h))"
proof -
  note k = watchedD(2)[OF assms(2)]
  show ?thesis
    by (rule newcomer_kept[OF assms(1)]) (use assms(1) os_kept_ran[OF k] os_kept_sel[OF k] k in \<open>auto simp: newcomer_def os_kept_def\<close>)
qed

text \<open>The server boots; then it serves, if the host has no record, and otherwise ends and leaves the machine to the next.\<close>

lemma newcomer_boots:
  assumes "host_inv docs f ip mdb h" "newcomer f mdb p s h" "\<not> (\<exists>q. past_boot h q)" "starts f mdb p s h h1"
  obtains t where "program_step L f ip mdb cmd h1 (put_server p Locked t h1)" "host_inv docs f ip mdb (put_server p Locked t h1)"
    and "own_records docs ip mdb (put_server p Locked t h1) = own_records docs ip mdb h"
    and "dom (ho_files h) \<subseteq> dom (os_files (sv_os t))"
    and "\<And>g. os_locks (sv_os t) g = ho_locks h g \<or> os_locks (sv_os t) g \<in> {None, Some p}"
proof -
  have h1: "h1 = h\<lparr>ho_procs := (ho_procs h)(p \<mapsto> (Booting, s))\<rparr>" using assms(4) by (simp add: starts_def)
  have i1: "host_inv docs f ip mdb h1" using inv_starts(1)[OF assms(1,4)] .
  have b: "os_fork (sv_os s) = ChildSide p" "std_apart f (sv_os s)" using assms(2) by (simp_all add: newcomer_def bootable_def)
  have l: "ho_locks h (c_str f) = None" using assms(3) lock_free[OF assms(1)] by simp
  have "able f (sv_os (server_in h1 s))" using assms(2) by (simp add: newcomer_def able_def server_in_def os_in_def)
  then obtain t where g: "go_daemon f (server_in h1 s) = (Returned (), t)"
    using go_daemon_succeeds[of "server_in h1 s" p f] b(1) l assms(2) by (auto simp: h1 newcomer_def)
  have at: "ho_procs h1 p = Some (Booting, s)" by (simp add: h1)
  have own: "own_only ((sv_os (server_in h1 s))\<lparr>os_pid := p\<rparr>) (sv_os t)" using go_daemon_runs(1)[OF g, of p] b by simp
  have locks: "os_locks (sv_os t) g = ho_locks h g \<or> os_locks (sv_os t) g \<in> {None, Some p}" for g
  proof -
    have "os_locks (sv_os t) g = ho_locks h1 g \<or> {ho_locks h1 g, os_locks (sv_os t) g} \<subseteq> {None, Some p}"
      using own unfolding own_only_def by simp
    then show ?thesis by (auto simp: h1)
  qed
  have files: "dom (ho_files h) \<subseteq> dom (os_files (sv_os t))" using own by (simp add: own_only_def h1)
  have rec: "own_records docs ip mdb (put_server p Locked t h1) = own_records docs ip mdb h"
    using inv_daemonized(3)[OF i1 at g] by (simp add: own_records_def h1)
  from program_step.daemonized[OF at g] inv_daemonized(1)[OF i1 at g] rec files locks show thesis by (rule that)
qed

lemma two_steps: "R x y \<Longrightarrow> R y z \<Longrightarrow> (R ^^ 2) x z"
  by (auto simp: numeral_2_eq_2)

lemma cleared_serves:
  assumes "host_inv docs f ip mdb h" "host_env L docs ip mdb" "driver_ok L (host_place mdb)" "ho_procs h p = Some (Cleared port, s)"
  obtains g where "program_step L f ip mdb cmd h g" "serving g p" "host_inv docs f ip mdb g" "own_records docs ip mdb g = 1"
proof -
  obtain t where t: "init_insert L ip port (server_in h s) = (Returned 0, t)" "host_inv docs f ip mdb (put_server p Serving t h)"
    "own_records docs ip mdb (put_server p Serving t h) = 1"
    using insert_outcome[OF assms(1,2,4)] assms(3) by metis
  show thesis
    using that[OF program_step.registered[OF assms(4) t(1)] _ t(2,3)] by (simp add: serving_def)
qed

lemma locked_serves:
  assumes "host_inv docs f ip mdb h" "host_env L docs ip mdb" "driver_ok L (host_place mdb)" "ho_procs h p = Some (Locked, s)"
    and "own_records docs ip mdb h = 0"
  obtains g where "(program_step L f ip mdb cmd ^^ 2) h g" "serving g p" "host_inv docs f ip mdb g" "own_records docs ip mdb g = 1"
proof -
  obtain port t where t: "init_check L ip (server_in h s) = (Returned port, t)" "host_inv docs f ip mdb (put_server p (Cleared port) t h)"
    using check_outcome[OF assms(1,2,4)] assms(5) by (metis (full_types))
  have "ho_procs (put_server p (Cleared port) t h) p = Some (Cleared port, t)" by simp
  from cleared_serves[OF t(2) assms(2,3) this, of cmd] obtain g where
    "program_step L f ip mdb cmd (put_server p (Cleared port) t h) g" "serving g p" "host_inv docs f ip mdb g"
    "own_records docs ip mdb g = 1" .
  with program_step.cleared[OF assms(4) t(1)] show thesis by (intro that[of g] two_steps)
qed


text \<open>With nobody past the boot: the rest of a round of the watchdog that found it so, and the server the command starts.\<close>

lemma newcomer_serves:
  assumes "host_inv docs f ip mdb h" "host_env L docs ip mdb" "driver_ok L (host_place mdb)" "newcomer f mdb p s h"
    and "\<not> (\<exists>q. past_boot h q)" "starts f mdb p s h h1" "own_records docs ip mdb h = 0"
  obtains g where "(program_step L f ip mdb cmd ^^ 3) h1 g" "serving g p" "host_inv docs f ip mdb g" "own_records docs ip mdb g = 1"
proof -
  obtain t where 1: "program_step L f ip mdb cmd h1 (put_server p Locked t h1)" "host_inv docs f ip mdb (put_server p Locked t h1)"
    "own_records docs ip mdb (put_server p Locked t h1) = 0"
    using newcomer_boots[OF assms(1,4-6)] assms(7) by metis
  have "ho_procs (put_server p Locked t h1) p = Some (Locked, t)" by simp
  from locked_serves[OF 1(2) assms(2,3) this 1(3), of cmd] obtain g where
    g: "(program_step L f ip mdb cmd ^^ 2) (put_server p Locked t h1) g" "serving g p" "host_inv docs f ip mdb g"
    "own_records docs ip mdb g = 1" .
  have "(program_step L f ip mdb cmd ^^ Suc 2) h1 g" using relpowp_Suc_I2[OF 1(1) g(1)] .
  then show thesis using g(2-4) by (intro that[of g]) simp_all
qed


lemma program_runs:
  assumes "(program_step L f ip mdb cmd ^^ n) h h'"
  shows "(host_step L docs f ip mdb cmd)\<^sup>*\<^sup>* h h'"
proof -
  have "program_step L f ip mdb cmd \<le> host_step L docs f ip mdb cmd" by (auto simp: host_step_def)
  from rtranclp_mono[OF this] relpowp_imp_rtranclp[OF assms] show ?thesis by blast
qed

lemma past_boot_watched [simp]: "past_boot (at_stage r (put_watch t h)) q = past_boot h q" "serving (at_stage r (put_watch t h)) q = serving h q"
  by (simp_all add: past_boot_def serving_def)

text \<open>The last part of the round, with the server that the command starts.\<close>

lemma asked_starts:
  assumes "host_inv docs f ip mdb h" "host_env L docs ip mdb" "newcomer f mdb p s h" "\<not> (\<exists>q. past_boot h q)" "ho_round h = Asked fd ex"
  obtains k g where "host_inv docs f ip mdb k" "newcomer f mdb p s k" "\<not> (\<exists>q. past_boot k q)" "ho_round k = Asleep"
    and "starts f mdb p s k g" "program_step L f ip mdb cmd h g"
    and "driver_ok L (host_place mdb) \<Longrightarrow> ex \<or> own_records docs ip mdb h = 0 \<Longrightarrow> own_records docs ip mdb k = 0"
proof -
  obtain t where t: "clean_and_run L (\<lambda>_. id) cmd ip mdb fd ex (watch_in h) = (Returned (), t)" "watched docs ip mdb (watch_in h) t"
    "\<not> ex \<Longrightarrow> w_db (pd_mongo t) = ho_db h"
    "ex \<Longrightarrow> driver_ok L (host_place mdb) \<Longrightarrow> own_records docs ip mdb (put_watch t h) = 0"
    by (rule clean_outcome[OF assms(1,2), of cmd fd ex]) (rule that)
  let ?k = "at_stage Asleep (put_watch t h)"
  define g where "g = ?k\<lparr>ho_procs := (ho_procs ?k)(p \<mapsto> (Booting, s))\<rparr>"
  have new: "newcomer f mdb p s ?k" by (rule newcomer_watched[OF assms(3) t(2)])
  then have st: "starts f mdb p s ?k g" by (simp add: starts_def newcomer_def g_def)
  have "own_records docs ip mdb ?k = 0" if "driver_ok L (host_place mdb)" "ex \<or> own_records docs ip mdb h = 0"
    using t(3,4) that by (cases ex) (simp_all add: own_records_def)
  then show thesis
    using that[OF inv_watched[OF assms(1) t(2)] new _ _ st program_step.watch_restarts[OF assms(5) t(1) st]] assms(4) by simp
qed

lemma asked_serves:
  assumes "host_inv docs f ip mdb h" "host_env L docs ip mdb" "driver_ok L (host_place mdb)" "newcomer f mdb p s h"
    and "\<not> (\<exists>q. past_boot h q)" "ho_round h = Asked fd ex" "ex \<or> own_records docs ip mdb h = 0"
  shows "\<exists>g. (program_step L f ip mdb cmd ^^ 4) h g \<and> serving g p \<and> host_inv docs f ip mdb g \<and> own_records docs ip mdb g = 1"
proof -
  obtain k g where k: "host_inv docs f ip mdb k" "newcomer f mdb p s k" "\<not> (\<exists>q. past_boot k q)" "starts f mdb p s k g"
    "program_step L f ip mdb cmd h g" "own_records docs ip mdb k = 0"
    using asked_starts[OF assms(1,2,4-6)] assms(3,7) by metis
  obtain u where u: "(program_step L f ip mdb cmd ^^ 3) g u" "serving u p" "host_inv docs f ip mdb u" "own_records docs ip mdb u = 1"
    by (rule newcomer_serves[OF k(1) assms(2,3) k(2-4,6)])
  have "(program_step L f ip mdb cmd ^^ Suc 3) h u" using relpowp_Suc_I2[OF k(5) u(1)] .
  with u(2-4) show ?thesis by (intro exI[of _ u]) simp
qed

lemma looked_serves:
  assumes "host_inv docs f ip mdb h" "host_env L docs ip mdb" "driver_ok L (host_place mdb)" "newcomer f mdb p s h"
    and "\<not> (\<exists>q. past_boot h q)" "ho_round h = Looked fd rv" "0 \<le> rv"
  shows "\<exists>g. (program_step L f ip mdb cmd ^^ 5) h g \<and> serving g p \<and> host_inv docs f ip mdb g \<and> own_records docs ip mdb g = 1"
proof -
  obtain t where t: "ask_registry L ip mdb fd (watch_in h) = (Returned (own_records docs ip mdb h \<noteq> 0), t)"
    "watched docs ip mdb (watch_in h) t" "w_db (pd_mongo t) = ho_db h"
    by (rule ask_outcome[OF assms(1,2), of fd]) (rule that)
  let ?k = "at_stage (Asked fd (own_records docs ip mdb h \<noteq> 0)) (put_watch t h)"
  have rec: "own_records docs ip mdb h \<noteq> 0 \<or> own_records docs ip mdb ?k = 0" using t(3) by (simp add: own_records_def)
  have round: "ho_round ?k = Asked fd (own_records docs ip mdb h \<noteq> 0)" by simp
  have none: "\<not> (\<exists>q. past_boot ?k q)" using assms(5) by simp
  from asked_serves[OF inv_watched[OF assms(1) t(2)] assms(2,3) newcomer_watched[OF assms(4) t(2)] none round rec]
  obtain g where g: "(program_step L f ip mdb cmd ^^ 4) ?k g" "serving g p" "host_inv docs f ip mdb g" "own_records docs ip mdb g = 1"
    by blast
  have "(program_step L f ip mdb cmd ^^ Suc 4) h g"
    using relpowp_Suc_I2[OF program_step.watch_asks[OF assms(6,7) t(1)] g(1)] .
  with g(2-4) show ?thesis by (intro exI[of _ g]) simp
qed

lemma asleep_serves:
  assumes "host_inv docs f ip mdb h" "host_env L docs ip mdb" "driver_ok L (host_place mdb)" "newcomer f mdb p s h"
    and "\<not> (\<exists>q. past_boot h q)" "ho_round h = Asleep"
  shows "\<exists>g. (program_step L f ip mdb cmd ^^ 6) h g \<and> serving g p \<and> host_inv docs f ip mdb g \<and> own_records docs ip mdb g = 1"
proof -
  obtain fd t where r: "probe_lock f (watch_in h) = (Returned (fd, if \<exists>q. past_boot h q then - 1 else 0), t)"
    and t: "watched docs ip mdb (watch_in h) t"
    by (rule look_outcome[OF assms(1)]) (rule that)
  have p: "probe_lock f (watch_in h) = (Returned (fd, 0), t)" using r assms(5) by (simp only: if_False)
  let ?k = "at_stage (Looked fd 0) (put_watch t h)"
  have round: "ho_round ?k = Looked fd 0" and none: "\<not> (\<exists>q. past_boot ?k q)" using assms(5) by simp_all
  from looked_serves[OF inv_watched[OF assms(1) t] assms(2,3) newcomer_watched[OF assms(4) t] none round order_refl]
  obtain g where g: "(program_step L f ip mdb cmd ^^ 5) ?k g" "serving g p" "host_inv docs f ip mdb g" "own_records docs ip mdb g = 1"
    by blast
  have "(program_step L f ip mdb cmd ^^ Suc 5) h g"
    using relpowp_Suc_I2[OF program_step.watch_looks[OF assms(6) p] g(1)] .
  with g(2-4) show ?thesis by (intro exI[of _ g]) simp
qed



section \<open>A round that overtakes a start\<close>

lemma hand_started_serves:
  assumes "host_inv docs f ip mdb h" "host_env L docs ip mdb" "driver_ok L (host_place mdb)" "newcomer f mdb p s h"
    and "\<not> (\<exists>q. past_boot h q)" "own_records docs ip mdb h = 0"
  obtains g where "(host_step L docs f ip mdb cmd)\<^sup>*\<^sup>* h g" "serving g p" "host_inv docs f ip mdb g" "own_records docs ip mdb g = 1"
    and "ho_round g = ho_round h"
proof -
  define h1 where "h1 = h\<lparr>ho_procs := (ho_procs h)(p \<mapsto> (Booting, s))\<rparr>"
  have st: "starts f mdb p s h h1" using assms(4) by (simp add: starts_def newcomer_def h1_def)
  obtain t where 1: "program_step L f ip mdb cmd h1 (put_server p Locked t h1)" "host_inv docs f ip mdb (put_server p Locked t h1)"
    "own_records docs ip mdb (put_server p Locked t h1) = 0"
    using newcomer_boots[OF assms(1,4,5) st] assms(6) by metis
  let ?k = "put_server p Locked t h1"
  have l: "ho_procs ?k p = Some (Locked, t)" by simp
  obtain port u where 2: "init_check L ip (server_in ?k t) = (Returned port, u)" "host_inv docs f ip mdb (put_server p (Cleared port) u ?k)"
    using check_outcome[OF 1(2) assms(2) l] 1(3) by (metis (full_types))
  let ?m = "put_server p (Cleared port) u ?k"
  have c: "ho_procs ?m p = Some (Cleared port, u)" by simp
  obtain v where 3: "init_insert L ip port (server_in ?m u) = (Returned 0, v)" "host_inv docs f ip mdb (put_server p Serving v ?m)"
    "own_records docs ip mdb (put_server p Serving v ?m) = 1"
    using insert_outcome[OF 2(2) assms(2) c] assms(3) by metis
  let ?g = "put_server p Serving v ?m"
  have "host_step L docs f ip mdb cmd h h1" unfolding host_step_def by (rule disjI2, rule fault_step.by_hand[OF st])
  moreover have "host_step L docs f ip mdb cmd h1 ?k" "host_step L docs f ip mdb cmd ?k ?m" "host_step L docs f ip mdb cmd ?m ?g"
    using 1(1) program_step.cleared[OF l 2(1)] program_step.registered[OF c 3(1)] by (simp_all add: host_step_def)
  ultimately have "(host_step L docs f ip mdb cmd)\<^sup>*\<^sup>* h ?g" by (meson converse_rtranclp_into_rtranclp rtranclp.rtrancl_refl)
  moreover have "serving ?g p" by (simp add: serving_def)
  ultimately show thesis using 3(2,3) by (intro that[of ?g]) (simp_all add: h1_def)
qed

lemma cleaned_but_alive:
  assumes "host_inv docs f ip mdb g" "host_env L docs ip mdb" "driver_ok L (host_place mdb)" "serving g p" "own_records docs ip mdb g = 1"
  obtains v where "clean_up L ip mdb fd (watch_in g) = (Returned False, v)" "serving (put_watch v g) p"
    and "own_records docs ip mdb (put_watch v g) = 0"
    and "fst (check_process_alive L f ip mdb (watch_in (put_watch v g))) = Returned True"
proof -
  note i = host_invD[OF assms(1)] and e = host_envD[OF assms(2)]
  have w: "watching (watch_in g)" using i(1) by simp
  obtain v where v: "clean_up L ip mdb fd (watch_in g) = (Returned False, v)" "kept (watch_in g) v"
    "one_less L docs mdb ip (w_db (pd_mongo (watch_in g))) (w_db (pd_mongo v))"
    by (rule clean_up_runs[OF w e(1,2), of ip fd])
  have gone: "own_records docs ip mdb (put_watch v g) = 0"
    using one_lessD(2)[OF v(3) assms(3)] assms(5) by (simp add: own_records_def)
  have held: "ho_locks g (c_str f) = Some p" "p \<noteq> os_pid (ls_os (ho_watch g))"
    using i(3,4) stages_past_boot(1)[OF assms(4)] assms(4) by (auto simp: serving_def)
  have kv: "os_kept (ls_os (watch_in g)) (ls_os v)" using v(2) by (simp add: kept_def)
  have lock: "os_locks (ls_os v) (c_str f) = Some p" using os_kept_other[OF kv] held by simp
  have same: "os_pid (ls_os v) = os_pid (ls_os (ho_watch g))" "os_denied (ls_os v) = os_denied (ls_os (ho_watch g))"
    using os_kept_sel[OF kv] by simp_all
  have "fst (check_process_alive L f ip mdb (watch_in (put_watch v g))) = Returned True"
    using check_alive_locked[of "watch_in (put_watch v g)" f p L ip mdb] i(2) held(2) lock same by simp
  moreover have "serving (put_watch v g) p" using assms(4) by (simp add: serving_def)
  ultimately show thesis using v(1) gone by (intro that[of v])
qed

lemma round_unregisters:
  assumes "host_inv docs f ip mdb g" "host_env L docs ip mdb" "driver_ok L (host_place mdb)" "serving g p" "own_records docs ip mdb g = 1"
    and "ho_round g = Looked fd 0"
  obtains u where "(host_step L docs f ip mdb cmd)\<^sup>*\<^sup>* g u" "serving u p" "own_records docs ip mdb u = 0"
proof -
  obtain t where t: "ask_registry L ip mdb fd (watch_in g) = (Returned (own_records docs ip mdb g \<noteq> 0), t)"
    "watched docs ip mdb (watch_in g) t"
    by (rule ask_outcome[OF assms(1,2), of fd]) (rule that)
  then have ask: "ask_registry L ip mdb fd (watch_in g) = (Returned True, t)" using assms(5) by simp
  let ?k = "at_stage (Asked fd True) (put_watch t g)"
  have i: "host_inv docs f ip mdb ?k" by (rule inv_watched[OF assms(1) t(2)])
  obtain v where v: "clean_and_run L (\<lambda>_. id) cmd ip mdb fd True (watch_in ?k) = (Returned (), v)"
    "True \<Longrightarrow> driver_ok L (host_place mdb) \<Longrightarrow> own_records docs ip mdb (put_watch v ?k) = 0"
    by (rule clean_outcome[OF i assms(2), of cmd fd True]) (rule that)
  let ?u = "at_stage Asleep (put_watch v ?k)"
  have "program_step L f ip mdb cmd g ?k" by (rule program_step.watch_asks[OF assms(6) _ ask]) simp
  moreover have "program_step L f ip mdb cmd ?k ?u" by (rule program_step.watch_in_vain[OF _ v(1)]) simp
  ultimately have "(host_step L docs f ip mdb cmd)\<^sup>*\<^sup>* g ?u"
    by (meson host_step_def converse_rtranclp_into_rtranclp rtranclp.rtrancl_refl)
  then show thesis using assms(3,4) v(2) by (intro that[of ?u]) (simp_all add: own_records_def)
qed

section \<open>The properties\<close>

text \<open>A machine with the watchdog, the registry of \<open>d\<close> and no server, and a server that can start on it.\<close>

definition mem_host :: "mem_db \<Rightarrow> mem_db host" where
  "mem_host d =
     \<lparr>ho_files = [''/srv/log/pid'' \<mapsto> [], ''/dev/null'' \<mapsto> []], ho_locks = Map.empty, ho_db = d,
      ho_watch = mem_watch d Map.empty, ho_round = Asleep, ho_procs = Map.empty\<rparr>"

lemma mem_host_env: "host_env mem_lib mem_docs ''10.0.0.7'' ''mongodb://a''"
proof -
  have "db_up mem_lib ''mongodb://a'' MONGODB_DATABASE MONGODB_COLLECTION_HOSTINFO"
    using mem_configured_up[of "[]"] by (simp add: hosts_up_def mem_configured mem_world_def)
  moreover have "c_str ''10.0.0.7'' \<noteq> []" by (simp add: c_str_def NUL_def)
  ultimately show ?thesis using mem_lib_laws by (simp add: host_env_def)
qed

lemma mem_host_records:
  "own_records mem_docs ''10.0.0.7'' ''mongodb://a'' (mem_host []) = 0"
  "own_records mem_docs ''10.0.0.7'' ''mongodb://a'' (mem_host [mem_host_entry]) = 1"
  by (simp_all add: own_records_def mem_host_def host_records_def host_place_def mem_host_entry_def has_field_def c_str_def NUL_def
      mem_docs_def)

lemma mem_host_started:
  "own_records mem_docs ''10.0.0.7'' ''mongodb://a'' (mem_host d) \<le> 1 \<Longrightarrow>
   host_started mem_docs ''/srv/log/pid'' ''10.0.0.7'' ''mongodb://a'' (mem_host d)"
  using mem_watch_watching[of d] by (simp add: host_started_def mem_host_def mem_watch_def plain_os_def)

lemma mem_newcomer: "newcomer ''/srv/log/pid'' ''mongodb://a'' 43 (mem_loaded []) (mem_host d)"
proof -
  have o: "sv_os (mem_loaded []) = plain_os [''/opt/sbin/../conf/1.conf'' \<mapsto> mem_conf] Map.empty"
    by (simp add: mem_loaded_def on_ini_def zoom_def mem_server_def split: prod.split)
  have c: "c_str ''/srv/log/pid'' = ''/srv/log/pid''" by (simp add: c_str_def NUL_def)
  have "usable ''mongodb://a'' (mem_loaded [])"
    using mem_loaded_fits by (simp add: usable_def mem_loaded_vals atoi_80 mem_loaded_world mem_server_def)
  then show ?thesis
    by (simp add: newcomer_def bootable_def std_apart_def able_def o c plain_os_def fd_file_def mem_host_def mem_watch_def)
qed

lemma mem_restarted:
  "\<exists>g. (host_step mem_lib mem_docs ''/srv/log/pid'' ''10.0.0.7'' ''mongodb://a'' ''/srv/sbin/pull'')\<^sup>*\<^sup>* (mem_host [mem_host_entry]) g \<and>
       serving g 43 \<and> own_records mem_docs ''10.0.0.7'' ''mongodb://a'' g = 1"
proof -
  have i: "host_inv mem_docs ''/srv/log/pid'' ''10.0.0.7'' ''mongodb://a'' (mem_host [mem_host_entry])"
    using host_started_inv[OF mem_host_started] mem_host_records(2) by simp
  have "\<not> (\<exists>q. past_boot (mem_host [mem_host_entry]) q)" "ho_round (mem_host [mem_host_entry]) = Asleep"
    by (simp_all add: past_boot_def mem_host_def)
  from asleep_serves[OF i mem_host_env mem_driver_ok mem_newcomer this] show ?thesis by (blast intro: program_runs)
qed

text \<open>
  C6 (one server per host). On a machine that starts without a server, with the database reachable, whatever it accepts
  and refuses, and with the servers running as daemons that were started with standard input and output open on
  something else than the pid file: in every order in which the parts of the watchdog's rounds,
  of the boots and registrations of the servers, and their deaths interleave, at most one server is past its
  daemonisation, and it is the one that holds the lock on the pid file. The host never has two records, and it has
  none while a server is about to insert its own, though no lock covers the check and the insert in the database.
\<close>

theorem one_live_server:
  assumes "host_env L docs ip mdb" "host_started docs f ip mdb h" "(host_step L docs f ip mdb cmd)\<^sup>*\<^sup>* h h'"
  shows "(past_boot h' p \<longrightarrow> past_boot h' q \<longrightarrow> p = q) \<and> (ho_locks h' (c_str f) = Some p \<longleftrightarrow> past_boot h' p) \<and>
         own_records docs ip mdb h' \<le> 1 \<and> (about_to_insert h' p \<longrightarrow> own_records docs ip mdb h' = 0)"
proof -
  have i: "host_inv docs f ip mdb h'"
    using machine_host.rtrancl_inv[OF assms(3)] host_started_inv[OF assms(2)] assms(1) by blast
  show ?thesis using host_invD(4,6,7)[OF i] one_past_boot[OF i] by blast
qed

theorem one_live_server_witness:
  "\<exists>g. serving (g :: mem_db host) 43 \<and> ho_locks g (c_str ''/srv/log/pid'') = Some 43 \<and>
       own_records mem_docs ''10.0.0.7'' ''mongodb://a'' g \<le> 1"
proof -
  obtain g where g: "(host_step mem_lib mem_docs ''/srv/log/pid'' ''10.0.0.7'' ''mongodb://a'' ''/srv/sbin/pull'')\<^sup>*\<^sup>* (mem_host [mem_host_entry]) g"
    "serving g 43"
    using mem_restarted by blast
  have "host_started mem_docs ''/srv/log/pid'' ''10.0.0.7'' ''mongodb://a'' (mem_host [mem_host_entry])"
    using mem_host_started mem_host_records(2) by simp
  from one_live_server[OF mem_host_env this g(1), of 43 43] g(2) stages_past_boot(1)[OF g(2)] show ?thesis by blast
qed



text \<open>
  C37 (the check acts on what was true before). When a server starts between the look of the watchdog at the lock and
  the rest of its check, on a machine without a server or a record whose database accepts what it is asked, the
  watchdog removes the record of the server that serves; the server keeps its lock, so that from then on the check
  finds it alive. This is a run of the machine.
\<close>

theorem stale_check_unregisters:
  assumes "host_env L docs ip mdb" "driver_ok L (host_place mdb)" "host_started docs f ip mdb h"
    and "own_records docs ip mdb h = 0" "newcomer f mdb p s h"
  shows "\<exists>fd t g v. probe_lock f (watch_in h) = (Returned (fd, 0), t) \<and>
           (host_step L docs f ip mdb cmd)\<^sup>*\<^sup>* (at_stage (Looked fd 0) (put_watch t h)) g \<and>
           serving g p \<and> clean_up L ip mdb fd (watch_in g) = (Returned False, v) \<and>
           serving (put_watch v g) p \<and> own_records docs ip mdb (put_watch v g) = 0 \<and>
           fst (check_process_alive L f ip mdb (watch_in (put_watch v g))) = Returned True \<and>
           (\<exists>u. (host_step L docs f ip mdb cmd)\<^sup>*\<^sup>* h u \<and> serving u p \<and> own_records docs ip mdb u = 0)"
proof -
  note st = assms(3)[unfolded host_started_def]
  have i: "host_inv docs f ip mdb h" using host_started_inv[OF assms(3)] .
  have none: "\<not> (\<exists>q. past_boot h q)" using st by (simp add: past_boot_def)
  obtain fd t where r: "probe_lock f (watch_in h) = (Returned (fd, if \<exists>q. past_boot h q then - 1 else 0), t)"
    and t: "watched docs ip mdb (watch_in h) t" "w_db (pd_mongo t) = ho_db h"
    by (rule look_outcome[OF i]) (rule that)
  have pr: "probe_lock f (watch_in h) = (Returned (fd, 0), t)" using r none by (simp only: if_False)
  let ?h = "at_stage (Looked fd 0) (put_watch t h)"
  have look: "host_step L docs f ip mdb cmd h ?h"
    unfolding host_step_def by (rule disjI1, rule program_step.watch_looks[OF _ pr]) (use st in simp)
  obtain g where run: "(host_step L docs f ip mdb cmd)\<^sup>*\<^sup>* ?h g" and g: "serving g p" "host_inv docs f ip mdb g"
    "own_records docs ip mdb g = 1" "ho_round g = Looked fd 0"
    by (rule hand_started_serves[OF inv_watched[OF i t(1)] assms(1,2) newcomer_watched[OF assms(5) t(1)]])
      (use none assms(4) t(2) in \<open>simp_all add: own_records_def\<close>)
  obtain v where v: "clean_up L ip mdb fd (watch_in g) = (Returned False, v)" "serving (put_watch v g) p"
    "own_records docs ip mdb (put_watch v g) = 0"
    "fst (check_process_alive L f ip mdb (watch_in (put_watch v g))) = Returned True"
    by (rule cleaned_but_alive[OF g(2) assms(1,2) g(1,3), of fd])
  obtain u where "(host_step L docs f ip mdb cmd)\<^sup>*\<^sup>* g u" "serving u p" "own_records docs ip mdb u = 0"
    by (rule round_unregisters[OF g(2) assms(1,2) g(1,3,4)])
  then have "(host_step L docs f ip mdb cmd)\<^sup>*\<^sup>* h u \<and> serving u p \<and> own_records docs ip mdb u = 0"
    using look run by (meson converse_rtranclp_into_rtranclp rtranclp_trans)
  with pr run g(1) v show ?thesis by blast
qed

theorem stale_check_unregisters_witness:
  "\<exists>u. (host_step mem_lib mem_docs ''/srv/log/pid'' ''10.0.0.7'' ''mongodb://a'' ''/srv/sbin/pull'')\<^sup>*\<^sup>* (mem_host []) u \<and>
     serving u 43 \<and> own_records mem_docs ''10.0.0.7'' ''mongodb://a'' u = 0"
proof -
  have "host_started mem_docs ''/srv/log/pid'' ''10.0.0.7'' ''mongodb://a'' (mem_host [])"
    using mem_host_started mem_host_records(1) by simp
  from stale_check_unregisters[OF mem_host_env mem_driver_ok this mem_host_records(1) mem_newcomer] show ?thesis by blast
qed

end
