(* ===== verification/Lease.thy ===== *)
theory Lease
  imports Host
begin

text \<open>
  What the two programs promise of a host, without files, processes, databases and descriptors: the host is leased to
  one server at a time, and a watchdog that once saw it free may remove its record later. The machine of \<open>Host\<close> takes
  only the steps of the lease.
\<close>

section \<open>The lease\<close>

text \<open>What the watchdog knows: nothing, that the host was free, or also that it had a record then.\<close>

datatype knowledge = Nothing | Saw_free | Found_record

record lease =
  le_owner :: "int option"
  le_clear :: bool
  le_serving :: bool
  le_record :: bool
  le_watch :: knowledge

text \<open>
  A free host is taken by any process. Its owner may find that there is no record, and then, whether or not it gets
  its own, serves. An owner leaves; one that served may take the record along, any other leaves the record as it
  is. A watchdog that sees the host free, and then finds a record, may remove the record, whoever's it is by then.
\<close>

inductive lease_step :: "lease \<Rightarrow> lease \<Rightarrow> bool" where
  take: "le_owner l = None \<Longrightarrow> lease_step l (l\<lparr>le_owner := Some p\<rparr>)"
| clear: "le_owner l = Some p \<Longrightarrow> \<not> le_serving l \<Longrightarrow> \<not> le_record l \<Longrightarrow> lease_step l (l\<lparr>le_clear := True\<rparr>)"
| register:
  "le_owner l = Some p \<Longrightarrow> le_clear l \<Longrightarrow> \<not> le_record l \<Longrightarrow>
   lease_step l (l\<lparr>le_clear := False, le_serving := True, le_record := r\<rparr>)"
| leave:
  "le_owner l = Some p \<Longrightarrow> r \<longrightarrow> le_record l \<Longrightarrow> le_serving l \<or> (r \<longleftrightarrow> le_record l) \<Longrightarrow>
   lease_step l (l\<lparr>le_owner := None, le_clear := False, le_serving := False, le_record := r\<rparr>)"
| see: "le_owner l = None \<Longrightarrow> lease_step l (l\<lparr>le_watch := Saw_free\<rparr>)"
| find: "le_watch l = Saw_free \<Longrightarrow> le_record l \<Longrightarrow> lease_step l (l\<lparr>le_watch := Found_record\<rparr>)"
| miss: "le_watch l = Saw_free \<Longrightarrow> \<not> le_record l \<Longrightarrow> lease_step l (l\<lparr>le_watch := Nothing\<rparr>)"
| clean: "le_watch l = Found_record \<Longrightarrow> r \<longrightarrow> le_record l \<Longrightarrow> lease_step l (l\<lparr>le_record := r, le_watch := Nothing\<rparr>)"

text \<open>The lease in a state of the machine.\<close>

fun knows :: "watch_stage \<Rightarrow> knowledge" where
  "knows Asleep = Nothing"
| "knows (Looked fd rv) = (if rv < 0 then Nothing else Saw_free)"
| "knows (Asked fd ex) = (if ex then Found_record else Nothing)"

definition lease_of :: "('db \<Rightarrow> coll \<Rightarrow> bson multiset) \<Rightarrow> string \<Rightarrow> string \<Rightarrow> string \<Rightarrow> 'db host \<Rightarrow> lease" where
  "lease_of docs f ip mdb h =
     \<lparr>le_owner = ho_locks h (c_str f), le_clear = (\<exists>p. about_to_insert h p), le_serving = (\<exists>p. serving h p),
      le_record = (own_records docs ip mdb h = 1), le_watch = knows (ho_round h)\<rparr>"

lemma lease_of_sel [simp]:
  "le_owner (lease_of docs f ip mdb h) = ho_locks h (c_str f)" "le_clear (lease_of docs f ip mdb h) \<longleftrightarrow> (\<exists>p. about_to_insert h p)"
  "le_serving (lease_of docs f ip mdb h) \<longleftrightarrow> (\<exists>p. serving h p)" "le_watch (lease_of docs f ip mdb h) = knows (ho_round h)"
  "le_record (lease_of docs f ip mdb h) \<longleftrightarrow> own_records docs ip mdb h = 1"
  by (simp_all add: lease_of_def)

section \<open>The machine takes only its steps\<close>

text \<open>A process that starts, and one that is gone: with its boot not done it had no part in the lease.\<close>

lemma lease_starts:
  assumes "starts f mdb p s h h'"
  shows "lease_of docs f ip mdb h' = lease_of docs f ip mdb h"
proof -
  have h': "h' = h\<lparr>ho_procs := (ho_procs h)(p \<mapsto> (Booting, s))\<rparr>" and p: "ho_procs h p = None"
    using assms by (simp_all add: starts_def)
  have "about_to_insert h' q \<longleftrightarrow> about_to_insert h q" "serving h' q \<longleftrightarrow> serving h q" for q
    using p by (auto simp: h' about_to_insert_def serving_def)
  then show ?thesis by (simp add: lease_of_def) (simp add: h' own_records_def)
qed

lemma lease_gone:
  assumes "host_inv docs f ip mdb h" "host_inv docs f ip mdb h'" "ho_procs h p = Some (st, s)" "ho_procs h' = (ho_procs h)(p := None)"
    and "ho_round h' = ho_round h" "own_records docs ip mdb h' \<le> own_records docs ip mdb h"
    and "st \<noteq> Serving \<Longrightarrow> own_records docs ip mdb h' = own_records docs ip mdb h"
  shows "lease_step\<^sup>=\<^sup>= (lease_of docs f ip mdb h) (lease_of docs f ip mdb h')"
proof (cases "st = Booting")
  case True
  have stage: "past_boot h' q \<longleftrightarrow> past_boot h q" "about_to_insert h' q \<longleftrightarrow> about_to_insert h q" "serving h' q \<longleftrightarrow> serving h q" for q
    using assms(3,4) True by (auto simp: past_boot_def about_to_insert_def serving_def)
  have "ho_locks h' (c_str f) = Some q \<longleftrightarrow> ho_locks h (c_str f) = Some q" for q
    unfolding host_invD(4)[OF assms(1)] host_invD(4)[OF assms(2)] by (rule stage(1))
  then have "ho_locks h' (c_str f) = ho_locks h (c_str f)" by (metis not_Some_eq)
  then show ?thesis using stage assms(5,7) True by (simp add: lease_of_def)
next
  case False
  have p: "past_boot h p" using assms(3) False by (auto simp: past_boot_def)
  have none: "\<not> past_boot h' q" for q
    using one_past_boot[OF assms(1) p, of q] assms(4) by (auto simp: past_boot_def split: if_splits)
  have free: "ho_locks h' (c_str f) = None" using lock_free[OF assms(2)] none by blast
  have idle: "\<not> serving h' q" "\<not> about_to_insert h' q" for q using none stages_past_boot by blast+
  have own: "ho_locks h (c_str f) = Some p" using host_invD(4)[OF assms(1)] p by blast
  have "serving h p \<or> st \<noteq> Serving" using assms(3) by (cases st) (auto simp: serving_def)
  then have "(\<exists>q. serving h q) \<or> (own_records docs ip mdb h' = 1 \<longleftrightarrow> own_records docs ip mdb h = 1)"
    using assms(7) by auto
  moreover have "own_records docs ip mdb h' = 1 \<longrightarrow> own_records docs ip mdb h = 1"
    using assms(6) host_invD(6)[OF assms(1)] by linarith
  ultimately have "lease_step (lease_of docs f ip mdb h)
      ((lease_of docs f ip mdb h)\<lparr>le_owner := None, le_clear := False, le_serving := False, le_record := (own_records docs ip mdb h' = 1)\<rparr>)"
    using own by (intro lease_step.leave[of _ p]) simp_all
  moreover have "lease_of docs f ip mdb h' =
      (lease_of docs f ip mdb h)\<lparr>le_owner := None, le_clear := False, le_serving := False, le_record := (own_records docs ip mdb h' = 1)\<rparr>"
    using free idle assms(5) by (simp add: lease_of_def)
  ultimately show ?thesis by simp
qed

text \<open>The parts of the watchdog's round leave the owner alone.\<close>

lemma lease_watched:
  assumes "host_inv docs f ip mdb h" "watched docs ip mdb (watch_in h) t"
  shows "lease_of docs f ip mdb (at_stage r (put_watch t h)) =
    (lease_of docs f ip mdb h)\<lparr>le_record := (own_records docs ip mdb (put_watch t h) = 1), le_watch := knows r\<rparr>"
proof -
  have "about_to_insert (at_stage r (put_watch t h)) q \<longleftrightarrow> about_to_insert h q" for q by (simp add: about_to_insert_def)
  then show ?thesis
    using watched_lock[OF assms(1) watchedD(2)[OF assms(2)]] by (simp add: lease_of_def own_records_def)
qed

lemma lease_looks:
  assumes "host_inv docs f ip mdb h" "ho_round h = Asleep" "probe_lock f (watch_in h) = (Returned (fd, rv), t)"
  shows "lease_step\<^sup>=\<^sup>= (lease_of docs f ip mdb h) (lease_of docs f ip mdb (at_stage (Looked fd rv) (put_watch t h)))"
proof -
  have rv: "rv = (if \<exists>q. past_boot h q then - 1 else 0)" and t: "watched docs ip mdb (watch_in h) t" "w_db (pd_mongo t) = ho_db h"
    by (rule look_outcome[OF assms(1)], use assms(3) in simp)+
  let ?l = "lease_of docs f ip mdb h"
  have l: "lease_of docs f ip mdb (at_stage (Looked fd rv) (put_watch t h)) = ?l\<lparr>le_watch := knows (Looked fd rv)\<rparr>"
    unfolding lease_watched[OF assms(1) t(1)] using t(2) by (simp add: lease_of_def own_records_def)
  show ?thesis
  proof (cases "\<exists>q. past_boot h q")
    case True
    then have "knows (Looked fd rv) = le_watch ?l" using rv assms(2) by simp
    then show ?thesis unfolding l by simp
  next
    case False
    then have "le_owner ?l = None" "knows (Looked fd rv) = Saw_free" using lock_free[OF assms(1)] rv by simp_all
    then show ?thesis unfolding l using lease_step.see[of ?l] by simp
  qed
qed

lemma lease_asks:
  assumes "host_inv docs f ip mdb h" "host_env L docs ip mdb" "ho_round h = Looked fd rv" "0 \<le> rv"
    and "ask_registry L ip mdb fd (watch_in h) = (Returned ex, t)"
  shows "lease_step (lease_of docs f ip mdb h) (lease_of docs f ip mdb (at_stage (Asked fd ex) (put_watch t h)))"
proof -
  have ex: "ex \<longleftrightarrow> own_records docs ip mdb h \<noteq> 0" and t: "watched docs ip mdb (watch_in h) t" "w_db (pd_mongo t) = ho_db h"
    by (rule ask_outcome[OF assms(1,2), of fd], use assms(5) in simp)+
  let ?l = "lease_of docs f ip mdb h"
  have l: "lease_of docs f ip mdb (at_stage (Asked fd ex) (put_watch t h)) = ?l\<lparr>le_watch := knows (Asked fd ex)\<rparr>"
    unfolding lease_watched[OF assms(1) t(1)] using t(2) by (simp add: lease_of_def own_records_def)
  have saw: "le_watch ?l = Saw_free" using assms(3,4) by simp
  have rec: "le_record ?l \<longleftrightarrow> ex" using ex host_invD(6)[OF assms(1)] by auto
  show ?thesis
  proof (cases ex)
    case True
    then show ?thesis unfolding l using lease_step.find[OF saw] rec by simp
  next
    case False
    then show ?thesis unfolding l using lease_step.miss[OF saw] rec by simp
  qed
qed

lemma lease_cleans:
  assumes "host_inv docs f ip mdb h" "host_env L docs ip mdb" "ho_round h = Asked fd ex"
    and "clean_and_run L (\<lambda>_. id) cmd ip mdb fd ex (watch_in h) = (Returned (), t)"
  shows "lease_step\<^sup>=\<^sup>= (lease_of docs f ip mdb h) (lease_of docs f ip mdb (at_stage Asleep (put_watch t h)))"
proof -
  have t: "watched docs ip mdb (watch_in h) t" and same: "\<not> ex \<Longrightarrow> w_db (pd_mongo t) = ho_db h"
    by (rule clean_outcome[OF assms(1,2), of cmd fd ex], use assms(4) in simp)+
  let ?l = "lease_of docs f ip mdb h" and ?r = "own_records docs ip mdb (put_watch t h) = 1"
  have le: "own_records docs ip mdb (put_watch t h) \<le> own_records docs ip mdb h"
    using watchedD(3)[OF t] by (simp add: own_records_def)
  show ?thesis
  proof (cases ex)
    case True
    then have "le_watch ?l = Found_record" using assms(3) by simp
    moreover have "?r \<longrightarrow> le_record ?l" using le host_invD(6)[OF assms(1)] by auto
    ultimately show ?thesis unfolding lease_watched[OF assms(1) t] using lease_step.clean[of ?l ?r] by simp
  next
    case False
    then have "?l\<lparr>le_record := ?r, le_watch := knows Asleep\<rparr> = ?l"
      using same[OF False] assms(3) by (simp add: lease_of_def own_records_def)
    then show ?thesis unfolding lease_watched[OF assms(1) t] by simp
  qed
qed

lemma lease_taken:
  assumes "host_inv docs f ip mdb h" "ho_procs h p = Some (Booting, s)" "go_daemon f (server_in h s) = (Returned (), t)"
  shows "lease_step (lease_of docs f ip mdb h) (lease_of docs f ip mdb (put_server p Locked t h))"
proof -
  let ?h = "put_server p Locked t h"
  note d = inv_daemonized[OF assms]
  have free: "ho_locks h (c_str f) = None" using lock_free[OF assms(1)] d(2) by simp
  have "past_boot ?h p" by (simp add: past_boot_def)
  then have own: "ho_locks ?h (c_str f) = Some p" using host_invD(4)[OF d(1)] by blast
  have stage: "serving ?h q \<longleftrightarrow> serving h q" "about_to_insert ?h q \<longleftrightarrow> about_to_insert h q" for q
    using assms(2) by (auto simp: serving_def about_to_insert_def)
  have "lease_of docs f ip mdb ?h = (lease_of docs f ip mdb h)\<lparr>le_owner := Some p\<rparr>"
    using own stage d(3) by (simp add: lease_of_def)
  then show ?thesis using lease_step.take[of "lease_of docs f ip mdb h" p] free by simp
qed

text \<open>A server that goes on with the lock: what the others do is as it was.\<close>

lemma lease_goes_on:
  assumes "host_inv docs f ip mdb h" "ho_procs h p = Some (st, s)" "st \<noteq> Booting" "os_locks (sv_os t) = ho_locks h"
  shows "lease_of docs f ip mdb (put_server p st' t h) =
    (lease_of docs f ip mdb h)\<lparr>le_clear := (\<exists>port. st' = Cleared port), le_serving := (st' = Serving),
       le_record := (own_records docs ip mdb (put_server p st' t h) = 1)\<rparr>"
proof -
  let ?h = "put_server p st' t h"
  have p: "past_boot h p" using assms(2,3) by (auto simp: past_boot_def)
  have "q = p" if "past_boot h q" for q using one_past_boot[OF assms(1) that p] .
  then have others: "\<not> serving h q" "\<not> about_to_insert h q" if "q \<noteq> p" for q using stages_past_boot that by blast+
  have "(\<exists>q. serving ?h q) \<longleftrightarrow> st' = Serving"
    using others(1) by (auto simp: serving_def split: if_splits)
  moreover have "(\<exists>q. about_to_insert ?h q) \<longleftrightarrow> (\<exists>port. st' = Cleared port)"
    using others(2) by (auto simp: about_to_insert_def split: if_splits)
  ultimately show ?thesis using assms(4) by (simp add: lease_of_def)
qed

lemma lease_checks:
  assumes "host_inv docs f ip mdb h" "host_env L docs ip mdb" "ho_procs h p = Some (Locked, s)"
    and "init_check L ip (server_in h s) = (r, t)"
  shows "r = Returned port \<Longrightarrow> lease_step (lease_of docs f ip mdb h) (lease_of docs f ip mdb (put_server p (Cleared port) t h))"
    and "lease_step\<^sup>=\<^sup>= (lease_of docs f ip mdb h) (lease_of docs f ip mdb (server_gone p t h))"
proof -
  obtain port' t' where r: "init_check L ip (server_in h s) = (if own_records docs ip mdb h = 0 then Returned port' else Exited 0, t')"
    and t': "os_locks (sv_os t') = ho_locks h" "w_db (sv_world t') = ho_db h" "host_inv docs f ip mdb (server_gone p t' h)"
    by (rule check_outcome[OF assms(1-3)]) (rule that)
  have t: "os_locks (sv_os t) = ho_locks h" "w_db (sv_world t) = ho_db h" "host_inv docs f ip mdb (server_gone p t h)"
    using r t' assms(4) by simp_all
  let ?l = "lease_of docs f ip mdb h"
  show "lease_step\<^sup>=\<^sup>= ?l (lease_of docs f ip mdb (server_gone p t h))"
    by (rule lease_gone[OF assms(1) t(3) assms(3)]) (use t(2) in \<open>simp_all add: own_records_def\<close>)
  show "lease_step ?l (lease_of docs f ip mdb (put_server p (Cleared port) t h))" if ret: "r = Returned port"
  proof -
    have z: "own_records docs ip mdb h = 0" using r ret assms(4) by (auto split: if_splits)
    have "past_boot h p" using assms(3) by (auto simp: past_boot_def)
    then have own: "le_owner ?l = Some p" using host_invD(4)[OF assms(1)] by simp
    have "q = p" if "past_boot h q" for q using one_past_boot[OF assms(1) that \<open>past_boot h p\<close>] .
    then have serves: "\<not> le_serving ?l" using assms(3) stages_past_boot(1) by (fastforce simp: serving_def)
    have "Locked \<noteq> Booting" by simp
    note on = lease_goes_on[OF assms(1,3) this t(1), of "Cleared port"]
    have "lease_of docs f ip mdb (put_server p (Cleared port) t h) = ?l\<lparr>le_clear := True\<rparr>"
      unfolding on
      using serves t(2) by (simp add: lease_of_def own_records_def)
    then show ?thesis using lease_step.clear[OF own serves] z by simp
  qed
qed

lemma lease_registers:
  assumes "host_inv docs f ip mdb h" "host_env L docs ip mdb" "ho_procs h p = Some (Cleared port, s)"
    and "init_insert L ip port (server_in h s) = (r, t)"
  shows "r = Returned 0" "lease_step (lease_of docs f ip mdb h) (lease_of docs f ip mdb (put_server p Serving t h))"
proof -
  have r: "r = Returned 0" and locks: "os_locks (sv_os t) = ho_locks h"
    by (rule insert_outcome[OF assms(1-3)], use assms(4) in simp)+
  show "r = Returned 0" by (rule r)
  let ?l = "lease_of docs f ip mdb h" and ?r = "own_records docs ip mdb (put_server p Serving t h) = 1"
  have c: "about_to_insert h p" using assms(3) by (auto simp: about_to_insert_def)
  then have own: "le_owner ?l = Some p" using host_invD(4)[OF assms(1)] stages_past_boot(2) by simp
  have "Cleared port \<noteq> Booting" by simp
  from lease_goes_on[OF assms(1,3) this locks, of Serving]
  have "lease_of docs f ip mdb (put_server p Serving t h) = ?l\<lparr>le_clear := False, le_serving := True, le_record := ?r\<rparr>" by simp
  then show "lease_step ?l (lease_of docs f ip mdb (put_server p Serving t h))"
    using lease_step.register[OF own, of ?r] c host_invD(7)[OF assms(1) c] by auto
qed

lemma program_lease:
  assumes "host_inv docs f ip mdb h" "host_env L docs ip mdb" "program_step L f ip mdb cmd h h'"
  shows "lease_step\<^sup>=\<^sup>= (lease_of docs f ip mdb h) (lease_of docs f ip mdb h')"
  using assms(3)
proof cases
  case (watch_looks fd rv t)
  then show ?thesis using lease_looks[OF assms(1)] by simp
next
  case (watch_content fd rv c t)
  have "watching (watch_in h)" using host_invD(1)[OF assms(1)] by simp
  then obtain c' u where "log_os (sys_close fd) (watch_in h) = (Returned c', u)" "watched docs ip mdb (watch_in h) u"
    "w_db (pd_mongo u) = ho_db h"
    using close_runs[of "watch_in h" fd docs ip mdb] by (metis watch_in_sel(6))
  then have t: "watched docs ip mdb (watch_in h) t" "w_db (pd_mongo t) = ho_db h" using watch_content(4) by simp_all
  have "lease_of docs f ip mdb h' = lease_of docs f ip mdb h"
    unfolding watch_content(1) lease_watched[OF assms(1) t(1)] using watch_content(2,3) t(2)
    by (simp add: lease_of_def own_records_def)
  then show ?thesis by simp
next
  case (watch_asks fd rv ex t)
  then show ?thesis using lease_asks[OF assms(1,2)] by simp
next
  case (watch_in_vain fd ex t)
  then show ?thesis using lease_cleans[OF assms(1,2)] by simp
next
  case (watch_restarts fd ex t p s)
  then show ?thesis using lease_cleans[OF assms(1,2)] lease_starts[OF watch_restarts(3)] by simp
next
  case (daemonized p s t)
  then show ?thesis using lease_taken[OF assms(1)] by simp
next
  case (no_daemon p s r t)
  have i: "host_inv docs f ip mdb (server_gone p t h)" by (rule inv_boot_ends[OF assms(1) no_daemon(2,3)])
  have b: "os_fork (sv_os s) = ChildSide p" "std_apart f (sv_os s)"
    using host_invD(5)[OF assms(1) no_daemon(2)] by (simp_all add: bootable_def)
  have "w_db (sv_world t) = ho_db h" using go_daemon_runs(3)[OF no_daemon(3), simplified, OF b] .
  then show ?thesis unfolding no_daemon(1)
    by (intro lease_gone[OF assms(1) i no_daemon(2)]) (simp_all add: own_records_def)
next
  case (cleared p s port t)
  then show ?thesis using lease_checks(1)[OF assms(1,2) cleared(2,3) refl] by simp
next
  case (refused p s r t)
  then show ?thesis using lease_checks(2)[OF assms(1,2) refused(2,3)] by simp
next
  case (registered p port s c t)
  then show ?thesis using lease_registers(2)[OF assms(1,2) registered(2,3)] by simp
next
  case (failed p port s r t)
  then show ?thesis using lease_registers(1)[OF assms(1,2) failed(2,3)] by simp
qed

lemma fault_lease:
  assumes "host_inv docs f ip mdb h" "host_env L docs ip mdb" "fault_step L docs f ip mdb h h'"
  shows "lease_step\<^sup>=\<^sup>= (lease_of docs f ip mdb h) (lease_of docs f ip mdb h')"
proof -
  have i: "host_inv docs f ip mdb h'" using fault_step_inv[OF assms] .
  from assms(3) show ?thesis
  proof cases
    case (by_hand p s)
    then show ?thesis using lease_starts[OF by_hand] by simp
  next
    case (killed p st s)
    show ?thesis
      by (rule lease_gone[OF assms(1) i killed(2)]) (simp_all add: killed(1) own_records_def)
  next
    case (signalled p st s r t)
    note sg = signal_runs[OF host_envD(1)[OF assms(2)] signalled(3)]
    show ?thesis
    proof (rule lease_gone[OF assms(1) i signalled(2)])
      show "own_records docs ip mdb h' \<le> own_records docs ip mdb h"
        using sg(2)[of mdb ip] by (simp add: signalled(1) own_records_def)
      assume "st \<noteq> Serving"
      then have "w_host (sv_world s) = []"
        using host_invD(5)[OF assms(1) signalled(2)] by (cases st) (simp_all add: bootable_def usable_def)
      then show "own_records docs ip mdb h' = own_records docs ip mdb h"
        using sg(3)[of ip mdb] host_envD(3)[OF assms(2)] by (simp add: signalled(1) own_records_def)
    qed (simp_all add: signalled(1))
  next
    case (others d)
    then show ?thesis by (simp add: lease_of_def serving_def about_to_insert_def own_records_def)
  qed
qed

lemma host_step_lease:
  "host_env L docs ip mdb \<and> host_inv docs f ip mdb h \<Longrightarrow> host_step L docs f ip mdb cmd h h' \<Longrightarrow>
   lease_step\<^sup>=\<^sup>= (lease_of docs f ip mdb h) (lease_of docs f ip mdb h')"
  unfolding host_step_def using program_lease fault_lease by blast

interpretation host_lease: refined_system
  "\<lambda>h. host_env L docs ip mdb \<and> host_started docs f ip mdb h" "host_step L docs f ip mdb cmd"
  "\<lambda>h. host_env L docs ip mdb \<and> host_inv docs f ip mdb h" lease_step "lease_of docs f ip mdb"
  by unfold_locales (use host_step_lease in blast)

text \<open>
  C8 (the host is a lease). With the database reachable, whatever it accepts and refuses, every run of the machine,
  with the parts of the rounds, boots and registrations and the faults in any order, is a run of the lease: only the
  owner of a free host gets to serve, and only after it found no record; a record goes with a server that served, or
  by a watchdog that since its last round saw the host free and then found a record; nothing else removes one, and
  nobody but an owner who found none makes one.
\<close>

theorem host_refines_lease:
  assumes "host_env L docs ip mdb" "host_started docs f ip mdb h" "(host_step L docs f ip mdb cmd)\<^sup>*\<^sup>* h h'"
  shows "lease_step\<^sup>*\<^sup>* (lease_of docs f ip mdb h) (lease_of docs f ip mdb h')"
  using host_lease.run_sim[OF assms(3)] host_started_inv[OF assms(2)] assms(1) by blast

theorem host_refines_lease_witness:
  "\<exists>g. serving (g :: mem_db host) 43 \<and>
     lease_step\<^sup>*\<^sup>* \<lparr>le_owner = None, le_clear = False, le_serving = False, le_record = True, le_watch = Nothing\<rparr>
       (lease_of mem_docs ''/srv/log/pid'' ''10.0.0.7'' ''mongodb://a'' g)"
proof -
  obtain g where g: "(host_step mem_lib mem_docs ''/srv/log/pid'' ''10.0.0.7'' ''mongodb://a'' ''/srv/sbin/pull'')\<^sup>*\<^sup>* (mem_host [mem_host_entry]) g"
    "serving g 43"
    using mem_restarted by blast
  have "host_started mem_docs ''/srv/log/pid'' ''10.0.0.7'' ''mongodb://a'' (mem_host [mem_host_entry])"
    using mem_host_started mem_host_records(2) by simp
  moreover have "lease_of mem_docs ''/srv/log/pid'' ''10.0.0.7'' ''mongodb://a'' (mem_host [mem_host_entry]) =
      \<lparr>le_owner = None, le_clear = False, le_serving = False, le_record = True, le_watch = Nothing\<rparr>"
    using mem_host_records(2) by (simp add: lease_of_def) (simp add: mem_host_def serving_def about_to_insert_def)
  ultimately show ?thesis using host_refines_lease[OF mem_host_env _ g(1)] g(2) by auto
qed

end
