(* ===== verification/Spec2Isabelle.thy ===== *)
theory Spec2Isabelle
  imports PullLog Machine Service Lease
begin

text \<open>
  A model of the two programs of \<open>injectService\<close>, the server \<open>pull\<close> and its watchdog \<open>pulld\<close>.

  THE PROGRAMS. \<open>pull\<close> takes HTTP requests that start, stop and reload streams. A callback turns a request into
  an event and \<open>put_data\<close> deals it to one of several worker threads, in turn. A worker checks the stream cache in
  MongoDB, forks an \<open>ffmpeg\<close> that copies the stream, and writes the cache; a schedule thread restarts what died. A server
  registers its host in the same database and locks a pid file when it runs as a daemon. \<open>pulld\<close> tries that lock
  every five seconds; when it gets it, it removes the host's record and runs the server again.

  THEORIES, from the bottom up. A definition has the name of the function it translates; a suffix \<open>_d\<close> marks the
  watchdog's version of a function both programs have.
  \<open>Prelude\<close>: programs are functions from a state to an outcome and a state. An outcome is a returned value, a failed
  \<open>assert\<close> or uncaught exception (\<open>Aborted\<close>), an \<open>exit\<close>, a kill, or undefined behaviour. Nothing after the last four is
  run. The collections of rules the other theories use are declared there.
  \<open>CLib\<close>: strings, buffers, \<open>snprintf\<close>, \<open>atoi\<close> and the decimal texts. \<open>PString\<close>: \<open>string/p_string.cpp\<close>.
  \<open>IniReader\<close>: \<open>config/iniReader.cpp\<close>, identical in both programs, with a printer of configurations.
  \<open>Common\<close>, \<open>Mongo\<close>, \<open>World\<close>, \<open>ServerBiz\<close>, \<open>ProcessCtl\<close>, \<open>Workers\<close>, \<open>RestApi\<close>: the files of \<open>pull/src/app\<close>. The
  record \<open>world\<close> holds the members of \<open>ServerBiz\<close>, the database, the open handles and the process table.
  \<open>MongoLaws\<close>: what the driver and the JSON library are assumed to do, and an executable library that does it.
  \<open>StreamSpec\<close>: the abstract state, processes and cached streams, with a rule for each end of an event.
  \<open>Streams\<close>, \<open>Refinement\<close>, \<open>Pool\<close>: the code of the stream operations and of a worker's pass implements these rules.
  \<open>RestLaws\<close>: requests, replies and queues. \<open>Detect\<close>: the schedule thread. \<open>Races\<close>: several workers, as a step relation.
  \<open>Server\<close>: the callbacks, the workers, the schedule thread and the deaths of children as one state machine.
  \<open>Machine\<close>: the specification of that state machine, streams and queues alone, and the proof that the server refines it.
  \<open>Registry\<close>: the host registry and the handles.
  \<open>Sys\<close>: files, descriptors, locks, sessions. \<open>Utils\<close>, \<open>PidFile\<close>, \<open>PullLog\<close>, \<open>PullMain\<close>: \<open>utils/utils.cpp\<close>, \<open>log4cplus/log.cpp\<close>
  and \<open>main.cpp\<close> of the server.
  \<open>PureLog\<close>: \<open>log/pure_log.cpp\<close> of the watchdog. \<open>Adaptor\<close>: its database adaptor, \<open>global_conf.cpp\<close> and its state, which
  extends that of the log. \<open>Pulld\<close>: its \<open>main.cpp\<close>.
  \<open>Service\<close>: the serving process, its event loop interleaved with the threads of \<open>Server\<close>, each of which can end it.
  \<open>Host\<close>: both programs on one machine, as a step relation over the watchdog, the servers and what they share. A step
  uses the locks or the registry once: a round of the watchdog is its look at the lock, its question to the registry,
  and its removal and command; a start of a server is its \<open>daemon\<close>, its question and its insertion. \<open>watch_round_split\<close> and
  \<open>CRestApi_init_split\<close> show that these parts are the functions of \<open>Pulld\<close> and \<open>PullMain\<close>.
  \<open>Lease\<close>: the specification of that machine, a host leased to one server at a time while the watchdog acts on what it
  once saw, and the proof that the machine refines it.

  WHAT IS PROVED. Streams: a worker's pass refines the specification, a request leads to a running process and a
  cache entry, ids stay distinct with one worker (\<open>Pool\<close>), and the schedule thread revives what died (\<open>Detect\<close>). The whole server:
  \<open>init\<close> starts it or ends the program, and in any interleaving its state keeps its type and no worker gets stuck, no queued event is lost or overtaken in its queue, a
  worker can always catch up, one worker never caches a stream twice (\<open>Server\<close>), every run is a run of the abstract machine
  (\<open>Machine\<close>). Requests:
  round robin from any turn and the contract of the callbacks (\<open>RestLaws\<close>), every request is answered, and rightly, until
  one ends the process (\<open>Service\<close>). Registry: one server
  per host (\<open>Registry\<close>), a terminated server leaves it if the driver lets it (\<open>PullMain\<close>). Pid files: \<open>PidFile\<close> states the contract of an operation
  that holds a pid file as the locale \<open>pid_file_holder\<close>; \<open>write_pid_to_file\<close> of both programs, \<open>daemon\<close> and the start of the
  server as a daemon fulfil it, and readers, rivals and the watchdog rely on it. The watchdog replaces a dead server, leaves
  a live one alone, and tells them apart by the lock (\<open>Pulld\<close>). Together they keep at most one server per host, with the lock
  and at most one record, through crashes, signals and refusals of the database, and from every state ten of their steps
  lead to a server if the database accepts them (\<open>Host\<close>); all their runs are runs of a lease (\<open>Lease\<close>). Configuration: printing and loading, loading always ends
  and when it ends the program, no overrun (\<open>IniReader\<close>, whose contract for readers is the locale \<open>config_source\<close>). Logs:
  what a message does, the descriptors, the bound on the size and the rotation (\<open>PureLog\<close>), what passes the filter (\<open>PullLog\<close>).
  Strings (\<open>PString\<close>), paths and directories (\<open>Utils\<close>). The two adaptors are equivalent (\<open>Adaptor\<close>). Behaviour that is not
  what the code means to do is proved as it is: the races of two workers (\<open>Races\<close>), the request that ends the server
  (\<open>RestLaws\<close>), the process a reload leaves (\<open>Pool\<close>), the leak of cursors (\<open>Registry\<close>), a size limit that wraps and files
  named after hours that change with the day (\<open>PureLog\<close>), a server in the foreground taken for dead and a message through
  a null pointer (\<open>Pulld\<close>), a record that a stale check removes (\<open>Host\<close>), a daemon that loses the lock because it was started
  with a standard descriptor closed (\<open>PidFile\<close>).

  BOUNDS. \<open>worker_drain\<close> has a number of passes as fuel, which is the length of the queue; the refinement of a worker's pass shows that
  this many are enough. The requests of \<open>CRestApi_run\<close>, the rounds of \<open>schedule_rounds\<close> and the sleeps of \<open>watch_loop\<close> are arguments,
  as these loops have no end of their own. The other loops are structural recursions. The counters and the position of
  \<open>CLog\<close> are \<open>32 word\<close>s, the bytes of buffers are bounded as in the code, an \<open>int\<close> that overflows is undefined.

  ASSUMPTIONS. The record \<open>lib\<close> stands for mongoc, bson, jsoncpp and the choice of \<open>NDEBUG\<close> (\<open>l_asserts\<close>); its laws are
  named hypotheses, all true of \<open>mem_lib\<close>: \<open>lib_laws\<close> says what an operation did if it succeeded and that it did nothing if it
  failed; \<open>hosts_up\<close> and \<open>db_up\<close> say that the database can be reached; \<open>driver_ok\<close> says that it accepts every write, and
  is a hypothesis only where a property needs it, which its text then says. The body of a request is read up to its first NUL
  byte; that there is one is not something \<open>EVBUFFER_DATA\<close> promises. The results of \<open>fork\<close>, \<open>execl\<close>, \<open>open\<close>
  and the other calls that may fail are fields of the state; \<open>open\<close> gives out the lowest free descriptor. \<open>lax\<close> says whether a function that misses its \<open>return\<close> comes
  back. What the command of \<open>system\<close> and the rest of the machine do is an argument of the watchdog's loop in \<open>Pulld\<close>; in \<open>Host\<close> the
  command starts a server or nothing, both programs name the same pid file, address and database, the servers run as
  daemons and are started with standard input and output open, and \<open>daemon\<close> and a look at the lock, which takes it and
  gives it back, are one step each.

  NOT MODELLED. The vendored headers of libevent, jsoncpp, log4cplus, mongoc and bson; the parsing of HTTP by libevent
  and of command lines by the shell; \<open>mongoc_init\<close>; the flag \<open>FD_CLOEXEC\<close>; \<open>strerror\<close> in messages; code in comments or
  under \<open>#if 0\<close>; a signal between two statements of the watchdog; the memory model of unlocked accesses to the queues,
  where the interleavings of whole steps are modelled (\<open>Server\<close> splits a creation in two, a round of the schedule thread
  into its entries); scripts, Docker files and makefiles.
\<close>

end
